(* ===== verification/Prelude.thy ===== *)
theory Prelude
  imports Main "HOL-Library.Word" "HOL-Library.Monad_Syntax"
begin

text \<open>
  Shared ground of the development: the C integer types of \<^verbatim>\<open>src/src/common/wrapper.h\<close>
  as words, byte buffers as lists, and reads and writes of a buffer as partial operations.

  A function whose result type is an \<open>option\<close> returns \<open>None\<close> exactly where the C
  execution has no defined outcome: it reads or writes outside a buffer, dereferences
  \<^verbatim>\<open>NULL\<close>, or never returns.  Integers keep their C width, so every wrap-around and
  every truncation of the source is a wrap-around of the model.

  The byte-order helpers (\<^verbatim>\<open>htons\<close>, \<^verbatim>\<open>htonl\<close> and the memory image of an integer)
  are those of a little-endian host, the x86 Linux machine the Makefiles build for.
\<close>

unbundle bit_operations_syntax

type_synonym u8 = "8 word"
type_synonym u16 = "16 word"
type_synonym u32 = "32 word"
type_synonym u64 = "64 word"
type_synonym bytes = "u8 list"

named_theorems c_eval \<open>equations that evaluate the model on a concrete input\<close>
named_theorems mem_simps \<open>facts on reading and writing buffers\<close>


section \<open>Buffers\<close>

definition rd :: "bytes \<Rightarrow> nat \<Rightarrow> u8 option" where
  "rd buf i = (if i < length buf then Some (buf ! i) else None)"

text \<open>\<^verbatim>\<open>memcpy( dst , &buf[p] , n )\<close> as a read, and as a write of \<open>xs\<close> at \<open>p\<close>.\<close>

definition rdn :: "bytes \<Rightarrow> nat \<Rightarrow> nat \<Rightarrow> bytes option" where
  "rdn buf p n = (if p + n \<le> length buf then Some (take n (drop p buf)) else None)"

definition wrn :: "bytes \<Rightarrow> nat \<Rightarrow> bytes \<Rightarrow> bytes option" where
  "wrn buf p xs =
     (if p + length xs \<le> length buf
      then Some (take p buf @ xs @ drop (p + length xs) buf) else None)"

lemma rd_append [mem_simps]: "i < length xs \<Longrightarrow> rd (xs @ ys) i = rd xs i"
  by (simp add: rd_def nth_append)

lemma rd_Cons_0 [mem_simps, c_eval]: "rd (x # xs) 0 = Some x"
  by (simp add: rd_def)

lemma rd_Cons_Suc [mem_simps, c_eval]: "rd (x # xs) (Suc i) = rd xs i"
  by (simp add: rd_def)

lemma rd_Cons_num [c_eval]: "rd (x # xs) (numeral k) = rd xs (pred_numeral k)"
  by (simp add: rd_def numeral_eq_Suc)

lemma rd_Cons_1 [c_eval]: "rd (x # xs) 1 = rd xs 0"
  by (simp add: rd_def)

lemma rd_defined: "i < length buf \<Longrightarrow> \<exists>b. rd buf i = Some b"
  by (simp add: rd_def)

lemma bind_SomeE:
  assumes "Option.bind m f = Some y"
  obtains x where "m = Some x" "f x = Some y"
  using assms by (auto simp: bind_eq_Some_conv)

lemma rd_None_iff: "rd buf i = None \<longleftrightarrow> length buf \<le> i"
  by (simp add: rd_def not_less)

lemma rdn_Some_length: "rdn buf p n = Some xs \<Longrightarrow> length xs = n"
  by (auto simp: rdn_def split: if_splits)

lemma rdn_0_append [mem_simps]: "n = length xs \<Longrightarrow> rdn (xs @ ys) 0 n = Some xs"
  by (simp add: rdn_def)

lemma length_wrn: "wrn buf p xs = Some buf' \<Longrightarrow> length buf' = length buf"
  by (auto simp: wrn_def split: if_splits)

lemma wrn_defined_iff: "(\<exists>buf'. wrn buf p xs = Some buf') \<longleftrightarrow> p + length xs \<le> length buf"
  by (simp add: wrn_def)

text \<open>What is written can be read back, and the rest of the buffer is untouched.\<close>

lemma rdn_wrn_same: "wrn buf p xs = Some buf' \<Longrightarrow> rdn buf' p (length xs) = Some xs"
  by (auto simp: wrn_def rdn_def split: if_splits)

lemma rdn_wrn_other:
  assumes "wrn buf p xs = Some buf'" and "q + n \<le> p \<or> p + length xs \<le> q"
  shows "rdn buf' q n = rdn buf q n"
proof -
  from assms(1) have b: "buf' = take p buf @ xs @ drop (p + length xs) buf"
    and le: "p + length xs \<le> length buf" by (auto simp: wrn_def split: if_splits)
  have eq: "buf' ! i = buf ! i" if "i < p \<or> p + length xs \<le> i" "i < length buf" for i
    using that le by (auto simp: b nth_append)
  have "take n (drop q buf') = take n (drop q buf)" if "q + n \<le> length buf"
    by (rule nth_equalityI) (use that assms(2) length_wrn [OF assms(1)] in \<open>auto simp: eq\<close>)
  with length_wrn [OF assms(1)] show ?thesis by (simp add: rdn_def)
qed


text \<open>An array element at an \<^verbatim>\<open>int\<close> index.\<close>

definition idx :: "'a list \<Rightarrow> int \<Rightarrow> 'a option" where
  "idx xs i = (if 0 \<le> i \<and> i < int (length xs) then Some (xs ! nat i) else None)"

definition upd :: "'a list \<Rightarrow> int \<Rightarrow> 'a \<Rightarrow> 'a list option" where
  "upd xs i x = (if 0 \<le> i \<and> i < int (length xs) then Some (xs[nat i := x]) else None)"

lemma upd_Some: "upd xs i x = Some ys \<longleftrightarrow> 0 \<le> i \<and> i < int (length xs) \<and> ys = xs[nat i := x]"
  by (auto simp: upd_def)

lemma idx_Some: "idx xs i = Some x \<longleftrightarrow> 0 \<le> i \<and> i < int (length xs) \<and> x = xs ! nat i"
  by (auto simp: idx_def)

lemma idx_upd_same: "upd xs i x = Some ys \<Longrightarrow> idx ys i = Some x"
  by (auto simp: upd_def idx_def split: if_splits)

lemma idx_upd_other: "upd xs i x = Some ys \<Longrightarrow> i \<noteq> j \<Longrightarrow> idx ys j = idx xs j"
  by (auto simp: upd_def idx_def nth_list_update split: if_splits)

section \<open>Integers as bytes\<close>

text \<open>\<open>le_bytes n v\<close>: the low \<open>n\<close> bytes of \<open>v\<close>, least significant first; \<open>le_val\<close> reads them.\<close>

primrec le_bytes :: "nat \<Rightarrow> nat \<Rightarrow> bytes" where
  "le_bytes 0 v = []"
| "le_bytes (Suc n) v = of_nat v # le_bytes n (v div 256)"

primrec le_val :: "bytes \<Rightarrow> nat" where
  "le_val [] = 0"
| "le_val (b # bs) = unat b + 256 * le_val bs"

definition be_bytes :: "nat \<Rightarrow> nat \<Rightarrow> bytes" where
  "be_bytes n v = rev (le_bytes n v)"

definition be_val :: "bytes \<Rightarrow> nat" where
  "be_val bs = le_val (rev bs)"

lemma length_le_bytes [simp]: "length (le_bytes n v) = n"
  by (induction n arbitrary: v) auto

lemma length_be_bytes [simp]: "length (be_bytes n v) = n"
  by (simp add: be_bytes_def)

lemma unat_byte_lt [simp]: "unat (b :: u8) < 256"
  using unsigned_less [of b, where 'a = nat] by simp

lemma unat_u16_lt [simp]: "unat (w :: u16) < 65536"
  using unsigned_less [of w, where 'a = nat] by simp

lemma unat_u32_lt [simp]: "unat (w :: u32) < 4294967296"
  using unsigned_less [of w, where 'a = nat] by simp

lemma unat_u64_lt [simp]: "unat (w :: u64) < 18446744073709551616"
  using unsigned_less [of w, where 'a = nat] by simp

lemma le_val_bound: "le_val bs < 256 ^ length bs"
proof (induction bs)
  case Nil
  show ?case by simp
next
  case (Cons b bs)
  have "unat b + 256 * le_val bs < 256 * (le_val bs + 1)"
    using unat_byte_lt [of b] by simp
  also have "\<dots> \<le> 256 * 256 ^ length bs" using Cons.IH by (intro mult_le_mono2) simp
  finally show ?case by simp
qed

lemma be_val_bound: "be_val bs < 256 ^ length bs"
  using le_val_bound [of "rev bs"] by (simp add: be_val_def)

lemma le_val_le_bytes: "le_val (le_bytes n v) = v mod 256 ^ n"
proof (induction n arbitrary: v)
  case 0
  show ?case by simp
next
  case (Suc n)
  have "unat (of_nat v :: u8) = v mod 256" by (simp add: unat_of_nat)
  with Suc show ?case by (simp add: mod_mult2_eq)
qed

lemma le_bytes_le_val: "n = length bs \<Longrightarrow> le_bytes n (le_val bs) = bs"
proof (induction bs arbitrary: n)
  case Nil
  then show ?case by simp
next
  case (Cons b bs)
  have "(of_nat (unat b + 256 * le_val bs) :: u8) = b"
    by (simp add: word_unat_eq_iff unat_of_nat del: of_nat_add of_nat_mult)
  moreover have "(unat b + 256 * le_val bs) div 256 = le_val bs" by (simp add: div_mult_self2)
  ultimately show ?case using Cons by simp
qed

lemma be_val_be_bytes: "be_val (be_bytes n v) = v mod 256 ^ n"
  by (simp add: be_val_def be_bytes_def le_val_le_bytes)

lemma be_bytes_be_val: "n = length bs \<Longrightarrow> be_bytes n (be_val bs) = bs"
  by (simp add: be_val_def be_bytes_def le_bytes_le_val)

lemma be_val_Nil [simp]: "be_val [] = 0"
  by (simp add: be_val_def)

lemma le_val_append: "le_val (xs @ ys) = le_val xs + 256 ^ length xs * le_val ys"
  by (induction xs) (simp_all add: algebra_simps)

lemma be_val_Cons: "be_val (b # bs) = unat b * 256 ^ length bs + be_val bs"
  by (simp add: be_val_def le_val_append)

lemma be_val_append: "be_val (xs @ ys) = be_val xs * 256 ^ length ys + be_val ys"
  by (simp add: be_val_def le_val_append)

lemma be_bytes_0: "be_bytes 0 v = []"
  by (simp add: be_bytes_def)

lemma be_bytes_Suc: "be_bytes (Suc n) v = of_nat (v div 256 ^ n) # be_bytes n v"
proof -
  have "le_bytes (Suc n) v = le_bytes n v @ [of_nat (v div 256 ^ n)]"
    by (induction n arbitrary: v) (simp_all add: div_mult2_eq)
  then show ?thesis by (simp only: be_bytes_def rev_append rev.simps append.simps)
qed


section \<open>The memory image of an integer and the network byte order\<close>

definition mem16 :: "u16 \<Rightarrow> bytes" where "mem16 w = le_bytes 2 (unat w)"
definition mem32 :: "u32 \<Rightarrow> bytes" where "mem32 w = le_bytes 4 (unat w)"

definition load16 :: "bytes \<Rightarrow> u16" where "load16 bs = of_nat (le_val (take 2 bs))"
definition load32 :: "bytes \<Rightarrow> u32" where "load32 bs = of_nat (le_val (take 4 bs))"

text \<open>
  \<^verbatim>\<open>htons( w )\<close> has in memory the bytes of \<open>w\<close> in network order: reading the host's
  memory image of \<open>w\<close> most significant byte first swaps them.
\<close>

definition htons :: "u16 \<Rightarrow> u16" where
  "htons w = of_nat (be_val (le_bytes 2 (unat w)))"

definition htonl :: "u32 \<Rightarrow> u32" where
  "htonl w = of_nat (be_val (le_bytes 4 (unat w)))"

abbreviation ntohs :: "u16 \<Rightarrow> u16" where "ntohs \<equiv> htons"
abbreviation ntohl :: "u32 \<Rightarrow> u32" where "ntohl \<equiv> htonl"

lemma length_mem [simp]: "length (mem16 w) = 2" "length (mem32 v) = 4"
  by (simp_all add: mem16_def mem32_def)

lemma load16_mem16 [simp]: "load16 (mem16 w @ r) = w"
  by (simp add: load16_def mem16_def le_val_le_bytes)

lemma load32_mem32 [simp]: "load32 (mem32 w @ r) = w"
  by (simp add: load32_def mem32_def le_val_le_bytes)

lemma mem16_htons: "mem16 (htons w) = be_bytes 2 (unat w)"
proof -
  have "be_val (le_bytes 2 (unat w)) < 65536"
    using be_val_bound [of "le_bytes 2 (unat w)"] by simp
  then have "unat (htons w) = be_val (le_bytes 2 (unat w))"
    by (simp add: htons_def unat_of_nat)
  then show ?thesis by (simp add: mem16_def be_val_def be_bytes_def le_bytes_le_val)
qed

lemma mem32_htonl: "mem32 (htonl w) = be_bytes 4 (unat w)"
proof -
  have "be_val (le_bytes 4 (unat w)) < 4294967296"
    using be_val_bound [of "le_bytes 4 (unat w)"] by simp
  then have "unat (htonl w) = be_val (le_bytes 4 (unat w))"
    by (simp add: htonl_def unat_of_nat)
  then show ?thesis by (simp add: mem32_def be_val_def be_bytes_def le_bytes_le_val)
qed

lemma load16_inject: "load16 (mem16 v) = load16 (mem16 w) \<Longrightarrow> v = w"
  using load16_mem16 [of _ "[]"] by simp

lemma mem16_load16: "length bs = 2 \<Longrightarrow> mem16 (load16 bs) = bs"
  using le_val_bound [of bs] by (simp add: mem16_def load16_def unat_of_nat le_bytes_le_val)

lemma mem32_load32: "length bs = 4 \<Longrightarrow> mem32 (load32 bs) = bs"
  using le_val_bound [of bs] by (simp add: mem32_def load32_def unat_of_nat le_bytes_le_val)

lemma htons_htons [simp]: "htons (htons w) = w"
proof -
  have "rev (mem16 (htons w)) = mem16 w"
    by (simp add: mem16_htons be_bytes_def) (simp add: mem16_def)
  then have "be_val (le_bytes 2 (unat (htons w))) = le_val (mem16 w)"
    by (simp add: be_val_def mem16_def)
  then show ?thesis by (simp add: htons_def [of "htons w"] mem16_def le_val_le_bytes)
qed

lemma htonl_htonl [simp]: "htonl (htonl w) = w"
proof -
  have "rev (mem32 (htonl w)) = mem32 w"
    by (simp add: mem32_htonl be_bytes_def) (simp add: mem32_def)
  then have "be_val (le_bytes 4 (unat (htonl w))) = le_val (mem32 w)"
    by (simp add: be_val_def mem32_def)
  then show ?thesis by (simp add: htonl_def [of "htonl w"] mem32_def le_val_le_bytes)
qed

lemma ntohs_load16: "length bs = 2 \<Longrightarrow> ntohs (load16 bs) = of_nat (be_val bs)"
  using mem16_load16 [of bs] by (simp add: htons_def mem16_def)

lemma ntohl_load32: "length bs = 4 \<Longrightarrow> ntohl (load32 bs) = of_nat (be_val bs)"
  using mem32_load32 [of bs] by (simp add: htonl_def mem32_def)

lemma ntohs_load16_be [simp]: "ntohs (load16 (be_bytes 2 (unat w) @ r)) = w"
  by (metis htons_htons load16_mem16 mem16_htons)

lemma ntohl_load32_be [simp]: "ntohl (load32 (be_bytes 4 (unat w) @ r)) = w"
  by (metis htonl_htonl load32_mem32 mem32_htonl)


section \<open>Programs that may stop\<close>

text \<open>
  A function that can call \<^verbatim>\<open>exit\<close> gives \<open>Ret\<close> its result, or \<open>Exit\<close> the state at the call of
  \<^verbatim>\<open>exit\<close>; \<open>cont\<close> goes on only after a return.  \<open>None\<close> still stands for no defined outcome.
\<close>

datatype ('s, 'a) run = Ret 'a | Exit 's

primrec cont :: "('s, 'a) run \<Rightarrow> ('a \<Rightarrow> ('s, 'b) run option) \<Rightarrow> ('s, 'b) run option" where
  "cont (Ret a) f = f a"
| "cont (Exit s) f = Some (Exit s)"

lemma cont_eq_Ret [simp]: "cont r f = Some (Ret b) \<longleftrightarrow> (\<exists>a. r = Ret a \<and> f a = Some (Ret b))"
  by (cases r) auto

end
