(* ===== verification/Clock.thy ===== *)
theory Clock
  imports Prelude
begin

text \<open>
  Timestamps: \<^verbatim>\<open>src/src/common/wrapper.c\<close>, lines 51 to 106.  A \<^verbatim>\<open>struct timeval\<close> holds
  two signed 64-bit fields; they are integers here, the sums and differences of clock readings
  staying far inside 64 bits.  The reading of \<^verbatim>\<open>gettimeofday\<close> is the argument \<open>now\<close>,
  the global \<^verbatim>\<open>START_TIMESTAMP\<close> the argument \<open>start\<close>.
\<close>

record timeval =
  tv_sec :: int
  tv_usec :: int

definition UpdateTimestamp :: "timeval \<Rightarrow> timeval \<Rightarrow> timeval" where
  "UpdateTimestamp start now =
     (let s = tv_sec now - tv_sec start; u = tv_usec now - tv_usec start
      in if u < 0 then \<lparr>tv_sec = s - 1, tv_usec = u + 100000\<rparr>
         else \<lparr>tv_sec = s, tv_usec = u\<rparr>)"

definition DiffCurrentTime :: "timeval \<Rightarrow> timeval \<Rightarrow> timeval \<Rightarrow> timeval" where
  "DiffCurrentTime start now ts =
     (let cur = UpdateTimestamp start now
      in \<lparr>tv_sec = tv_sec cur - tv_sec ts, tv_usec = tv_usec cur - tv_usec ts\<rparr>)"

definition IsExceedTime :: "timeval \<Rightarrow> timeval \<Rightarrow> bool" where
  "IsExceedTime exceed tv =
     (if tv_sec exceed > tv_sec tv then True
      else if tv_sec exceed = tv_sec tv \<and> tv_usec exceed > tv_usec tv then True
      else False)"

section \<open>What the clock measures\<close>

text \<open>The time a \<^verbatim>\<open>timeval\<close> stands for, in microseconds.\<close>

definition micros :: "timeval \<Rightarrow> int" where
  "micros t = 1000000 * tv_sec t + tv_usec t"

definition wf_time :: "timeval \<Rightarrow> bool" where
  "wf_time t \<longleftrightarrow> 0 \<le> tv_usec t \<and> tv_usec t < 1000000"

text \<open>
  C31: Against the time elapsed since \<^verbatim>\<open>START_TIMESTAMP\<close>, \<^verbatim>\<open>UpdateTimestamp\<close> is exact when the
  microsecond fields subtract without a borrow, and 0.9 seconds behind when they borrow: the
  borrow takes one second and gives back 100000 microseconds in place of 1000000.
\<close>

theorem UpdateTimestamp_elapsed:
  "micros (UpdateTimestamp start now) =
     micros now - micros start - (if tv_usec now < tv_usec start then 900000 else 0)"
  by (simp add: UpdateTimestamp_def micros_def Let_def)

text \<open>
  \<^verbatim>\<open>IsExceedTime\<close> compares the lexicographic pair, although \<^verbatim>\<open>DiffCurrentTime\<close> leaves the
  microsecond difference unnormalised: for an interval of whole seconds (keep-alive, list update,
  depart and playback all are) the answer is still the comparison of the times themselves, for
  every difference whose microsecond part is below one second in magnitude.
\<close>

lemma IsExceedTime_exact:
  assumes "tv_usec iv = 0" and "\<bar>tv_usec d\<bar> < 1000000"
  shows "IsExceedTime d iv \<longleftrightarrow> micros iv < micros d"
  using assms by (auto simp: IsExceedTime_def micros_def split: if_splits)

lemma UpdateTimestamp_usec:
  "wf_time start \<Longrightarrow> wf_time now \<Longrightarrow>
     -900000 < tv_usec (UpdateTimestamp start now) \<and> tv_usec (UpdateTimestamp start now) < 1000000"
  by (auto simp: UpdateTimestamp_def wf_time_def Let_def)

end
