(* ===== verification/Ebml.thy ===== *)
theory Ebml
  imports Prelude
begin

text \<open>
  The EBML reader of \<^verbatim>\<open>src/src/common/webm_parser.c\<close>, lines 46 to 155: element ids, data
  sizes and chunk headers.  A pointer argument \<^verbatim>\<open>&buf[p]\<close> is the list \<open>drop p buf\<close>.
\<close>

section \<open>The code\<close>

text \<open>
  The loop \<^verbatim>\<open>for( i = 7 ; i >= 0 ; i-- )\<close> that stops at the most significant set bit.
  \<open>find_msb b (Suc i)\<close> is the loop about to test bit \<open>i\<close>; it leaves \<^verbatim>\<open>i == -1\<close> when no
  bit is set.
\<close>

fun find_msb :: "u8 \<Rightarrow> nat \<Rightarrow> int" where
  "find_msb b 0 = -1"
| "find_msb b (Suc i) = (if drop_bit i b AND 1 = 1 then int i else find_msb b i)"

text \<open>The loop that shifts one byte after another into a 64-bit accumulator, from index \<open>i\<close>.\<close>

fun carry_loop :: "bytes \<Rightarrow> nat \<Rightarrow> nat \<Rightarrow> u64 \<Rightarrow> u64 option" where
  "carry_loop buf i 0 v = Some v"
| "carry_loop buf i (Suc k) v =
     do { b \<leftarrow> rd buf i; carry_loop buf (Suc i) k (push_bit 8 v + ucast b) }"

lemma find_msb_num [c_eval]:
  "find_msb b (numeral k) = (if drop_bit (pred_numeral k) b AND 1 = 1 then int (pred_numeral k)
     else find_msb b (pred_numeral k))"
  by (simp add: numeral_eq_Suc)

lemma carry_loop_num [c_eval]:
  "carry_loop buf i (numeral k) v =
     do { b \<leftarrow> rd buf i; carry_loop buf (Suc i) (pred_numeral k) (push_bit 8 v + ucast b) }"
  by (simp add: numeral_eq_Suc)

definition GetEBMLID :: "bytes \<Rightarrow> (u32 \<times> u16) option" where
  "GetEBMLID buf = do {
     b \<leftarrow> rd buf 0;
     let id_bytes = nat (8 - find_msb b 8);
     ebml_id \<leftarrow> carry_loop buf 1 (id_bytes - 1) (ucast b);
     Some (ucast ebml_id, of_nat id_bytes)
   }"

definition GetDataBytes :: "bytes \<Rightarrow> (u64 \<times> u16) option" where
  "GetDataBytes buf = do {
     b \<leftarrow> rd buf 0;
     let data_bytes_length = nat (8 - find_msb b 8);
     let byte_value_through_msb = b AND drop_bit data_bytes_length 0xff;
     data_bytes \<leftarrow> carry_loop buf 1 (data_bytes_length - 1) (ucast byte_value_through_msb);
     Some (data_bytes, of_nat data_bytes_length)
   }"

record Chank =
  chank_id :: u32
  id_bytes :: u16
  data_header_position :: u16
  data_bytes :: u64
  chank_bytes :: u64

definition GetChank :: "bytes \<Rightarrow> Chank option" where
  "GetChank buf = do {
     (i, size_bytes) \<leftarrow> GetEBMLID buf;
     let current_position = (ucast size_bytes :: u64);
     (d, size_bytes') \<leftarrow> GetDataBytes (drop (unat current_position) buf);
     let current_position = current_position + ucast size_bytes';
     if d = 0xffffffffffffff
     then Some \<lparr>chank_id = i, id_bytes = size_bytes,
                data_header_position = ucast current_position,
                data_bytes = 0, chank_bytes = current_position\<rparr>
     else let current_position = current_position + d
          in Some \<lparr>chank_id = i, id_bytes = size_bytes,
                   data_header_position = ucast (current_position - d),
                   data_bytes = d, chank_bytes = current_position\<rparr>
   }"

definition EBML_ID :: u32 where [c_eval]: "EBML_ID = 0x1a45dfa3"
definition VOID_ID :: u32 where [c_eval]: "VOID_ID = 0xec"
definition SEGMENT_ID :: u32 where [c_eval]: "SEGMENT_ID = 0x18538067"
definition SEEKHEAD_ID :: u32 where [c_eval]: "SEEKHEAD_ID = 0x114d9b74"
definition TRACKS_ID :: u32 where [c_eval]: "TRACKS_ID = 0x1654ae6b"
definition INFO_ID :: u32 where [c_eval]: "INFO_ID = 0x1549a966"
definition CLUSTER_ID :: u32 where [c_eval]: "CLUSTER_ID = 0x1f43b675"
definition SIMPLEBLOCK_ID :: u32 where [c_eval]: "SIMPLEBLOCK_ID = 0xa3"
definition TIMECODE_ID :: u32 where [c_eval]: "TIMECODE_ID = 0xe7"
definition CUE_ID :: u32 where [c_eval]: "CUE_ID = 0x1c53bb6b"

section \<open>The position of the leading bit\<close>

text \<open>\<open>lead b\<close>: the number of bytes the leading byte announces, 1 to 8, or 9 for a zero byte.\<close>

abbreviation lead :: "u8 \<Rightarrow> nat" where
  "lead b \<equiv> nat (8 - find_msb b 8)"

lemma find_msb_range: "-1 \<le> find_msb b n \<and> find_msb b n < int n"
  by (induction n) auto

lemma lead_range: "1 \<le> lead b \<and> lead b \<le> 9"
  using find_msb_range [of b 8] by linarith

lemma bit_test_iff: "(drop_bit i (b :: u8) AND 1 = 1) \<longleftrightarrow> bit b i"
  by (simp add: and_one_eq bit_iff_odd_drop_bit odd_iff_mod_2_eq_one)

lemma find_msb_eq:
  assumes "i < n" and "bit b i" and "\<And>j. i < j \<Longrightarrow> j < n \<Longrightarrow> \<not> bit b j"
  shows "find_msb b n = int i"
  using assms
proof (induction n)
  case 0
  then show ?case by simp
next
  case (Suc n)
  then show ?case by (cases "i = n") (auto simp: bit_test_iff)
qed

lemma find_msb_none: "(\<And>j. j < n \<Longrightarrow> \<not> bit b j) \<Longrightarrow> find_msb b n = -1"
  by (induction n) (auto simp: bit_test_iff)

lemma bit_u8_iff: "j < 8 \<Longrightarrow> bit (b :: u8) j \<longleftrightarrow> odd (unat b div 2 ^ j)"
proof -
  assume "j < 8"
  then have "bit b j = bit (unat b) j" by (simp add: bit_unsigned_iff)
  then show ?thesis by (simp add: bit_iff_odd)
qed

lemma lead_eq:
  assumes "1 \<le> n" and "n \<le> 8" and "2 ^ (8 - n) \<le> unat b" and "unat b < 2 * 2 ^ (8 - n)"
  shows "lead b = n"
proof -
  define i where "i = 8 - n"
  with assms have i: "i < 8" "n = 8 - i" "2 ^ i \<le> unat b" "unat b < 2 * 2 ^ i" by auto
  have "unat b div 2 ^ i = 1"
    using i(3,4) by (intro div_nat_eqI) (auto simp: algebra_simps)
  then have "bit b i" using i(1) by (simp add: bit_u8_iff)
  moreover have "\<not> bit b j" if "i < j" "j < 8" for j
  proof -
    from that have "2 * 2 ^ i \<le> (2 :: nat) ^ j"
      using power_increasing [of "Suc i" j "2 :: nat"] by simp
    with i(4) have "unat b div 2 ^ j = 0" by simp
    with that show ?thesis by (simp add: bit_u8_iff)
  qed
  ultimately have "find_msb b 8 = int i" using i(1) by (intro find_msb_eq) auto
  with i show ?thesis by simp
qed

lemma lead_9_iff: "lead b = 9 \<longleftrightarrow> b = 0"
proof
  assume "lead b = 9"
  then have none: "find_msb b 8 = -1" using find_msb_range [of b 8] by linarith
  show "b = 0"
  proof (rule ccontr)
    assume "b \<noteq> 0"
    then obtain j where j: "j < 8" "bit b j" by (auto simp: bit_eq_iff)
    define i where "i = (GREATEST j. j < 8 \<and> bit b j)"
    have g: "i < 8 \<and> bit b i" unfolding i_def
      by (rule GreatestI_nat [of _ j 8]) (use j in auto)
    have "\<not> bit b k" if "i < k" "k < 8" for k
      using Greatest_le_nat [of "\<lambda>j. j < 8 \<and> bit b j" k 8] that unfolding i_def by auto
    with g have "find_msb b 8 = int i" by (intro find_msb_eq) auto
    with none show False by simp
  qed
qed (simp add: find_msb_none)

section \<open>The accumulating loop\<close>

lemma carry_loop_eq:
  "carry_loop buf i k v =
     (if k = 0 \<or> i + k \<le> length buf
      then Some (v * 256 ^ k + of_nat (be_val (take k (drop i buf)))) else None)"
proof (induction buf i k v rule: carry_loop.induct)
  case (1 buf i v)
  show ?case by simp
next
  case (2 buf i k v)
  show ?case
  proof (cases "i < length buf")
    case True
    then have "drop i buf = buf ! i # drop (Suc i) buf" by (rule Cons_nth_drop_Suc [symmetric])
    moreover have "(of_nat (unat (buf ! i)) :: u64) = ucast (buf ! i)" by (rule of_nat_unat)
    moreover from True have "length (take k (drop (Suc i) buf)) = k" if "i + Suc k \<le> length buf"
      using that by simp
    ultimately show ?thesis using True 2
      by (auto simp: rd_def be_val_Cons push_bit_eq_mult algebra_simps)
  qed (simp add: rd_def)
qed

section \<open>What the readers return\<close>

lemma ucast_of_nat_64_32: "(ucast (of_nat x :: u64) :: u32) = of_nat x"
  by (rule bit_word_eqI) (auto simp: bit_simps)

lemma drop_bit_mask_u8: "m \<le> 8 \<Longrightarrow> drop_bit n (mask m :: u8) = mask (m - n)"
  by (rule bit_word_eqI) (auto simp: bit_simps)

lemma lead_mask: "b AND drop_bit (lead b) (0xff :: u8) = take_bit (8 - lead b) b"
proof -
  have "(0xff :: u8) = mask 8" by (simp add: mask_eq_exp_minus_1)
  then have "drop_bit (lead b) (0xff :: u8) = mask (8 - lead b)"
    using drop_bit_mask_u8 [of 8 "lead b"] by (simp only: order_refl)
  then show ?thesis by (simp add: take_bit_eq_mask)
qed

lemma GetEBMLID_eq:
  "GetEBMLID (b # r) =
     (if lead b \<le> Suc (length r)
      then Some (of_nat (be_val (take (lead b) (b # r))), of_nat (lead b)) else None)"
proof -
  obtain k where k: "lead b = Suc k" using lead_range [of b] by (cases "lead b") auto
  have "(ucast (ucast b * 256 ^ k + of_nat (be_val (take k r)) :: u64) :: u32) =
      of_nat (be_val (b # take k r))" if "k \<le> length r"
  proof -
    have "(ucast b :: u64) = of_nat (unat b)" by (rule of_nat_unat [symmetric])
    then have "(ucast b * 256 ^ k + of_nat (be_val (take k r)) :: u64) =
        of_nat (be_val (b # take k r))" using that by (simp add: be_val_Cons)
    then show ?thesis by (simp only: ucast_of_nat_64_32)
  qed
  then show ?thesis by (auto simp: GetEBMLID_def rd_Cons_0 carry_loop_eq k)
qed

lemma GetDataBytes_eq:
  "GetDataBytes (b # r) =
     (if lead b \<le> Suc (length r)
      then Some (of_nat (unat b mod 2 ^ (8 - lead b) * 256 ^ (lead b - 1)
                   + be_val (take (lead b - 1) r)), of_nat (lead b)) else None)"
proof -
  obtain k where k: "lead b = Suc k" using lead_range [of b] by (cases "lead b") auto
  have "(ucast (take_bit (8 - lead b) b) :: u64) = of_nat (unat b mod 2 ^ (8 - lead b))"
    by (metis of_nat_unat take_bit_eq_mod unsigned_take_bit_eq)
  then show ?thesis
    by (simp only: GetDataBytes_def rd_Cons_0 Option.bind.simps Let_def lead_mask)
      (auto simp: carry_loop_eq k)
qed

section \<open>Reference encoding\<close>

text \<open>
  \<open>vint n v\<close> is the \<open>n\<close>-byte EBML variable-length size of \<open>v\<close>: a marker bit after
  \<open>n - 1\<close> zero bits, then \<open>v\<close> in \<open>7 * n\<close> bits, most significant first.  An element id keeps
  its marker: a \<open>k\<close>-byte id is a number from \<open>2 ^ (7 * k)\<close> up to twice that.
\<close>

definition vint :: "nat \<Rightarrow> nat \<Rightarrow> bytes" where
  "vint n v = be_bytes n (v + 2 ^ (7 * n))"

definition vint_ok :: "nat \<Rightarrow> nat \<Rightarrow> bool" where
  "vint_ok n v \<longleftrightarrow> 1 \<le> n \<and> n \<le> 8 \<and> v < 2 ^ (7 * n)"

definition id_ok :: "nat \<Rightarrow> nat \<Rightarrow> bool" where
  "id_ok k i \<longleftrightarrow> 1 \<le> k \<and> k \<le> 4 \<and> 2 ^ (7 * k) \<le> i \<and> i < 2 * 2 ^ (7 * k)"

lemma length_vint [simp]: "length (vint n v) = n"
  by (simp add: vint_def)

lemma marker_split: "1 \<le> n \<Longrightarrow> n \<le> 8 \<Longrightarrow> (2 :: nat) ^ (7 * n) = 2 ^ (8 - n) * 256 ^ (n - 1)"
proof -
  assume "1 \<le> n" "n \<le> 8"
  then have "7 * n = (8 - n) + 8 * (n - 1)" by auto
  then have "(2 :: nat) ^ (7 * n) = 2 ^ (8 - n) * (2 ^ 8) ^ (n - 1)"
    by (simp only: power_add power_mult)
  then show ?thesis by simp
qed

lemma lead_of_be_bytes:
  assumes "1 \<le> n" "n \<le> 8" "2 ^ (7 * n) \<le> w" "w < 2 * 2 ^ (7 * n)"
  obtains b r where "be_bytes n w = b # r" "length r = n - 1" "lead b = n"
    "unat b = w div 256 ^ (n - 1)" "r = be_bytes (n - 1) w"
proof -
  obtain m where m: "n = Suc m" using assms(1) by (cases n) auto
  define h where "h = w div 256 ^ m"
  note sp = marker_split [OF assms(1,2)]
  have lo: "2 ^ (8 - n) \<le> h" unfolding h_def
    using assms(3) sp m by (simp add: less_eq_div_iff_mult_less_eq)
  have hi: "h < 2 * 2 ^ (8 - n)" unfolding h_def
    using assms(4) sp m by (simp add: div_less_iff_less_mult mult.assoc)
  have "(2 :: nat) * 2 ^ (8 - n) \<le> 256"
    using power_increasing [of "8 - n" 7 "2 :: nat"] m by simp
  with hi have u: "unat (of_nat h :: u8) = h" by (simp add: unat_of_nat)
  show thesis
    by (rule that [of "of_nat h" "be_bytes m w"])
      (use m lo hi u assms(1,2) in \<open>auto simp: be_bytes_Suc h_def intro!: lead_eq\<close>)
qed

lemma decode_vint:
  assumes "vint_ok n v"
  shows "GetDataBytes (vint n v @ rest) = Some (of_nat v, of_nat n)"
proof -
  from assms have n: "1 \<le> n" "n \<le> 8" and v: "v < 2 ^ (7 * n)" by (auto simp: vint_ok_def)
  define w where "w = v + 2 ^ (7 * n)"
  have "2 ^ (7 * n) \<le> w" "w < 2 * 2 ^ (7 * n)" using v by (auto simp: w_def)
  then obtain b r where br: "be_bytes n w = b # r" "length r = n - 1" "lead b = n"
    "unat b = w div 256 ^ (n - 1)" "r = be_bytes (n - 1) w"
    using lead_of_be_bytes [OF n] by metis
  define q :: nat where "q = 256 ^ (n - 1)"
  have w: "w = v + 2 ^ (8 - n) * q" by (simp add: w_def q_def marker_split [OF n])
  have "v div q < 2 ^ (8 - n)"
    using v marker_split [OF n] by (simp add: q_def div_less_iff_less_mult)
  then have "unat b mod 2 ^ (8 - n) = v div q" by (simp add: br(4) q_def [symmetric] w) (simp add: q_def)
  moreover have "be_val r = v mod q"
    by (simp add: br(5) be_val_be_bytes w q_def)
  ultimately have "unat b mod 2 ^ (8 - n) * q + be_val r = v" by simp
  then show ?thesis
    by (simp add: vint_def w_def [symmetric] br GetDataBytes_eq q_def)
qed

lemma GetEBMLID_be_bytes:
  assumes "id_ok k i"
  shows "GetEBMLID (be_bytes k i @ rest) = Some (of_nat i, of_nat k)"
proof -
  from assms have k: "1 \<le> k" "k \<le> 8" "2 ^ (7 * k) \<le> i" "i < 2 * 2 ^ (7 * k)"
    by (auto simp: id_ok_def)
  obtain b r where br: "be_bytes k i = b # r" "length r = k - 1" "lead b = k"
    using lead_of_be_bytes [OF k] by metis
  have "take k (b # r @ rest) = be_bytes k i" using br k by (cases k) auto
  moreover have "(2 :: nat) * 2 ^ (7 * k) \<le> 2 ^ (8 * k)"
    using k(1) power_increasing [of "Suc (7 * k)" "8 * k" "2 :: nat"] by simp
  then have "i mod 256 ^ k = i" using k(4) by (simp add: power_mult)
  moreover from this have "be_val (b # r) = i" using br(1) be_val_be_bytes [of k i] by simp
  ultimately show ?thesis using br k(1)
    by (simp add: GetEBMLID_eq)
qed

section \<open>Chunk headers\<close>

lemma unat_lead: "unat (of_nat (lead b) :: u16) = lead b"
  using lead_range [of b] by (simp add: unat_of_nat)

lemma GetEBMLID_Nil [simp]: "GetEBMLID [] = None"
  by (simp add: GetEBMLID_def rd_def)

lemma GetDataBytes_Nil [simp]: "GetDataBytes [] = None"
  by (simp add: GetDataBytes_def rd_def)

lemma lead_ge_1 [simp]: "Suc 0 \<le> lead b" "lead b \<le> 9"
  using lead_range [of b] by simp_all

lemma ucast_16_64: "unat (ucast (s :: u16) :: u64) = unat s"
  by (simp add: unsigned_ucast_eq take_bit_eq_mod mod_less less_trans [OF unat_u16_lt])

lemma ucast_64_16: "unat (ucast (x :: u64) :: u16) = unat x mod 65536"
  by (simp add: unsigned_ucast_eq take_bit_eq_mod)

lemma GetEBMLID_size:
  assumes "GetEBMLID buf = Some (i, s)"
  shows "1 \<le> unat s \<and> unat s \<le> 9 \<and> unat s \<le> length buf"
  using assms by (cases buf) (auto simp: GetEBMLID_eq unat_lead split: if_splits)

lemma GetDataBytes_size:
  assumes "GetDataBytes buf = Some (d, s)"
  shows "1 \<le> unat s \<and> unat s \<le> 9 \<and> unat s \<le> length buf"
  using assms by (cases buf) (auto simp: GetDataBytes_eq unat_lead split: if_splits)

lemma GetDataBytes_bound:
  assumes "GetDataBytes buf = Some (d, s)" and "unat s \<le> 8"
  shows "unat d < 2 ^ 56"
proof -
  obtain b r where buf: "buf = b # r" using assms(1) by (cases buf) auto
  with assms have l: "lead b \<le> 8" "lead b \<le> Suc (length r)"
    and d: "d = of_nat (unat b mod 2 ^ (8 - lead b) * 256 ^ (lead b - 1)
                   + be_val (take (lead b - 1) r))"
    by (auto simp: GetDataBytes_eq unat_lead split: if_splits)
  have 1: "1 \<le> lead b" using lead_range [of b] by simp
  define q :: nat where "q = 256 ^ (lead b - Suc 0)"
  have "be_val (take (lead b - 1) r) < q"
    using be_val_bound [of "take (lead b - 1) r"] l(2) by (simp add: q_def)
  moreover have "unat b mod 2 ^ (8 - lead b) * q + q \<le> 2 ^ (8 - lead b) * q"
    using mult_le_mono1 [of "Suc (unat b mod 2 ^ (8 - lead b))" "2 ^ (8 - lead b)" q]
    by (simp add: Suc_le_eq algebra_simps)
  ultimately have "unat b mod 2 ^ (8 - lead b) * q + be_val (take (lead b - 1) r) < 2 ^ (7 * lead b)"
    by (simp add: marker_split [OF 1 l(1)] q_def)
  also have "(2 :: nat) ^ (7 * lead b) \<le> 2 ^ 56" using l(1) by (intro power_increasing) auto
  finally show ?thesis by (simp add: d q_def [symmetric] unat_of_nat del: of_nat_add of_nat_mult)
qed

lemma GetDataBytes_defined:
  assumes "9 \<le> length buf" shows "\<exists>d s. GetDataBytes buf = Some (d, s)"
  using assms by (cases buf) (auto simp: GetDataBytes_eq intro: le_trans [OF lead_ge_1(2)])

lemma GetEBMLID_defined:
  assumes "9 \<le> length buf" shows "\<exists>i s. GetEBMLID buf = Some (i, s)"
  using assms by (cases buf) (auto simp: GetEBMLID_eq intro: le_trans [OF lead_ge_1(2)])

lemma GetChank_unfold:
  assumes "GetEBMLID buf = Some (i, s)" and "GetDataBytes (drop (unat s) buf) = Some (d, t)"
  shows "GetChank buf = Some
     \<lparr>chank_id = i, id_bytes = s, data_header_position = s + t,
      data_bytes = (if d = 0xffffffffffffff then 0 else d),
      chank_bytes = ucast s + ucast t + (if d = 0xffffffffffffff then 0 else d)\<rparr>"
proof -
  have "(ucast (ucast s + ucast t :: u64) :: u16) = s + t"
    by (rule word_unat_eq_iff [THEN iffD2])
      (simp add: unat_word_ariths ucast_64_16 ucast_16_64 mod_mod_cancel)
  then show ?thesis using assms by (simp add: GetChank_def Let_def ucast_16_64)
qed

lemma GetChank_defined:
  assumes "18 \<le> length buf"
  shows "\<exists>c. GetChank buf = Some c \<and> 2 \<le> unat (data_header_position c)
           \<and> unat (data_header_position c) \<le> 18"
proof -
  obtain i s where 1: "GetEBMLID buf = Some (i, s)" using GetEBMLID_defined [of buf] assms by auto
  note s = GetEBMLID_size [OF 1]
  obtain d t where 2: "GetDataBytes (drop (unat s) buf) = Some (d, t)"
    using GetDataBytes_defined [of "drop (unat s) buf"] assms s by fastforce
  note t = GetDataBytes_size [OF 2]
  from s t have "unat (s + t) = unat s + unat t" by (simp add: unat_word_ariths)
  with s t show ?thesis by (simp add: GetChank_unfold [OF 1 2])
qed

text \<open>
  Eighteen bytes are always enough for \<^verbatim>\<open>GetChank\<close>: it stays inside the buffer, and the
  header it found is 2 to 18 bytes long.
\<close>

lemma GetChank_reads_18:
  assumes "18 \<le> length buf"
  shows "\<exists>c. GetChank buf = Some c \<and> 2 \<le> unat (data_header_position c)
           \<and> unat (data_header_position c) \<le> 18"
  by (rule GetChank_defined [OF assms])

lemma GetChank_split:
  assumes "GetChank buf = Some c"
  obtains i s d t where "GetEBMLID buf = Some (i, s)"
    "GetDataBytes (drop (unat s) buf) = Some (d, t)"
    "c = \<lparr>chank_id = i, id_bytes = s, data_header_position = s + t,
      data_bytes = (if d = 0xffffffffffffff then 0 else d),
      chank_bytes = ucast s + ucast t + (if d = 0xffffffffffffff then 0 else d)\<rparr>"
proof -
  from assms obtain i s where 1: "GetEBMLID buf = Some (i, s)"
    by (auto simp: GetChank_def bind_eq_Some_conv)
  with assms obtain d t where 2: "GetDataBytes (drop (unat s) buf) = Some (d, t)"
    by (auto simp: GetChank_def bind_eq_Some_conv Let_def ucast_16_64)
  from GetChank_unfold [OF 1 2] assms have "c = \<lparr>chank_id = i, id_bytes = s, data_header_position = s + t,
      data_bytes = (if d = 0xffffffffffffff then 0 else d),
      chank_bytes = ucast s + ucast t + (if d = 0xffffffffffffff then 0 else d)\<rparr>" by simp
  with 1 2 show thesis by (rule that)
qed

text \<open>
  When the size field is at most eight bytes long, the length \<^verbatim>\<open>GetChank\<close> reports does not
  wrap around 64 bits: it is the header plus the data, so it is at least 2 and a reader that
  advances by it always makes progress.
\<close>

lemma GetChank_no_wrap:
  assumes "GetChank buf = Some c"
    and "unat (data_header_position c) \<le> unat (id_bytes c) + 8"
  shows "unat (chank_bytes c) = unat (data_header_position c) + unat (data_bytes c)
         \<and> 2 \<le> unat (data_header_position c)"
  using assms(1)
proof (rule GetChank_split)
  fix i s d t
  assume 1: "GetEBMLID buf = Some (i, s)" and 2: "GetDataBytes (drop (unat s) buf) = Some (d, t)"
    and c: "c = \<lparr>chank_id = i, id_bytes = s, data_header_position = s + t,
      data_bytes = (if d = 0xffffffffffffff then 0 else d),
      chank_bytes = ucast s + ucast t + (if d = 0xffffffffffffff then 0 else d)\<rparr>"
  note st = GetEBMLID_size [OF 1] GetDataBytes_size [OF 2]
  then have st': "unat (s + t) = unat s + unat t" by (simp add: unat_word_ariths)
  with assms(2) c have "unat t \<le> 8" by simp
  with 2 have "unat d < 2 ^ 56" by (rule GetDataBytes_bound)
  then have "unat (ucast s + ucast t + (if d = 0xffffffffffffff then 0 else d)) =
      unat s + unat t + unat (if d = 0xffffffffffffff then 0 else d)"
    using st by (auto simp: unat_word_ariths ucast_16_64)
  with st st' c show ?thesis by simp
qed

lemma GetChank_enc:
  assumes "id_ok k i" and "vint_ok n v"
  shows "GetChank (be_bytes k i @ vint n v @ rest) = Some
     (let d = if v = 2 ^ 56 - 1 then 0 else v
      in \<lparr>chank_id = of_nat i, id_bytes = of_nat k, data_header_position = of_nat (k + n),
          data_bytes = of_nat d, chank_bytes = of_nat (k + n + d)\<rparr>)"
proof -
  have k: "k \<le> 4" using assms(1) by (simp add: id_ok_def)
  have "(2 :: nat) ^ (7 * n) \<le> 2 ^ 56" using assms(2) by (intro power_increasing) (auto simp: vint_ok_def)
  then have v: "v < 2 ^ 56" using assms(2) by (simp add: vint_ok_def)
  have n: "n \<le> 8" using assms(2) by (simp add: vint_ok_def)
  have eq: "(of_nat v :: u64) = 0xffffffffffffff \<longleftrightarrow> v = 2 ^ 56 - 1"
    using v by (simp add: word_unat_eq_iff unat_of_nat)
  have kk: "unat (of_nat k :: u16) = k" using k by (simp add: unat_of_nat)
  have u: "(ucast (of_nat m :: u16) :: u64) = of_nat m" if "m \<le> 8" for m
    using that by (simp add: word_unat_eq_iff ucast_16_64 unat_of_nat)
  have 2: "GetDataBytes (drop (unat (of_nat k :: u16)) (be_bytes k i @ vint n v @ rest)) =
      Some (of_nat v, of_nat n)"
    by (simp add: kk decode_vint [OF assms(2)])
  show ?thesis
    by (subst GetChank_unfold [OF GetEBMLID_be_bytes [OF assms(1)] 2])
      (use k n in \<open>auto simp: eq u Let_def\<close>)
qed

text \<open>
  C32: \<^verbatim>\<open>GetChank\<close> inverts the EBML chunk header: an id of one to four bytes and a size of one to
  eight bytes, whatever follows, come back with their widths, the data position and the whole
  length; the all-ones eight-byte size ("unknown") is read as a chunk of no data.
\<close>

theorem GetChank_roundtrip:
  assumes "id_ok k i" and "vint_ok n v"
  shows "GetChank (be_bytes k i @ vint n v @ rest) = Some
     (let d = if v = 2 ^ 56 - 1 then 0 else v
      in \<lparr>chank_id = of_nat i, id_bytes = of_nat k, data_header_position = of_nat (k + n),
          data_bytes = of_nat d, chank_bytes = of_nat (k + n + d)\<rparr>)"
  by (rule GetChank_enc [OF assms])

theorem GetChank_roundtrip_witness:
  "GetChank (be_bytes 4 0x1f43b675 @ vint 8 (2 ^ 56 - 1) @ [0xe7]) = Some
     \<lparr>chank_id = CLUSTER_ID, id_bytes = 4, data_header_position = 12,
      data_bytes = 0, chank_bytes = 12\<rparr>"
  using GetChank_roundtrip [of 4 "0x1f43b675" 8 "2 ^ 56 - 1" "[0xe7]"]
  by (simp add: id_ok_def vint_ok_def CLUSTER_ID_def)

definition known_ids :: "(nat \<times> u32) list" where
  "known_ids = [(4, EBML_ID), (1, VOID_ID), (4, SEGMENT_ID), (4, SEEKHEAD_ID), (4, TRACKS_ID),
     (4, INFO_ID), (4, CLUSTER_ID), (1, SIMPLEBLOCK_ID), (1, TIMECODE_ID), (4, CUE_ID)]"

text \<open>
  Every element id the parser compares against is read back from its own bytes, and no two
  of them are confused.
\<close>

lemma known_ids_read_back:
  "list_all (\<lambda>(k, i). GetEBMLID (be_bytes k (unat i) @ rest) = Some (i, of_nat k)) known_ids
   \<and> distinct (map snd known_ids)"
  by (simp add: known_ids_def c_eval GetEBMLID_be_bytes id_ok_def)

end
