(* ===== verification/Wire.thy ===== *)
theory Wire
  imports Clock
begin

text \<open>
  The structures peers exchange, \<^verbatim>\<open>struct BlockInfo\<close> and \<^verbatim>\<open>struct NodeStatus\<close>, and the four
  routines that copy them to and from a packet: \<^verbatim>\<open>CopyBytesToBlockInfo\<close> and
  \<^verbatim>\<open>CopyBlockInfoToBytes\<close> (\<^verbatim>\<open>webm_parser.c\<close>, lines 367 to 393), \<^verbatim>\<open>CopyNodeStatusToBytes\<close> and
  \<^verbatim>\<open>CopyBytesToNodeStatus\<close> (\<^verbatim>\<open>p2p.c\<close>, lines 2332 to 2376).

  \<^verbatim>\<open>struct NodeStatus\<close> starts with the fields of \<^verbatim>\<open>struct BlockInfo\<close>, and the code casts one
  pointer to the other; the records extend each other the same way, so a routine on a
  \<^verbatim>\<open>BlockInfo *\<close> applies to both.  \<open>node_info\<close> is the first \<^verbatim>\<open>NODE_STATUS_BYTES\<close> of a
  \<^verbatim>\<open>NodeStatus\<close>: all but the timestamp, which is never copied.
\<close>

section \<open>The structures\<close>

record block_info =
  pos :: u32
  seq :: u32
  bytes :: u16
  total_piece_bytes :: u16
  cluster_seq :: u16
  total_pieces :: u8
  piece_seq :: u8
  status :: u8
  layer :: u8

record node_info = block_info +
  node_id :: u16
  ipaddr :: u32
  p_ipaddr :: u32
  port :: u16

record node_status = node_info +
  timestamp :: timeval

definition BLOCKINFO_BYTES :: nat where [c_eval, simp]: "BLOCKINFO_BYTES = 18"
definition NODE_STATUS_BYTES :: nat where [c_eval, simp]: "NODE_STATUS_BYTES = 30"

definition block_info0 :: block_info where
  "block_info0 = \<lparr>pos = 0, seq = 0, bytes = 0, total_piece_bytes = 0, cluster_seq = 0,
     total_pieces = 0, piece_seq = 0, status = 0, layer = 0\<rparr>"

definition node_info0 :: node_info where
  "node_info0 = block_info.extend block_info0 \<lparr>node_id = 0, ipaddr = 0, p_ipaddr = 0, port = 0\<rparr>"

definition node_status0 :: node_status where
  "node_status0 = node_info.extend node_info0 \<lparr>timestamp = \<lparr>tv_sec = 0, tv_usec = 0\<rparr>\<rparr>"

section \<open>The code\<close>

text \<open>The 18 bytes of a \<^verbatim>\<open>BlockInfo\<close> in the host's memory, and the structure overwritten by 18 bytes.\<close>

definition block_info_mem :: "'a block_info_scheme \<Rightarrow> bytes" where
  "block_info_mem i = mem32 (pos i) @ mem32 (seq i) @ mem16 (bytes i) @ mem16 (total_piece_bytes i)
     @ mem16 (cluster_seq i) @ [total_pieces i, piece_seq i, status i, layer i]"

definition load_block_info :: "bytes \<Rightarrow> 'a block_info_scheme \<Rightarrow> 'a block_info_scheme" where
  "load_block_info bs i = i\<lparr>pos := load32 bs, seq := load32 (drop 4 bs),
     bytes := load16 (drop 8 bs), total_piece_bytes := load16 (drop 10 bs),
     cluster_seq := load16 (drop 12 bs), total_pieces := bs ! 14, piece_seq := bs ! 15,
     status := bs ! 16, layer := bs ! 17\<rparr>"

definition CopyBytesToBlockInfo ::
    "'a block_info_scheme \<Rightarrow> bytes \<Rightarrow> 'a block_info_scheme option" where
  "CopyBytesToBlockInfo info buf = do {
     raw \<leftarrow> rdn buf 0 BLOCKINFO_BYTES;
     let info = load_block_info raw info;
     Some (info\<lparr>bytes := ntohs (bytes info), pos := ntohl (pos info), seq := ntohl (seq info),
       total_piece_bytes := ntohs (total_piece_bytes info), cluster_seq := ntohs (cluster_seq info)\<rparr>)
   }"

text \<open>The destination \<^verbatim>\<open>&buf[p]\<close> is given as the buffer and the offset.\<close>

definition CopyBlockInfoToBytes ::
    "bytes \<Rightarrow> nat \<Rightarrow> 'a block_info_scheme \<Rightarrow> bytes option" where
  "CopyBlockInfoToBytes buf p info =
     (let info = info\<lparr>bytes := htons (bytes info), pos := htonl (pos info), seq := htonl (seq info),
        total_piece_bytes := htons (total_piece_bytes info), cluster_seq := htons (cluster_seq info)\<rparr>
      in wrn buf p (block_info_mem info))"

definition CopyNodeStatusToBytes ::
    "bytes \<Rightarrow> nat \<Rightarrow> 'a node_info_scheme \<Rightarrow> bytes option" where
  "CopyNodeStatusToBytes data p ns = do {
     data \<leftarrow> CopyBlockInfoToBytes data p ns;
     data \<leftarrow> wrn data (p + BLOCKINFO_BYTES) (mem16 (htons (node_id ns)));
     data \<leftarrow> wrn data (p + BLOCKINFO_BYTES + 2) (mem32 (htonl (ipaddr ns)));
     data \<leftarrow> wrn data (p + BLOCKINFO_BYTES + 6) (mem32 (htonl (p_ipaddr ns)));
     wrn data (p + BLOCKINFO_BYTES + 10) (mem16 (htons (port ns)))
   }"

definition CopyBytesToNodeStatus ::
    "'a node_info_scheme \<Rightarrow> bytes \<Rightarrow> 'a node_info_scheme option" where
  "CopyBytesToNodeStatus ns data = do {
     ns \<leftarrow> CopyBytesToBlockInfo ns data;
     i \<leftarrow> rdn data BLOCKINFO_BYTES 2;
     let ns = ns\<lparr>node_id := ntohs (load16 i)\<rparr>;
     a \<leftarrow> rdn data (BLOCKINFO_BYTES + 2) 4;
     let ns = ns\<lparr>ipaddr := ntohl (load32 a)\<rparr>;
     pa \<leftarrow> rdn data (BLOCKINFO_BYTES + 6) 4;
     let ns = ns\<lparr>p_ipaddr := ntohl (load32 pa)\<rparr>;
     pt \<leftarrow> rdn data (BLOCKINFO_BYTES + 10) 2;
     Some (ns\<lparr>port := ntohs (load16 pt)\<rparr>)
   }"

section \<open>The wire format\<close>

text \<open>What the routines should put on the wire: every field most significant byte first.\<close>

definition info_wire :: "'a block_info_scheme \<Rightarrow> bytes" where
  "info_wire i = be_bytes 4 (unat (pos i)) @ be_bytes 4 (unat (seq i)) @ be_bytes 2 (unat (bytes i))
     @ be_bytes 2 (unat (total_piece_bytes i)) @ be_bytes 2 (unat (cluster_seq i))
     @ [total_pieces i, piece_seq i, status i, layer i]"

definition node_wire :: "'a node_info_scheme \<Rightarrow> bytes" where
  "node_wire n = info_wire n @ be_bytes 2 (unat (node_id n)) @ be_bytes 4 (unat (ipaddr n))
     @ be_bytes 4 (unat (p_ipaddr n)) @ be_bytes 2 (unat (port n))"

lemma length_info_wire [simp]: "length (info_wire i) = 18"
  by (simp add: info_wire_def)

lemma length_node_wire [simp]: "length (node_wire n) = 30"
  by (simp add: node_wire_def)

lemma CopyBlockInfoToBytes_wire: "CopyBlockInfoToBytes buf p i = wrn buf p (info_wire i)"
  by (simp add: CopyBlockInfoToBytes_def info_wire_def block_info_mem_def Let_def
      mem16_htons mem32_htonl)

text \<open>Two writes side by side are one write of the concatenation.\<close>

lemma wrn_append [mem_simps]:
  "q = p + length xs \<Longrightarrow> (do { b \<leftarrow> wrn buf p xs; wrn b q ys }) = wrn buf p (xs @ ys)"
  by (auto simp: wrn_def ac_simps)

lemma wrn_append_bind [mem_simps]:
  "q = p + length xs \<Longrightarrow>
     (do { b \<leftarrow> wrn buf p xs; c \<leftarrow> wrn b q ys; f c }) = (do { c \<leftarrow> wrn buf p (xs @ ys); f c })"
  using wrn_append [of q p xs buf ys] by (simp only: bind_assoc [symmetric])

lemma CopyNodeStatusToBytes_wire: "CopyNodeStatusToBytes buf p n = wrn buf p (node_wire n)"
  by (simp add: CopyNodeStatusToBytes_def CopyBlockInfoToBytes_wire node_wire_def
      mem16_htons mem32_htonl mem_simps)

lemma load_take: "load16 (take 2 bs) = load16 bs" "load32 (take 4 bs) = load32 bs"
  by (simp_all add: load16_def load32_def)

lemma be_ntohs_load16: "2 \<le> length bs \<Longrightarrow> be_bytes 2 (unat (ntohs (load16 bs))) = take 2 bs"
  using mem16_load16 [of "take 2 bs"] mem16_htons [of "ntohs (load16 bs)"]
  by (simp add: load_take)

lemma be_ntohl_load32: "4 \<le> length bs \<Longrightarrow> be_bytes 4 (unat (ntohl (load32 bs))) = take 4 bs"
  using mem32_load32 [of "take 4 bs"] mem32_htonl [of "ntohl (load32 bs)"]
  by (simp add: load_take)

text \<open>\<^verbatim>\<open>memcpy( dst , src , BLOCKINFO_BYTES )\<close> between two structures in memory.\<close>

definition copy_info :: "'a block_info_scheme \<Rightarrow> 'b block_info_scheme \<Rightarrow> 'a block_info_scheme" where
  "copy_info i j = i\<lparr>pos := pos j, seq := seq j, bytes := bytes j,
     total_piece_bytes := total_piece_bytes j, cluster_seq := cluster_seq j,
     total_pieces := total_pieces j, piece_seq := piece_seq j, status := status j, layer := layer j\<rparr>"

text \<open>\<^verbatim>\<open>memcpy( dst , src , NODE_STATUS_BYTES )\<close>: everything but the timestamp.\<close>

definition copy_node :: "'a node_info_scheme \<Rightarrow> 'b node_info_scheme \<Rightarrow> 'a node_info_scheme" where
  "copy_node n m = (copy_info n m)\<lparr>node_id := node_id m, ipaddr := ipaddr m,
     p_ipaddr := p_ipaddr m, port := port m\<rparr>"

lemma CopyBytesToBlockInfo_wire: "CopyBytesToBlockInfo i (info_wire j @ r) = Some (copy_info i j)"
proof -
  have l: "load_block_info (info_wire j) i = i\<lparr>pos := htonl (pos j), seq := htonl (seq j),
     bytes := htons (bytes j), total_piece_bytes := htons (total_piece_bytes j),
     cluster_seq := htons (cluster_seq j), total_pieces := total_pieces j,
     piece_seq := piece_seq j, status := status j, layer := layer j\<rparr>"
    by (simp add: load_block_info_def info_wire_def mem16_htons [symmetric] mem32_htonl [symmetric]
        nth_append)
  have "rdn (info_wire j @ r) 0 18 = Some (info_wire j)" by (rule rdn_0_append) simp
  with l show ?thesis by (simp add: CopyBytesToBlockInfo_def copy_info_def Let_def)
qed

lemma CopyBytesToBlockInfo_None: "CopyBytesToBlockInfo i bs = None \<longleftrightarrow> length bs < 18"
  by (auto simp: CopyBytesToBlockInfo_def rdn_def Let_def)

lemma split18: "length raw = 18 \<Longrightarrow>
  take 4 raw @ take 4 (drop 4 raw) @ take 2 (drop 8 raw) @ take 2 (drop 10 raw)
    @ take 2 (drop 12 raw) @ [raw ! 14, raw ! 15, raw ! 16, raw ! 17] = raw"
  by (auto simp: numeral_eq_Suc length_Suc_conv)

lemma info_wire_CopyBytes:
  assumes "CopyBytesToBlockInfo i bs = Some j"
  shows "info_wire j = take 18 bs"
proof -
  from assms have len: "18 \<le> length bs" using CopyBytesToBlockInfo_None [of i bs] by auto
  define raw where "raw = take 18 bs"
  from len have "length raw = 18" by (simp add: raw_def)
  moreover from this have "info_wire j = take 4 raw @ take 4 (drop 4 raw) @ take 2 (drop 8 raw)
      @ take 2 (drop 10 raw) @ take 2 (drop 12 raw) @ [raw ! 14, raw ! 15, raw ! 16, raw ! 17]"
    using assms len
    by (auto simp: CopyBytesToBlockInfo_def rdn_def raw_def [symmetric] load_block_info_def Let_def
        info_wire_def be_ntohs_load16 be_ntohl_load32)
  ultimately show ?thesis using split18 [of raw] by (simp only: raw_def)
qed

lemma CopyBytesToNodeStatus_wire: "CopyBytesToNodeStatus n (node_wire m @ r) = Some (copy_node n m)"
proof -
  have "rdn (node_wire m @ r) 18 2 = Some (be_bytes 2 (unat (node_id m)))"
    "rdn (node_wire m @ r) 20 4 = Some (be_bytes 4 (unat (ipaddr m)))"
    "rdn (node_wire m @ r) 24 4 = Some (be_bytes 4 (unat (p_ipaddr m)))"
    "rdn (node_wire m @ r) 28 2 = Some (be_bytes 2 (unat (port m)))"
    by (simp_all add: rdn_def node_wire_def)
  moreover have "CopyBytesToBlockInfo n (node_wire m @ r) = Some (copy_info n m)"
    using CopyBytesToBlockInfo_wire by (simp add: node_wire_def)
  ultimately show ?thesis
    using ntohs_load16_be [of _ "[]"] ntohl_load32_be [of _ "[]"]
    by (simp add: CopyBytesToNodeStatus_def copy_node_def Let_def)
qed

lemma CopyBytesToNodeStatus_None: "CopyBytesToNodeStatus n bs = None \<longleftrightarrow> length bs < 30"
  using CopyBytesToBlockInfo_None [of n bs]
  by (auto simp: CopyBytesToNodeStatus_def rdn_def bind_eq_None_conv Let_def)

lemma split30: "30 \<le> length bs \<Longrightarrow> take 18 bs @ take 2 (drop 18 bs) @ take 4 (drop 20 bs)
    @ take 4 (drop 24 bs) @ take 2 (drop 28 bs) = take 30 bs"
proof -
  assume "30 \<le> length bs"
  have "take 30 bs = take 18 bs @ take 12 (drop 18 bs)" using take_add [of 18 12 bs] by simp
  moreover have "take 12 (drop 18 bs) = take 2 (drop 18 bs) @ take 10 (drop 20 bs)"
    using take_add [of 2 10 "drop 18 bs"] by simp
  moreover have "take 10 (drop 20 bs) = take 4 (drop 20 bs) @ take 6 (drop 24 bs)"
    using take_add [of 4 6 "drop 20 bs"] by simp
  moreover have "take 6 (drop 24 bs) = take 4 (drop 24 bs) @ take 2 (drop 28 bs)"
    using take_add [of 4 2 "drop 24 bs"] by simp
  ultimately show ?thesis by simp
qed

lemma node_wire_CopyBytes:
  assumes "CopyBytesToNodeStatus n bs = Some m"
  shows "node_wire m = take 30 bs"
proof -
  from assms have len: "30 \<le> length bs" using CopyBytesToNodeStatus_None [of n bs] by auto
  obtain j where j: "CopyBytesToBlockInfo n bs = Some j"
    using assms by (auto simp: CopyBytesToNodeStatus_def bind_eq_Some_conv)
  with assms len have "node_wire m = info_wire j @ take 2 (drop 18 bs) @ take 4 (drop 20 bs)
      @ take 4 (drop 24 bs) @ take 2 (drop 28 bs)"
    by (auto simp: CopyBytesToNodeStatus_def rdn_def Let_def node_wire_def info_wire_def
        be_ntohs_load16 be_ntohl_load32)
  then show ?thesis using info_wire_CopyBytes [OF j] split30 [OF len] by simp
qed

section \<open>The interface the messages rely on\<close>

text \<open>
  A fixed-width codec: \<open>put buf p x\<close> writes \<open>x\<close> at \<open>&buf[p]\<close>, \<open>get\<close> reads one from the front
  of a buffer.  Arrays of structures in a packet are read and written through these laws only.
\<close>

locale wire_codec =
  fixes put :: "bytes \<Rightarrow> nat \<Rightarrow> 'a \<Rightarrow> bytes option"
    and get :: "bytes \<Rightarrow> 'a option"
    and wire :: "'a \<Rightarrow> bytes"
    and width :: nat
  assumes put_wire: "put buf p x = wrn buf p (wire x)"
    and length_wire: "length (wire x) = width"
    and get_wire: "get (wire x @ r) = Some x"
    and get_short: "length bs < width \<Longrightarrow> get bs = None"
    and wire_get: "get bs = Some x \<Longrightarrow> wire x = take width bs"
begin

lemma wire_inject: "wire x = wire y \<Longrightarrow> x = y"
  using get_wire [of x "[]"] get_wire [of y "[]"] by simp

lemma get_length: "get bs = Some x \<Longrightarrow> width \<le> length bs"
  using get_short [of bs] by (cases "length bs < width") auto

lemma put_get:
  assumes "put buf p x = Some buf'" shows "get (drop p buf') = Some x"
proof -
  from assms have "buf' = take p buf @ wire x @ drop (p + width) buf" "p \<le> length buf"
    by (auto simp: put_wire wrn_def length_wire split: if_splits)
  then show ?thesis using get_wire by simp
qed

lemma put_length: "put buf p x = Some buf' \<Longrightarrow> length buf' = length buf"
  by (simp add: put_wire length_wrn)

lemma put_defined_iff: "(\<exists>buf'. put buf p x = Some buf') \<longleftrightarrow> p + width \<le> length buf"
  by (simp add: put_wire wrn_defined_iff length_wire)

lemma put_twice:
  assumes "q = p + width"
  shows "(do { b \<leftarrow> put buf p x; put b q y }) = wrn buf p (wire x @ wire y)"
  using assms by (simp add: put_wire wrn_append length_wire)

lemma length_array: "length (concat (map wire xs)) = width * length xs"
  by (induction xs) (simp_all add: length_wire)

text \<open>Element \<open>i\<close> of an array laid out from the start of a buffer.\<close>

lemma get_array: "i < length xs \<Longrightarrow> get (drop (width * i) (concat (map wire xs) @ r)) = Some (xs ! i)"
proof (induction xs arbitrary: i)
  case Nil
  then show ?case by simp
next
  case (Cons x xs)
  show ?case
  proof (cases i)
    case 0
    then show ?thesis using get_wire by simp
  next
    case (Suc j)
    then have "drop (width * i) (concat (map wire (x # xs)) @ r)
        = drop (width * j) (concat (map wire xs) @ r)"
      by (simp add: drop_append length_wire add_diff_cancel_left')
    then show ?thesis using Cons Suc by simp
  qed
qed

end

lemma copy_info_id: "copy_info i (j :: block_info) = j" for i :: block_info
  by (simp add: copy_info_def)

lemma copy_node_id: "copy_node i (j :: node_info) = j" for i :: node_info
  by (simp add: copy_node_def copy_info_def)

interpretation info_codec: wire_codec CopyBlockInfoToBytes "CopyBytesToBlockInfo i0" info_wire 18
  for i0 :: block_info
  by unfold_locales
    (simp_all add: CopyBlockInfoToBytes_wire CopyBytesToBlockInfo_wire CopyBytesToBlockInfo_None
      copy_info_id info_wire_CopyBytes)

interpretation node_codec: wire_codec CopyNodeStatusToBytes "CopyBytesToNodeStatus n0" node_wire 30
  for n0 :: node_info
  by unfold_locales
    (simp_all add: CopyNodeStatusToBytes_wire CopyBytesToNodeStatus_wire CopyBytesToNodeStatus_None
      copy_node_id node_wire_CopyBytes)

lemma CopyBlockInfoToBytes_defined:
  assumes "p + 18 \<le> length buf"
  obtains buf' where "CopyBlockInfoToBytes buf p i = Some buf'" "rdn buf' p 18 = Some (info_wire i)"
    "drop p buf' = info_wire i @ drop (p + 18) buf"
proof -
  have w: "wrn buf p (info_wire i) = Some (take p buf @ info_wire i @ drop (p + 18) buf)"
    using assms by (simp add: wrn_def)
  show thesis
    by (rule that [OF w [folded CopyBlockInfoToBytes_wire]])
      (use rdn_wrn_same [OF w] assms in simp_all)
qed

text \<open>
  C33: Where there is room for 18 bytes, \<^verbatim>\<open>CopyBlockInfoToBytes\<close> writes every field in network
  byte order, and \<^verbatim>\<open>CopyBytesToBlockInfo\<close> reads exactly the same block information back into any
  structure, leaving the fields that follow it alone.
\<close>

theorem BlockInfo_roundtrip:
  assumes "p + 18 \<le> length buf"
  shows "\<exists>buf'. CopyBlockInfoToBytes buf p i = Some buf' \<and>
      rdn buf' p 18 = Some (info_wire i) \<and>
      CopyBytesToBlockInfo i0 (drop p buf') = Some (copy_info i0 i)"
proof -
  obtain buf' where "CopyBlockInfoToBytes buf p i = Some buf'" "rdn buf' p 18 = Some (info_wire i)"
    "drop p buf' = info_wire i @ drop (p + 18) buf"
    using CopyBlockInfoToBytes_defined [OF assms] .
  then show ?thesis by (simp add: CopyBytesToBlockInfo_wire)
qed

theorem BlockInfo_roundtrip_witness:
  "\<exists>buf'. CopyBlockInfoToBytes (replicate 19 0) 1 (block_info0\<lparr>seq := 0x01020304\<rparr>) = Some buf' \<and>
      rdn buf' 1 18 = Some (info_wire (block_info0\<lparr>seq := 0x01020304\<rparr>)) \<and>
      CopyBytesToBlockInfo node_status0 (drop 1 buf') =
        Some (copy_info node_status0 (block_info0\<lparr>seq := 0x01020304\<rparr>))"
  by (rule BlockInfo_roundtrip) simp

text \<open>
  The received form determines the structure: the 30 bytes a \<^verbatim>\<open>NodeStatus\<close> was decoded from
  are the bytes \<^verbatim>\<open>CopyNodeStatusToBytes\<close> sends for it, wherever they land in a packet, so a
  status that is forwarded is forwarded unchanged.
\<close>

lemma NodeStatus_forward_unchanged:
  assumes "CopyBytesToNodeStatus n0 data = Some n" and "p + 30 \<le> length buf"
  shows "\<exists>buf'. CopyNodeStatusToBytes buf p n = Some buf' \<and> rdn buf' p 30 = rdn data 0 30"
proof -
  obtain buf' where buf': "CopyNodeStatusToBytes buf p n = Some buf'"
    using assms(2) wrn_defined_iff [of buf p "node_wire n"] by (auto simp: CopyNodeStatusToBytes_wire)
  then have "rdn buf' p 30 = Some (node_wire n)"
    using rdn_wrn_same [of buf p "node_wire n"] by (simp add: CopyNodeStatusToBytes_wire)
  moreover have "30 \<le> length data"
    using CopyBytesToNodeStatus_None [of n0 data] assms(1) by auto
  ultimately show ?thesis using buf' node_wire_CopyBytes [OF assms(1)] by (auto simp: rdn_def)
qed

end
