(* ===== verification/Block_Cut.thy ===== *)
theory Block_Cut
  imports Ebml Wire
begin

text \<open>
  Cutting a cluster into blocks: \<^verbatim>\<open>src/src/common/webm_parser.c\<close>, lines 287 to 379 and 446
  to 778.  A \<^verbatim>\<open>struct Block\<close> is its \<^verbatim>\<open>info\<close> and the \<^verbatim>\<open>info\<close> of its \<^verbatim>\<open>prev\<close>, the only parts the
  code reads; the two structures are allocated together and \<^verbatim>\<open>prev->prev\<close> is never followed.
\<close>

section \<open>The code\<close>

record Block =
  info :: block_info
  prev :: block_info

definition STATUS_PIECE :: u8 where [c_eval]: "STATUS_PIECE = 1"
definition STATUS_SIMPLEBLOCK :: u8 where [c_eval]: "STATUS_SIMPLEBLOCK = 2"
definition STATUS_BLOCK :: u8 where [c_eval]: "STATUS_BLOCK = 3"
definition STATUS_INIT :: u8 where [c_eval]: "STATUS_INIT = 5"

definition MAX_BLOCK_BYTES :: nat where [c_eval]: "MAX_BLOCK_BYTES = 1000"
definition CLUSTER_HEADER_BYTES :: nat where [c_eval]: "CLUSTER_HEADER_BYTES = 12"

definition CLUSTER_END :: int where [c_eval]: "CLUSTER_END = 2"
definition ONLY_TIMECODE :: int where [c_eval]: "ONLY_TIMECODE = 3"

definition InitBlock :: Block where
  "InitBlock = \<lparr>info = block_info0\<lparr>pos := of_nat CLUSTER_HEADER_BYTES\<rparr>,
     prev = block_info0\<lparr>status := STATUS_INIT, cluster_seq := 0\<rparr>\<rparr>"

definition ShiftToPreBlock :: "Block \<Rightarrow> Block" where
  "ShiftToPreBlock block = \<lparr>info = block_info0, prev = copy_info (prev block) (info block)\<rparr>"

definition RenewBlock :: "Block \<Rightarrow> Block" where
  "RenewBlock block =
     (let cs = cluster_seq (info block)
      in \<lparr>info = block_info0,
          prev = block_info0\<lparr>status := STATUS_INIT, cluster_seq := cs + 1,
            pos := of_nat CLUSTER_HEADER_BYTES\<rparr>\<rparr>)"

text \<open>
  The loop of \<^verbatim>\<open>GetChankByBytes\<close>.  It ends only by a \<^verbatim>\<open>break\<close>, so it is a partial function:
  \<open>None\<close> when it reads outside \<open>buf\<close> or never breaks.
\<close>

partial_function (option) chank_loop ::
    "bytes \<Rightarrow> u16 \<Rightarrow> u64 \<Rightarrow> u64 \<Rightarrow> int \<Rightarrow> (u64 \<times> int) option" where
  "chank_loop buf req current_position current_total_bytes st = do {
     c \<leftarrow> GetChank (drop (unat current_position) buf);
     if chank_id c = CLUSTER_ID then Some (current_total_bytes, CLUSTER_END)
     else if chank_id c = CUE_ID then Some (current_total_bytes, CLUSTER_END)
     else if (ucast req :: u64) < current_total_bytes + chank_bytes c
     then Some (current_total_bytes, st)
     else if chank_id c = TIMECODE_ID
     then chank_loop buf req (current_position + chank_bytes c)
            (current_total_bytes + chank_bytes c) ONLY_TIMECODE
     else if chank_id c = SIMPLEBLOCK_ID
     then chank_loop buf req (current_position + chank_bytes c)
            (current_total_bytes + chank_bytes c) 1
     else Some (current_total_bytes, st)
   }"

definition GetChankByBytes :: "Block \<Rightarrow> bytes \<Rightarrow> u16 \<Rightarrow> (Block \<times> int) option" where
  "GetChankByBytes block buf req = do {
     (current_total_bytes, st) \<leftarrow> chank_loop buf req 0 0 0;
     Some (block\<lparr>info := (info block)\<lparr>bytes := bytes (info block) + ucast current_total_bytes\<rparr>\<rparr>, st)
   }"

text \<open>
  \<^verbatim>\<open>(int)(ceil( x*1.0 / MAX_BLOCK_BYTES ))\<close>: the double arithmetic is exact for every \<open>x\<close> whose
  result fits an \<^verbatim>\<open>int\<close>; the conversion is undefined when it does not.
\<close>

definition ceil_pieces :: "u64 \<Rightarrow> u8 option" where
  "ceil_pieces x =
     (let n = (unat x + (MAX_BLOCK_BYTES - 1)) div MAX_BLOCK_BYTES
      in if n < 2 ^ 31 then Some (of_nat n) else None)"

definition AssignBlockInfoByPiece :: "Block \<Rightarrow> bytes \<Rightarrow> u16 \<Rightarrow> nat \<Rightarrow> Block option" where
  "AssignBlockInfoByPiece block buf req flag =
     (let i = (info block)\<lparr>status := STATUS_PIECE\<rparr>; p = prev block
      in if flag = 1 then do {
           next_chank \<leftarrow> GetChank buf;
           tp \<leftarrow> ceil_pieces (chank_bytes next_chank + ucast (bytes i));
           Some (block\<lparr>info := i\<lparr>total_pieces := tp, bytes := bytes i + req, piece_seq := 1,
             total_piece_bytes := total_piece_bytes i + ucast (chank_bytes next_chank)\<rparr>\<rparr>)
         }
         else if flag = 2 then
           Some (block\<lparr>info := i\<lparr>bytes := req, total_pieces := total_pieces p,
             piece_seq := piece_seq p + 1, total_piece_bytes := total_piece_bytes p\<rparr>\<rparr>)
         else if flag = 3 then
           Some (block\<lparr>info := i\<lparr>bytes := total_piece_bytes p - req * ucast (piece_seq p),
             total_pieces := total_pieces p, piece_seq := piece_seq p + 1,
             total_piece_bytes := total_piece_bytes p\<rparr>\<rparr>)
         else Some (block\<lparr>info := i\<rparr>))"

definition AssignBlockInfoBySB :: "block_info \<Rightarrow> block_info" where
  "AssignBlockInfoBySB i =
     i\<lparr>status := STATUS_SIMPLEBLOCK, total_piece_bytes := 0, total_pieces := 0, piece_seq := 0\<rparr>"

definition first_flag :: nat where [c_eval]: "first_flag = 1"
definition other_flag :: nat where [c_eval]: "other_flag = 2"
definition last_flag :: nat where [c_eval]: "last_flag = 3"

definition GetNextBlockByBytes :: "Block \<Rightarrow> u16 \<Rightarrow> bytes \<Rightarrow> (Block \<times> int) option" where
  "GetNextBlockByBytes block req block_head_ptr =
     (let p = prev block;
          block = block\<lparr>info := (info block)\<lparr>cluster_seq := cluster_seq p\<rparr>\<rparr>
      in if status p = STATUS_INIT then
           (let block = block\<lparr>info := (info block)\<lparr>seq := 1, pos := of_nat CLUSTER_HEADER_BYTES\<rparr>\<rparr>
            in do {
              (block, ret) \<leftarrow> GetChankByBytes block block_head_ptr req;
              if ret = 0 then do {
                block \<leftarrow> AssignBlockInfoByPiece block block_head_ptr req first_flag;
                Some (block, ret)
              } else if ret = ONLY_TIMECODE then do {
                timecode \<leftarrow> GetChank block_head_ptr;
                let block = block\<lparr>info := (info block)\<lparr>
                  total_piece_bytes := ucast (chank_bytes timecode),
                  bytes := ucast (chank_bytes timecode)\<rparr>\<rparr>;
                block \<leftarrow> AssignBlockInfoByPiece block
                  (drop (unat (bytes (info block))) block_head_ptr)
                  (req - bytes (info block)) first_flag;
                Some (block, ret)
              } else Some (block\<lparr>info := AssignBlockInfoBySB (info block)\<rparr>, ret)
            })
         else
           (let block = block\<lparr>info := (info block)\<lparr>seq := seq p + 1, pos := pos p + ucast (bytes p)\<rparr>\<rparr>
            in if status p = STATUS_PIECE then
                 if unat (total_pieces p) = unat (piece_seq p) + 1 then do {
                   block \<leftarrow> AssignBlockInfoByPiece block block_head_ptr req last_flag;
                   (block, ret) \<leftarrow> GetChankByBytes block
                     (drop (unat (bytes (info block))) block_head_ptr) (req - bytes (info block));
                   if ret > 0
                   then Some (block\<lparr>info := (info block)\<lparr>status := STATUS_BLOCK,
                                  bytes := bytes (info block) + 0\<rparr>\<rparr>, ret)
                   else Some (block, ret)
                 } else if total_pieces p = piece_seq p then do {
                   (block, ret) \<leftarrow> GetChankByBytes block block_head_ptr req;
                   if ret > 0 then Some (block\<lparr>info := AssignBlockInfoBySB (info block)\<rparr>, ret)
                   else do {
                     block \<leftarrow> AssignBlockInfoByPiece block block_head_ptr req first_flag;
                     Some (block, ret)
                   }
                 } else do {
                   block \<leftarrow> AssignBlockInfoByPiece block block_head_ptr req other_flag;
                   Some (block, 0)
                 }
               else do {
                 (block, ret) \<leftarrow> GetChankByBytes block block_head_ptr req;
                 if ret > 0 then Some (block\<lparr>info := AssignBlockInfoBySB (info block)\<rparr>, ret)
                 else do {
                   block \<leftarrow> AssignBlockInfoByPiece block block_head_ptr req first_flag;
                   Some (block, ret)
                 }
               }))"

section \<open>Taking whole chunks\<close>

lemma unat_u16_64: "unat (ucast (r :: u16) :: u64) = unat r"
  by (rule ucast_16_64)

lemma unat_add64: "unat a + unat b < 18446744073709551616 \<Longrightarrow> unat (a + b :: u64) = unat a + unat b"
  by (simp add: unat_word_ariths)

text \<open>Whatever the input, the bytes taken never exceed the request.\<close>

lemma chank_loop_bound:
  assumes "chank_loop buf req p t st = Some (t', st')" and "unat t \<le> unat req"
  shows "unat t' \<le> unat req"
proof -
  have "unat t \<le> unat req \<longrightarrow> unat (fst r) \<le> unat req"
    if "chank_loop buf req p t st = Some r" for r
  proof (rule chank_loop.raw_induct [where P = "\<lambda>buf req p t st r. unat t \<le> unat req \<longrightarrow> unat (fst r) \<le> unat req",
        OF _ that], goal_cases)
    case (1 f buf req p t st r)
    obtain a b where r: "r = (a, b)" by (cases r)
    show ?case using 1(2)
      by (auto simp: r bind_eq_Some_conv word_less_nat_alt unat_u16_64 not_less
          split: if_splits dest!: 1(1))
  qed
  with assms show ?thesis by fastforce
qed

text \<open>A stream whose chunk headers all have a size field of one to eight bytes.\<close>

definition sane_headers :: "bytes \<Rightarrow> nat \<Rightarrow> bool" where
  "sane_headers buf n \<longleftrightarrow> (\<forall>p \<le> n. \<forall>c. GetChank (drop p buf) = Some c \<longrightarrow>
     unat (data_header_position c) \<le> unat (id_bytes c) + 8)"

lemma GetChank_sane:
  assumes "sane_headers buf n" and "p \<le> n" and "GetChank (drop p buf) = Some c"
  shows "2 \<le> unat (chank_bytes c)" "unat (chank_bytes c) < 4611686018427387904"
proof -
  from assms have le: "unat (data_header_position c) \<le> unat (id_bytes c) + 8"
    by (auto simp: sane_headers_def)
  note w = GetChank_no_wrap [OF assms(3) le]
  then show "2 \<le> unat (chank_bytes c)" by simp
  from assms(3) obtain i s d t where st: "GetEBMLID (drop p buf) = Some (i, s)"
    "GetDataBytes (drop (unat s) (drop p buf)) = Some (d, t)"
    and c: "data_header_position c = s + t" "id_bytes c = s"
      "data_bytes c = (if d = 0xffffffffffffff then 0 else d)"
    by (rule GetChank_split) simp
  note b = GetEBMLID_size [OF st(1)] GetDataBytes_size [OF st(2)]
  then have hd: "unat (s + t) = unat s + unat t" by (simp add: unat_word_ariths)
  with le c b have "unat t \<le> 8" by simp
  with GetDataBytes_bound [OF st(2)] c(3) have "unat (data_bytes c) < 2 ^ 56" by auto
  with w b hd c(1) show "unat (chank_bytes c) < 4611686018427387904" by simp
qed

lemma chank_loop_total:
  assumes "sane_headers buf (unat req)" and "unat req + 18 \<le> length buf"
  shows "unat p \<le> unat req \<Longrightarrow> \<exists>t st'. chank_loop buf req p p st = Some (t, st')"
proof (induction "unat req - unat p" arbitrary: p st rule: less_induct)
  case less
  obtain c where c: "GetChank (drop (unat p) buf) = Some c"
    using GetChank_defined [of "drop (unat p) buf"] assms(2) less.prems by fastforce
  note cb = GetChank_sane [OF assms(1) less.prems c]
  have add: "unat (p + chank_bytes c) = unat p + unat (chank_bytes c)"
    using cb less.prems unat_u16_lt [of req] by (intro unat_add64) linarith
  show ?case
  proof (cases "(ucast req :: u64) < p + chank_bytes c")
    case True
    then show ?thesis by (subst chank_loop.simps) (simp add: c)
  next
    case False
    then have fits: "unat p + unat (chank_bytes c) \<le> unat req"
      by (simp add: word_less_nat_alt unat_u16_64 add not_less)
    then have "\<exists>t st'. chank_loop buf req (p + chank_bytes c) (p + chank_bytes c) s = Some (t, st')" for s
      using cb by (intro less.hyps) (simp_all add: add)
    with False show ?thesis by (subst chank_loop.simps) (simp add: c)
  qed
qed



text \<open>A chunk length that wraps to zero leaves the position where it was, for ever.\<close>

lemma chank_loop_stuck:
  assumes "GetChank (drop (unat p) buf) = Some c" "chank_bytes c = 0"
    "chank_id c = SIMPLEBLOCK_ID" "\<not> (ucast req :: u64) < t"
  shows "chank_loop buf req p t st = None"
proof (rule ccontr)
  assume "chank_loop buf req p t st \<noteq> None"
  then obtain r where r: "chank_loop buf req p t st = Some r" by auto
  have "\<not> (GetChank (drop (unat p) buf) = Some c \<and> \<not> (ucast req :: u64) < t)"
  proof (rule chank_loop.raw_induct [where P = "\<lambda>buf req p t st r.
        \<not> (GetChank (drop (unat p) buf) = Some c \<and> \<not> (ucast req :: u64) < t)", OF _ r], goal_cases)
    case (1 f buf req p t st r)
    obtain a b where r: "r = (a, b)" by (cases r)
    show ?case using 1(2) assms(2,3)
      by (auto simp: r SIMPLEBLOCK_ID_def CLUSTER_ID_def CUE_ID_def TIMECODE_ID_def
          split: if_splits dest!: 1(1))
  qed
  with assms show False by simp
qed

definition hang_chunk :: bytes where
  "hang_chunk = [0xa3, 0, 0xff, 0xff, 0xff, 0xff, 0xff, 0xff, 0xff, 0xf6]"

text \<open>
  C35: Without that condition the loop can hang: on a simple block whose nine-byte size field makes
  the chunk length wrap to zero, \<^verbatim>\<open>GetChankByBytes\<close> never returns, however long the buffer and
  whatever the request.
\<close>

theorem GetChankByBytes_hangs:
  "GetChankByBytes block (hang_chunk @ rest) req = None \<and> GetChank (hang_chunk @ rest) \<noteq> None"
proof -
  have 1: "GetEBMLID (hang_chunk @ rest) = Some (0xa3, 1)"
    using GetEBMLID_be_bytes [of 1 "0xa3" "tl hang_chunk @ rest"]
    by (simp add: id_ok_def hang_chunk_def be_bytes_def)
  have 2: "GetDataBytes (drop (unat (1 :: u16)) (hang_chunk @ rest)) = Some (0xfffffffffffffff6, 9)"
    by (simp add: hang_chunk_def GetDataBytes_def c_eval)
  have c: "GetChank (hang_chunk @ rest) = Some \<lparr>chank_id = SIMPLEBLOCK_ID, id_bytes = 1,
      data_header_position = 10, data_bytes = 0xfffffffffffffff6, chank_bytes = 0\<rparr>"
    using GetChank_unfold [OF 1 2] by (simp add: SIMPLEBLOCK_ID_def)
  have "chank_loop (hang_chunk @ rest) req 0 0 0 = None"
    by (rule chank_loop_stuck [where p = 0, unfolded unat_0 drop_0, OF c]) simp_all
  with c show ?thesis by (simp add: GetChankByBytes_def)
qed

section \<open>The greedy cut of a media stream\<close>

text \<open>The chunks a cluster holds, as an encoder writes them: a size field of \<open>n\<close> bytes and the data.\<close>

datatype media = Timecode nat bytes | SimpleBlock nat bytes

fun media_enc :: "media \<Rightarrow> bytes" where
  "media_enc (Timecode n d) = 0xe7 # vint n (length d) @ d"
| "media_enc (SimpleBlock n d) = 0xa3 # vint n (length d) @ d"

fun media_ok :: "media \<Rightarrow> bool" where
  "media_ok (Timecode n d) \<longleftrightarrow> vint_ok n (length d) \<and> length d < 2 ^ 56 - 1"
| "media_ok (SimpleBlock n d) \<longleftrightarrow> vint_ok n (length d) \<and> length d < 2 ^ 56 - 1"

fun media_id :: "media \<Rightarrow> u32" where
  "media_id (Timecode n d) = TIMECODE_ID"
| "media_id (SimpleBlock n d) = SIMPLEBLOCK_ID"

fun media_status :: "media \<Rightarrow> int" where
  "media_status (Timecode n d) = ONLY_TIMECODE"
| "media_status (SimpleBlock n d) = 1"

definition media_stream :: "media list \<Rightarrow> bytes" where
  "media_stream ms = concat (map media_enc ms)"

lemma be_bytes_1: "be_bytes (Suc 0) v = [of_nat v]"
  by (simp add: be_bytes_def)

lemma GetChank_media:
  assumes "media_ok m"
  shows "\<exists>h. GetChank (media_enc m @ r) = Some h \<and> chank_id h = media_id m
           \<and> chank_bytes h = of_nat (length (media_enc m))"
proof (cases m)
  case (Timecode n d)
  with assms GetChank_enc [of 1 "0xe7" n "length d" "d @ r"] show ?thesis
    by (auto simp: id_ok_def be_bytes_1 TIMECODE_ID_def Let_def)
next
  case (SimpleBlock n d)
  with assms GetChank_enc [of 1 "0xa3" n "length d" "d @ r"] show ?thesis
    by (auto simp: id_ok_def be_bytes_1 SIMPLEBLOCK_ID_def Let_def)
qed

text \<open>The chunk that ends the cut: a cluster or cues, one that does not fit, or an unknown one.\<close>

definition stops :: "u16 \<Rightarrow> nat \<Rightarrow> Chank \<Rightarrow> bool" where
  "stops req t h \<longleftrightarrow> chank_id h = CLUSTER_ID \<or> chank_id h = CUE_ID
     \<or> (ucast req :: u64) < of_nat t + chank_bytes h
     \<or> chank_id h \<noteq> TIMECODE_ID \<and> chank_id h \<noteq> SIMPLEBLOCK_ID"

definition cut_status :: "int \<Rightarrow> media list \<Rightarrow> Chank \<Rightarrow> int" where
  "cut_status st ms h =
     (if chank_id h = CLUSTER_ID \<or> chank_id h = CUE_ID then CLUSTER_END
      else if ms = [] then st else media_status (last ms))"

lemma chank_loop_media:
  assumes "list_all media_ok ms" and "GetChank tail = Some h"
    and "length pre + length (media_stream ms) \<le> unat req"
    and "stops req (length pre + length (media_stream ms)) h"
  shows "chank_loop (pre @ media_stream ms @ tail) req (of_nat (length pre)) (of_nat (length pre)) st
     = Some (of_nat (length pre + length (media_stream ms)), cut_status st ms h)"
  using assms
proof (induction ms arbitrary: pre st)
  case Nil
  then have "length pre < 65536" using unat_u16_lt [of req] by linarith
  then have "unat (of_nat (length pre) :: u64) = length pre" by (simp add: unat_of_nat)
  with Nil show ?case
    by (subst chank_loop.simps) (auto simp: media_stream_def stops_def cut_status_def)
next
  case (Cons m ms)
  let ?r = "media_stream ms @ tail"
  obtain hm where hm: "GetChank (media_enc m @ ?r) = Some hm" "chank_id hm = media_id m"
    "chank_bytes hm = of_nat (length (media_enc m))"
    using GetChank_media [of m ?r] Cons.prems(1) by auto
  have ms: "media_stream (m # ms) = media_enc m @ media_stream ms" by (simp add: media_stream_def)
  with Cons.prems(3) have le: "length (pre @ media_enc m) \<le> unat req" by simp
  have small: "length pre + length (media_enc m) < 65536" "length pre < 65536"
    using le unat_u16_lt [of req] unfolding length_append by linarith+
  have u: "unat (of_nat (length pre) :: u64) = length pre" using small by (simp add: unat_of_nat)
  have add: "of_nat (length pre) + chank_bytes hm = (of_nat (length (pre @ media_enc m)) :: u64)"
    by (simp add: hm)
  have fits: "\<not> (ucast req :: u64) < of_nat (length (pre @ media_enc m))"
    using le small by (simp add: word_less_nat_alt unat_u16_64 unat_of_nat not_less del: of_nat_add)
  have id: "chank_id hm \<noteq> CLUSTER_ID" "chank_id hm \<noteq> CUE_ID"
    "chank_id hm = TIMECODE_ID \<and> media_status m = ONLY_TIMECODE \<or>
     chank_id hm = SIMPLEBLOCK_ID \<and> chank_id hm \<noteq> TIMECODE_ID \<and> media_status m = 1"
    by (cases m; simp add: hm CLUSTER_ID_def CUE_ID_def TIMECODE_ID_def SIMPLEBLOCK_ID_def)+
  have IH: "chank_loop ((pre @ media_enc m) @ ?r) req (of_nat (length (pre @ media_enc m)))
       (of_nat (length (pre @ media_enc m))) s
     = Some (of_nat (length (pre @ media_enc m) + length (media_stream ms)), cut_status s ms h)" for s
    by (rule Cons.IH) (use Cons.prems ms in \<open>auto simp: ac_simps\<close>)
  have "chank_loop (pre @ media_stream (m # ms) @ tail) req (of_nat (length pre)) (of_nat (length pre)) st
     = chank_loop ((pre @ media_enc m) @ ?r) req (of_nat (length (pre @ media_enc m)))
       (of_nat (length (pre @ media_enc m))) (media_status m)"
    by (subst chank_loop.simps) (use id fits in \<open>auto simp: ms u hm(1) add simp del: of_nat_add\<close>)
  then show ?case unfolding IH by (auto simp: cut_status_def ms)
qed

text \<open>
  C36: \<^verbatim>\<open>GetChankByBytes\<close> takes whole chunks greedily: on a stream of timecodes and simple blocks
  that together fit the request, followed by a chunk that ends the cut, it adds exactly the bytes
  of those chunks and reports why it stopped.
\<close>

theorem GetChankByBytes_greedy:
  assumes "list_all media_ok ms" and "GetChank tail = Some h"
    and "length (media_stream ms) \<le> unat req" and "stops req (length (media_stream ms)) h"
  shows "GetChankByBytes block (media_stream ms @ tail) req =
     Some (block\<lparr>info := (info block)\<lparr>bytes := bytes (info block) + of_nat (length (media_stream ms))\<rparr>\<rparr>,
           cut_status 0 ms h)"
proof -
  have "(ucast (of_nat n :: u64) :: u16) = of_nat n" for n
    by (rule bit_word_eqI) (auto simp: bit_simps)
  with chank_loop_media [of ms tail h "[]" req 0] assms show ?thesis
    by (simp add: GetChankByBytes_def)
qed

theorem GetChankByBytes_greedy_witness:
  "GetChankByBytes InitBlock (media_stream [Timecode 1 [0], SimpleBlock 1 [1, 2]] @
       be_bytes 4 0x1f43b675 @ vint 8 5 @ []) 1000 =
     Some (InitBlock\<lparr>info := (info InitBlock)\<lparr>bytes := 7\<rparr>\<rparr>, CLUSTER_END)"
proof -
  have h: "GetChank (be_bytes 4 0x1f43b675 @ vint 8 5 @ []) = Some \<lparr>chank_id = CLUSTER_ID,
      id_bytes = 4, data_header_position = 12, data_bytes = 5, chank_bytes = 17\<rparr>"
    using GetChank_enc [of 4 "0x1f43b675" 8 5 "[]"]
    by (simp add: id_ok_def vint_ok_def CLUSTER_ID_def)
  show ?thesis
    using GetChankByBytes_greedy [OF _ h, of "[Timecode 1 [0], SimpleBlock 1 [1, 2]]" 1000 InitBlock]
    by (simp add: vint_ok_def media_stream_def stops_def cut_status_def InitBlock_def block_info0_def)
qed

section \<open>Chunks larger than a block\<close>

text \<open>
  Repeated cutting as the sending loops do it: read at the block's position, cut, shift.  The
  buffers read are given in turn.
\<close>

fun cut_run :: "Block \<Rightarrow> bytes list \<Rightarrow> block_info list option" where
  "cut_run b [] = Some []"
| "cut_run b (d # ds) = do {
     (b', ret) \<leftarrow> GetNextBlockByBytes b (of_nat MAX_BLOCK_BYTES) d;
     rest \<leftarrow> cut_run (ShiftToPreBlock b') ds;
     Some (info b' # rest)
   }"

definition pieces :: "nat \<Rightarrow> nat" where
  "pieces n = (n + 999) div 1000"

text \<open>Piece \<open>k\<close> (counted from 1) of a chunk of \<open>n\<close> bytes whose first piece is at \<open>p0\<close>, \<open>s0\<close>.\<close>

definition piece :: "u32 \<Rightarrow> u32 \<Rightarrow> u16 \<Rightarrow> nat \<Rightarrow> nat \<Rightarrow> block_info" where
  "piece p0 s0 cs n k = \<lparr>pos = p0 + of_nat (1000 * (k - 1)), seq = s0 + of_nat (k - 1),
     bytes = 1000, total_piece_bytes = of_nat n, cluster_seq = cs,
     total_pieces = of_nat (pieces n), piece_seq = of_nat k, status = STATUS_PIECE, layer = 0\<rparr>"

text \<open>The last piece, with the bytes of the whole chunks that follow it in the same block.\<close>

definition last_piece :: "u32 \<Rightarrow> u32 \<Rightarrow> u16 \<Rightarrow> nat \<Rightarrow> u64 \<Rightarrow> int \<Rightarrow> block_info" where
  "last_piece p0 s0 cs n t ret = (piece p0 s0 cs n (pieces n))\<lparr>
     bytes := of_nat (n - 1000 * (pieces n - 1)) + ucast t,
     status := (if ret > 0 then STATUS_BLOCK else STATUS_PIECE)\<rparr>"

lemma pieces_bounds:
  assumes "1000 < n" and "n \<le> 255000"
  shows "2 \<le> pieces n" "pieces n \<le> 255" "1000 * (pieces n - 1) < n" "n \<le> 1000 * pieces n"
  using assms by (auto simp: pieces_def)

lemma copy_info0: "copy_info i (j :: block_info) = j" for i :: block_info
  by (rule copy_info_id)

lemma first_piece:
  assumes "GetChank buf = Some c" and "chank_id c \<noteq> CLUSTER_ID" "chank_id c \<noteq> CUE_ID"
    and n: "unat (chank_bytes c) = n" "1000 < n" "n \<le> 255000"
    and "status p \<noteq> STATUS_PIECE" "status p \<noteq> STATUS_INIT"
  shows "GetNextBlockByBytes \<lparr>info = block_info0, prev = p\<rparr> (of_nat MAX_BLOCK_BYTES) buf =
     Some (\<lparr>info = piece (pos p + ucast (bytes p)) (seq p + 1) (cluster_seq p) n 1, prev = p\<rparr>, 0)"
proof -
  have "(ucast (1000 :: u16) :: u64) < chank_bytes c" using n by (simp add: word_less_nat_alt)
  then have l: "chank_loop buf 1000 0 0 0 = Some (0, 0)"
    using assms(1-3) by (subst chank_loop.simps) simp
  have "ceil_pieces (chank_bytes c) = Some (of_nat (pieces n))"
    using pieces_bounds [OF n(2,3)] by (simp add: ceil_pieces_def MAX_BLOCK_BYTES_def n(1) pieces_def)
  moreover have "(ucast (chank_bytes c) :: u16) = of_nat n"
    using n(1) by (auto simp: word_unat_eq_iff ucast_64_16 unat_of_nat)
  ultimately show ?thesis using assms l
    by (simp add: GetNextBlockByBytes_def GetChankByBytes_def AssignBlockInfoByPiece_def
        MAX_BLOCK_BYTES_def first_flag_def block_info0_def piece_def Let_def)
qed

lemma piece_count:
  assumes "1000 < n" "n \<le> 255000" "k < pieces n"
  shows "unat (of_nat k :: u8) = k" "unat (of_nat (pieces n) :: u8) = pieces n"
  using pieces_bounds [OF assms(1,2)] assms(3) by (simp_all add: unat_of_nat)

lemma piece_Suc:
  assumes "1 \<le> k"
  shows "piece p0 s0 cs n (Suc k) = (piece p0 s0 cs n k)\<lparr>pos := pos (piece p0 s0 cs n k) + 1000,
     seq := seq (piece p0 s0 cs n k) + 1, piece_seq := piece_seq (piece p0 s0 cs n k) + 1\<rparr>"
  using assms by (cases k) (simp_all add: piece_def algebra_simps)

text \<open>The two cuts that follow a piece, in terms of the previous block's information only.\<close>

lemma GetNext_other:
  assumes "status p = STATUS_PIECE" and "unat (total_pieces p) \<noteq> unat (piece_seq p) + 1"
    and "total_pieces p \<noteq> piece_seq p"
  shows "GetNextBlockByBytes \<lparr>info = block_info0, prev = p\<rparr> req buf =
     Some (\<lparr>info = p\<lparr>pos := pos p + ucast (bytes p), seq := seq p + 1, bytes := req,
       piece_seq := piece_seq p + 1, layer := 0\<rparr>, prev = p\<rparr>, 0)"
  using assms by (cases p)
    (simp add: GetNextBlockByBytes_def AssignBlockInfoByPiece_def STATUS_PIECE_def
      STATUS_INIT_def other_flag_def block_info0_def Let_def)

lemma GetNext_last:
  assumes "status p = STATUS_PIECE" and "unat (total_pieces p) = unat (piece_seq p) + 1"
    and r: "r = total_piece_bytes p - req * ucast (piece_seq p)"
    and l: "chank_loop (drop (unat r) buf) (req - r) 0 0 0 = Some (t, ret)"
  shows "\<exists>b'. GetNextBlockByBytes \<lparr>info = block_info0, prev = p\<rparr> req buf = Some (b', ret) \<and>
     info b' = p\<lparr>pos := pos p + ucast (bytes p), seq := seq p + 1, bytes := r + ucast t,
       piece_seq := piece_seq p + 1, layer := 0,
       status := (if ret > 0 then STATUS_BLOCK else STATUS_PIECE)\<rparr>"
  using assms by (cases p)
    (simp add: GetNextBlockByBytes_def GetChankByBytes_def AssignBlockInfoByPiece_def
      STATUS_PIECE_def STATUS_INIT_def last_flag_def block_info0_def Let_def)

lemma piece_sel [simp]:
  "status (piece p0 s0 cs n k) = STATUS_PIECE" "bytes (piece p0 s0 cs n k) = 1000"
  "total_pieces (piece p0 s0 cs n k) = of_nat (pieces n)" "piece_seq (piece p0 s0 cs n k) = of_nat k"
  "total_piece_bytes (piece p0 s0 cs n k) = of_nat n" "layer (piece p0 s0 cs n k) = 0"
  by (simp_all add: piece_def)

lemma other_piece:
  assumes n: "1000 < n" "n \<le> 255000" and k: "1 \<le> k" "Suc k < pieces n"
  shows "GetNextBlockByBytes \<lparr>info = block_info0, prev = piece p0 s0 cs n k\<rparr> (of_nat MAX_BLOCK_BYTES) buf =
     Some (\<lparr>info = piece p0 s0 cs n (Suc k), prev = piece p0 s0 cs n k\<rparr>, 0)"
proof -
  have "k < pieces n" using k by simp
  note u = piece_count [OF n this]
  then have "(of_nat (pieces n) :: u8) \<noteq> of_nat k" using k by (metis Suc_lessD nat_neq_iff)
  with u k GetNext_other [of "piece p0 s0 cs n k" 1000 buf] show ?thesis
    by (simp add: MAX_BLOCK_BYTES_def piece_Suc)
qed

lemma layer0_update:
  "layer p = 0 \<Longrightarrow> p\<lparr>pos := a, seq := b, bytes := c, piece_seq := d, layer := 0, status := e\<rparr> =
     (p\<lparr>pos := a, seq := b, piece_seq := d\<rparr>)\<lparr>bytes := c, status := e\<rparr>"
  for p :: block_info
  by (cases p) simp

lemma final_piece:
  assumes n: "1000 < n" "n \<le> 255000" and k: "1 \<le> k" "Suc k = pieces n"
    and l: "chank_loop (drop (n - 1000 * k) buf) (of_nat (1000 * Suc k - n)) 0 0 0 = Some (t, ret)"
  shows "\<exists>b'. GetNextBlockByBytes \<lparr>info = block_info0, prev = piece p0 s0 cs n k\<rparr> (of_nat MAX_BLOCK_BYTES) buf =
     Some (b', ret) \<and> info b' = last_piece p0 s0 cs n t ret"
proof -
  have "k < pieces n" using k by simp
  note u = piece_count [OF n this]
  note b = pieces_bounds [OF n]
  define r where "r = n - 1000 * k"
  have r: "0 < r" "r \<le> 1000" "n = 1000 * k + r" "1000 * Suc k - n = 1000 - r"
    using b k by (auto simp: r_def)
  have "(ucast (of_nat k :: u8) :: u16) = of_nat k" using u(1) by (metis of_nat_unat)
  then have 1: "of_nat r = total_piece_bytes (piece p0 s0 cs n k)
      - 1000 * ucast (piece_seq (piece p0 s0 cs n k))" by (simp add: r(3))
  have 2: "unat (of_nat r :: u16) = r" "(1000 - of_nat r :: u16) = of_nat (1000 - r)"
    using r by (simp_all add: unat_of_nat)
  define P where "P = piece p0 s0 cs n k"
  have P: "status P = STATUS_PIECE" "unat (total_pieces P) = unat (piece_seq P) + 1"
    "layer P = 0" "bytes P = 1000"
    using u k by (simp_all add: P_def)
  obtain b' where b': "GetNextBlockByBytes \<lparr>info = block_info0, prev = P\<rparr> 1000 buf = Some (b', ret)"
    "info b' = P\<lparr>pos := pos P + ucast (bytes P), seq := seq P + 1, bytes := of_nat r + ucast t,
       piece_seq := piece_seq P + 1, layer := 0,
       status := (if ret > 0 then STATUS_BLOCK else STATUS_PIECE)\<rparr>"
    using GetNext_last [OF P(1,2) 1 [folded P_def], of buf t ret] l
    by (auto simp only: 2 r(4) r_def [symmetric])
  have c: "(ucast (bytes P) :: u32) = 1000" by (simp add: P(4))
  have "info b' = (piece p0 s0 cs n (Suc k))\<lparr>bytes := of_nat r + ucast t,
      status := (if ret > 0 then STATUS_BLOCK else STATUS_PIECE)\<rparr>"
    unfolding b'(2) layer0_update [OF P(3)] c by (simp only: piece_Suc [OF k(1)] P_def)
  moreover have "n - 1000 * (pieces n - 1) = r" using k r by simp
  ultimately have "info b' = last_piece p0 s0 cs n t ret"
    by (simp only: last_piece_def k(2) [symmetric] diff_Suc_1)
  with b'(1) show ?thesis by (auto simp: MAX_BLOCK_BYTES_def P_def)
qed

lemma cut_run_pieces:
  assumes n: "1000 < n" "n \<le> 255000" and "1 \<le> k" "k + Suc (length bufs) = pieces n"
    and l: "chank_loop (drop (n - 1000 * (pieces n - 1)) bufl) (of_nat (1000 * pieces n - n)) 0 0 0
      = Some (t, ret)"
  shows "cut_run \<lparr>info = block_info0, prev = piece p0 s0 cs n k\<rparr> (bufs @ [bufl]) =
     Some (map (piece p0 s0 cs n) [Suc k..<pieces n] @ [last_piece p0 s0 cs n t ret])"
  using assms(3,4)
proof (induction bufs arbitrary: k)
  case Nil
  then have k: "Suc k = pieces n" by simp
  with l have "chank_loop (drop (n - 1000 * k) bufl) (of_nat (1000 * Suc k - n)) 0 0 0 = Some (t, ret)"
    by (metis diff_Suc_1)
  then obtain b' where "GetNextBlockByBytes \<lparr>info = block_info0, prev = piece p0 s0 cs n k\<rparr>
      (of_nat MAX_BLOCK_BYTES) bufl = Some (b', ret)" "info b' = last_piece p0 s0 cs n t ret"
    using final_piece [OF n Nil.prems(1) k] by blast
  with k show ?case by simp
next
  case (Cons d ds)
  then have k: "Suc k < pieces n" by simp
  have sh: "ShiftToPreBlock \<lparr>info = i, prev = p\<rparr> = \<lparr>info = block_info0, prev = i\<rparr>" for i p
    by (simp add: ShiftToPreBlock_def copy_info_id)
  have "cut_run \<lparr>info = block_info0, prev = piece p0 s0 cs n (Suc k)\<rparr> (ds @ [bufl]) =
     Some (map (piece p0 s0 cs n) [Suc (Suc k)..<pieces n] @ [last_piece p0 s0 cs n t ret])"
    using Cons.prems by (intro Cons.IH) auto
  moreover have "[Suc k..<pieces n] = Suc k # [Suc (Suc k)..<pieces n]" using k by (simp add: upt_conv_Cons)
  ultimately show ?case
    by (simp add: other_piece [OF n Cons.prems(1) k] sh)
qed

lemma sum_map_const_piece:
  "sum_list (map (\<lambda>k. unat (bytes (piece p0 s0 cs n k))) [Suc 0..<m]) = 1000 * (m - 1)"
  by (simp add: sum_list_triv)

lemma pieces_sum:
  assumes "1000 < n" and "n \<le> 255000" and "unat t \<le> 1000 * pieces n - n"
  shows "sum_list (map (\<lambda>i. unat (bytes i))
     (map (piece p0 s0 cs n) [1..<pieces n] @ [last_piece p0 s0 cs n t ret])) = n + unat t"
proof -
  define r where "r = n - 1000 * (pieces n - Suc 0)"
  have r: "r \<le> 1000" "n = 1000 * (pieces n - 1) + r"
    using pieces_bounds [OF assms(1,2)] by (auto simp: r_def)
  have "1 \<le> pieces n" using assms(1) by (simp add: pieces_def)
  with r have k: "1000 * pieces n = n + (1000 - r)" by (cases "pieces n") auto
  with assms(3) r(1) have rt: "r + unat t \<le> 1000" by simp
  then have "unat (of_nat r :: u16) = r" "unat (ucast t :: u16) = unat t"
    by (simp_all add: unat_of_nat ucast_64_16)
  with rt have "unat (bytes (last_piece p0 s0 cs n t ret)) = r + unat t"
    by (simp add: last_piece_def r_def [symmetric] unat_word_ariths del: of_nat_diff)
  then show ?thesis using r(2)
    by (simp add: comp_def sum_map_const_piece del: piece_sel(2))
qed

lemma cut_run_large:
  assumes "GetChank buf = Some c" and "chank_id c = SIMPLEBLOCK_ID"
    and n: "unat (chank_bytes c) = n" "1000 < n" "n \<le> 255000"
    and "status p = STATUS_SIMPLEBLOCK \<or> status p = STATUS_BLOCK"
    and "Suc (Suc (length bufs)) = pieces n"
    and "chank_loop (drop (n - 1000 * (pieces n - 1)) bufl) (of_nat (1000 * pieces n - n)) 0 0 0
      = Some (t, ret)"
  shows "cut_run \<lparr>info = block_info0, prev = p\<rparr> (buf # bufs @ [bufl]) =
     Some (map (piece (pos p + ucast (bytes p)) (seq p + 1) (cluster_seq p) n) [1..<pieces n]
       @ [last_piece (pos p + ucast (bytes p)) (seq p + 1) (cluster_seq p) n t ret])"
proof -
  have sh: "ShiftToPreBlock \<lparr>info = i, prev = p\<rparr> = \<lparr>info = block_info0, prev = i\<rparr>" for i p
    by (simp add: ShiftToPreBlock_def copy_info_id)
  have "[1..<pieces n] = 1 # [Suc 1..<pieces n]"
    using pieces_bounds [OF n(2,3)] by (simp add: upt_conv_Cons)
  moreover have "cut_run \<lparr>info = block_info0,
      prev = piece (pos p + ucast (bytes p)) (seq p + 1) (cluster_seq p) n 1\<rparr> (bufs @ [bufl]) =
     Some (map (piece (pos p + ucast (bytes p)) (seq p + 1) (cluster_seq p) n) [Suc 1..<pieces n]
       @ [last_piece (pos p + ucast (bytes p)) (seq p + 1) (cluster_seq p) n t ret])"
    using assms(7,8) by (intro cut_run_pieces [OF n(2,3)]) auto
  moreover have "status p \<noteq> STATUS_PIECE" "status p \<noteq> STATUS_INIT" "chank_id c \<noteq> CLUSTER_ID"
    "chank_id c \<noteq> CUE_ID"
    using assms(2,6) by (auto simp: c_eval)
  ultimately show ?thesis using assms(1) n by (simp add: first_piece sh)
qed

text \<open>
  C37: A chunk of 1001 to 255000 bytes is cut into \<open>pieces n = \<lceil>n / 1000\<rceil>\<close> consecutive
  blocks: every one but the last holds 1000 bytes, they are numbered from 1, their positions and
  sequence numbers follow each other, all carry the number of pieces, and the last holds the
  remaining bytes and then the \<open>t\<close> bytes of whole chunks that still fit, so that the blocks hold
  \<open>n + t\<close> bytes together.  The 16-bit byte counts wrap above 65535 and the result is right all
  the same.
\<close>

theorem large_chunk_pieces:
  assumes "GetChank buf = Some c" and "chank_id c = SIMPLEBLOCK_ID"
    and n: "unat (chank_bytes c) = n" "1000 < n" "n \<le> 255000"
    and "status p = STATUS_SIMPLEBLOCK \<or> status p = STATUS_BLOCK"
    and "Suc (Suc (length bufs)) = pieces n"
    and "chank_loop (drop (n - 1000 * (pieces n - 1)) bufl) (of_nat (1000 * pieces n - n)) 0 0 0
      = Some (t, ret)"
  shows "\<exists>bs. cut_run \<lparr>info = block_info0, prev = p\<rparr> (buf # bufs @ [bufl]) = Some bs \<and>
     bs = map (piece (pos p + ucast (bytes p)) (seq p + 1) (cluster_seq p) n) [1..<pieces n]
       @ [last_piece (pos p + ucast (bytes p)) (seq p + 1) (cluster_seq p) n t ret] \<and>
     sum_list (map (\<lambda>i. unat (bytes i)) bs) = n + unat t"
proof -
  have "n \<le> 1000 * pieces n" "1000 * pieces n - n < 65536"
    using pieces_bounds [OF n(2,3)] by (auto simp: pieces_def)
  with chank_loop_bound [OF assms(8)] have "unat t \<le> 1000 * pieces n - n"
    by (simp add: unat_of_nat del: of_nat_diff of_nat_mult)
  from pieces_sum [OF n(2,3) this] cut_run_large [OF assms] show ?thesis by blast
qed

theorem large_chunk_pieces_witness:
  "cut_run \<lparr>info = block_info0, prev = block_info0\<lparr>status := STATUS_SIMPLEBLOCK, seq := 4\<rparr>\<rparr>
     [media_enc (SimpleBlock 2 (replicate 1497 0)),
      replicate 500 0 @ be_bytes 4 0x1f43b675 @ vint 8 5] =
   Some [piece 0 5 0 1500 1, last_piece 0 5 0 1500 0 CLUSTER_END] \<and>
   unat (bytes (piece 0 5 0 1500 1)) + unat (bytes (last_piece 0 5 0 1500 0 CLUSTER_END)) = 1500"
proof -
  obtain c where c: "GetChank (media_enc (SimpleBlock 2 (replicate 1497 0))) = Some c"
    "chank_id c = SIMPLEBLOCK_ID" "chank_bytes c = 1500"
    using GetChank_media [of "SimpleBlock 2 (replicate 1497 0)" "[]"] by (auto simp: vint_ok_def)
  obtain h where h: "GetChank (be_bytes 4 0x1f43b675 @ vint 8 5) = Some h" "chank_id h = CLUSTER_ID"
    using GetChank_enc [of 4 "0x1f43b675" 8 5 "[]"]
    by (auto simp: id_ok_def vint_ok_def CLUSTER_ID_def)
  have l: "chank_loop (drop (1500 - 1000 * (pieces 1500 - 1)) (replicate 500 0 @ be_bytes 4 0x1f43b675 @ vint 8 5))
      (of_nat (1000 * pieces 1500 - 1500)) 0 0 0 = Some (0, CLUSTER_END)"
    by (subst chank_loop.simps) (simp add: pieces_def h)
  have "[1..<pieces 1500] = [1]" by (simp add: pieces_def upt_conv_Cons)
  then show ?thesis
    using large_chunk_pieces [OF c(1,2), of 1500 "block_info0\<lparr>status := STATUS_SIMPLEBLOCK, seq := 4\<rparr>" "[]",
      OF _ _ _ _ _ l] c(3)
    by (simp add: pieces_def block_info0_def)
qed

section \<open>No block outgrows its packet\<close>

text \<open>
  What the cutter relies on in the previous block: inside a sequence of pieces the counter has not
  passed the number of pieces, and the last one will hold at most 1000 bytes.
\<close>

definition cut_ok :: "block_info \<Rightarrow> bool" where
  "cut_ok p \<longleftrightarrow> (status p = STATUS_PIECE \<longrightarrow> unat (piece_seq p) \<le> unat (total_pieces p) \<and>
     unat (total_piece_bytes p - 1000 * ucast (total_pieces p - 1)) \<le> 1000)"

definition sizes_ok :: "bytes \<Rightarrow> bool" where
  "sizes_ok buf \<longleftrightarrow> (\<forall>q \<le> 1000. \<forall>c. GetChank (drop q buf) = Some c \<longrightarrow>
     1 \<le> unat (chank_bytes c) \<and> unat (chank_bytes c) \<le> 254000)"

lemma GetChankByBytes_D:
  assumes "GetChankByBytes b buf req = Some (b', ret)"
  obtains t where "b' = b\<lparr>info := (info b)\<lparr>bytes := bytes (info b) + t\<rparr>\<rparr>" "unat t \<le> unat req"
proof -
  from assms obtain t where t: "chank_loop buf req 0 0 0 = Some (t, ret)"
    "b' = b\<lparr>info := (info b)\<lparr>bytes := bytes (info b) + ucast t\<rparr>\<rparr>"
    by (auto simp: GetChankByBytes_def bind_eq_Some_conv)
  have "unat t \<le> unat req" using chank_loop_bound [OF t(1)] by simp
  moreover from this have "unat (ucast t :: u16) = unat t"
    using le_less_trans [OF _ unat_u16_lt] by (simp add: ucast_64_16)
  ultimately show thesis using t(2) by (intro that) auto
qed

lemma first_flag_ok:
  assumes "AssignBlockInfoByPiece b buf req first_flag = Some b'"
    and "\<And>c. GetChank buf = Some c \<Longrightarrow> 1 \<le> unat (chank_bytes c) \<and> unat (chank_bytes c) \<le> 254000"
    and "unat (bytes (info b)) \<le> 1000" and "total_piece_bytes (info b) = bytes (info b)"
  shows "cut_ok (info b')" "bytes (info b') = bytes (info b) + req"
proof -
  from assms(1) obtain c tp where c: "GetChank buf = Some c"
    and tp: "ceil_pieces (chank_bytes c + ucast (bytes (info b))) = Some tp"
    and b': "info b' = (info b)\<lparr>status := STATUS_PIECE, total_pieces := tp,
       bytes := bytes (info b) + req, piece_seq := 1,
       total_piece_bytes := total_piece_bytes (info b) + ucast (chank_bytes c)\<rparr>"
    by (auto simp: AssignBlockInfoByPiece_def first_flag_def Let_def bind_eq_Some_conv)
  from b' show "bytes (info b') = bytes (info b) + req" by simp
  define n where "n = unat (chank_bytes c) + unat (bytes (info b))"
  have n: "1 \<le> n" "n \<le> 255000" using assms(2) [OF c] assms(3) by (auto simp: n_def)
  have "unat (chank_bytes c + ucast (bytes (info b))) = n"
    using n by (simp add: n_def unat_word_ariths unat_u16_64)
  with tp have tp': "tp = of_nat (pieces n)"
    by (auto simp: ceil_pieces_def MAX_BLOCK_BYTES_def pieces_def Let_def split: if_splits)
  have "(ucast (chank_bytes c) :: u16) = of_nat (unat (chank_bytes c))"
    by (metis of_nat_unat)
  then have tpb: "total_piece_bytes (info b') = of_nat n"
    by (simp add: b' assms(4) n_def)
  have "pieces n \<le> 255" using n by (simp add: pieces_def)
  then have ut: "unat tp = pieces n" by (simp add: tp' unat_of_nat)
  define k where "k = pieces n - 1"
  have k: "pieces n = Suc k" using n by (simp add: k_def pieces_def)
  then have "tp - 1 = of_nat k" by (simp add: tp')
  moreover have "unat (of_nat k :: u8) = k" using k \<open>pieces n \<le> 255\<close> by (simp add: unat_of_nat)
  ultimately have "(ucast (tp - 1) :: u16) = of_nat k" by (metis of_nat_unat)
  moreover obtain r where r: "n = 1000 * k + r" "r \<le> 1000"
  proof (rule that [of "n - 1000 * k"])
    show "n = 1000 * k + (n - 1000 * k)" "n - 1000 * k \<le> 1000"
      using k n by (auto simp: pieces_def)
  qed
  ultimately have "of_nat n - 1000 * ucast (total_pieces (info b') - 1) = (of_nat r :: u16)"
    by (simp add: b')
  with tpb have "total_piece_bytes (info b') - 1000 * ucast (total_pieces (info b') - 1) = of_nat r"
    by simp
  then show "cut_ok (info b')" using r k ut by (simp add: cut_ok_def unat_of_nat) (simp add: b')
qed

lemma cut_ok_not_piece: "status i \<noteq> STATUS_PIECE \<Longrightarrow> cut_ok i"
  by (simp add: cut_ok_def)

lemma SB_ok: "cut_ok (AssignBlockInfoBySB i)" "bytes (AssignBlockInfoBySB i) = bytes i"
  by (simp_all add: cut_ok_def AssignBlockInfoBySB_def STATUS_SIMPLEBLOCK_def STATUS_PIECE_def)

lemma take_or_piece_ok:
  assumes g: "GetChankByBytes b buf 1000 = Some (b1, ret)" and sz: "sizes_ok buf"
    and b: "bytes (info b) = 0" "total_piece_bytes (info b) = 0"
    and fin: "b' = b1\<lparr>info := AssignBlockInfoBySB (info b1)\<rparr> \<or>
      ret \<le> 0 \<and> AssignBlockInfoByPiece b1 buf 1000 first_flag = Some b'"
    and ret: "ret \<le> 0 \<Longrightarrow> bytes (info b1) = 0"
  shows "unat (bytes (info b')) \<le> 1000 \<and> cut_ok (info b')"
proof -
  from g obtain t where t: "b1 = b\<lparr>info := (info b)\<lparr>bytes := t\<rparr>\<rparr>" "unat t \<le> 1000"
    by (rule GetChankByBytes_D) (simp add: b)
  have "1 \<le> unat (chank_bytes c) \<and> unat (chank_bytes c) \<le> 254000" if "GetChank buf = Some c" for c
    using sz that by (auto simp: sizes_ok_def dest: spec [of _ 0])
  then show ?thesis using fin t ret first_flag_ok [of b1 buf 1000 b'] b
    by (auto simp: SB_ok)
qed

text \<open>A return value of zero means that no chunk was taken.\<close>

lemma chank_loop_ret_pos:
  assumes "chank_loop buf req p t st = Some (t', st')" and "0 < st"
  shows "0 < st'"
proof -
  have "0 < st \<longrightarrow> 0 < snd r" if "chank_loop buf req p t st = Some r" for r
  proof (rule chank_loop.raw_induct [where P = "\<lambda>buf req p t st r. 0 < st \<longrightarrow> 0 < snd r",
        OF _ that], goal_cases)
    case (1 f buf req p t st r)
    obtain a b where r: "r = (a, b)" by (cases r)
    show ?case using 1(2)
      by (auto simp: r bind_eq_Some_conv CLUSTER_END_def ONLY_TIMECODE_def
          split: if_splits dest!: 1(1))
  qed
  with assms show ?thesis by fastforce
qed

lemma chank_loop_ret_zero:
  assumes "chank_loop buf req 0 0 0 = Some (t, st)" and "st \<le> 0"
  shows "t = 0 \<and> st = 0"
proof (rule ccontr)
  assume "\<not> (t = 0 \<and> st = 0)"
  moreover obtain c where "GetChank buf = Some c"
    using assms(1) by (subst (asm) chank_loop.simps) (auto simp: bind_eq_Some_conv)
  ultimately show False using assms chank_loop_ret_pos [of buf req "chank_bytes c" "chank_bytes c" 3 t st]
      chank_loop_ret_pos [of buf req "chank_bytes c" "chank_bytes c" 1 t st]
    by (subst (asm) chank_loop.simps)
      (auto simp: CLUSTER_END_def ONLY_TIMECODE_def split: if_splits)
qed

lemma GetChankByBytes_ret_zero:
  assumes "GetChankByBytes b buf req = Some (b', ret)" and "ret \<le> 0"
  shows "b' = b \<and> ret = 0"
  using assms chank_loop_ret_zero [of buf req _ ret]
  by (auto simp: GetChankByBytes_def bind_eq_Some_conv)

lemma chank_loop_first_fits:
  assumes "chank_loop buf req 0 0 0 = Some (t, st)" and "st = ONLY_TIMECODE"
    and "GetChank buf = Some c"
  shows "unat (chank_bytes c) \<le> unat req"
  using assms by (subst (asm) chank_loop.simps)
    (auto simp: CLUSTER_END_def ONLY_TIMECODE_def word_less_nat_alt unat_u16_64 not_less split: if_splits)

lemma last_cut_ok:
  assumes g: "GetChankByBytes b buf (1000 - bytes (info b)) = Some (b1, ret)"
    and b: "unat (bytes (info b)) \<le> 1000" "status (info b) = STATUS_PIECE"
      "cut_ok (info b)"
    and fin: "b' = b1\<lparr>info := (info b1)\<lparr>status := STATUS_BLOCK\<rparr>\<rparr> \<or> b' = b1"
  shows "unat (bytes (info b')) \<le> 1000 \<and> cut_ok (info b')"
proof -
  from g obtain t where t: "b1 = b\<lparr>info := (info b)\<lparr>bytes := bytes (info b) + t\<rparr>\<rparr>"
    "unat t \<le> unat (1000 - bytes (info b))" by (rule GetChankByBytes_D)
  have "unat (1000 - bytes (info b)) = 1000 - unat (bytes (info b))"
    using b(1) by (subst unat_sub) (auto simp: word_le_nat_alt)
  with t(2) b(1) have "unat (bytes (info b) + t) \<le> 1000" by (simp add: unat_word_ariths)
  then show ?thesis using fin t b
    by (auto simp: cut_ok_def STATUS_BLOCK_def STATUS_PIECE_def)
qed

text \<open>The branches of \<^verbatim>\<open>GetNextBlockByBytes\<close>, one equation each.\<close>

lemma GetNext_init:
  assumes "status p = STATUS_INIT"
    and "GetNextBlockByBytes \<lparr>info = block_info0, prev = p\<rparr> req buf = Some (b', ret)"
  obtains b1 where "GetChankByBytes \<lparr>info = block_info0\<lparr>cluster_seq := cluster_seq p, seq := 1,
        pos := of_nat CLUSTER_HEADER_BYTES\<rparr>, prev = p\<rparr> buf req = Some (b1, ret)"
    "ret = 0 \<and> AssignBlockInfoByPiece b1 buf req first_flag = Some b' \<or>
     ret = ONLY_TIMECODE \<and> (\<exists>c b2. GetChank buf = Some c \<and>
       b2 = b1\<lparr>info := (info b1)\<lparr>total_piece_bytes := ucast (chank_bytes c),
         bytes := ucast (chank_bytes c)\<rparr>\<rparr> \<and>
       AssignBlockInfoByPiece b2 (drop (unat (bytes (info b2))) buf)
         (req - bytes (info b2)) first_flag = Some b') \<or>
     b' = b1\<lparr>info := AssignBlockInfoBySB (info b1)\<rparr>"
  using assms unfolding GetNextBlockByBytes_def
  by (auto simp: Let_def bind_eq_Some_conv ONLY_TIMECODE_def split: if_splits)

lemma GetNext_follow:
  assumes "status p \<noteq> STATUS_INIT"
    and "GetNextBlockByBytes \<lparr>info = block_info0, prev = p\<rparr> req buf = Some (b', ret)"
    and "B = \<lparr>info = block_info0\<lparr>cluster_seq := cluster_seq p, seq := seq p + 1,
        pos := pos p + ucast (bytes p)\<rparr>, prev = p\<rparr>"
  obtains (take) b1 where "GetChankByBytes B buf req = Some (b1, ret)"
      "b' = b1\<lparr>info := AssignBlockInfoBySB (info b1)\<rparr> \<or>
       ret \<le> 0 \<and> AssignBlockInfoByPiece b1 buf req first_flag = Some b'"
    | (last) b1 b2 where "status p = STATUS_PIECE" "unat (total_pieces p) = unat (piece_seq p) + 1"
      "AssignBlockInfoByPiece B buf req last_flag = Some b1"
      "GetChankByBytes b1 (drop (unat (bytes (info b1))) buf) (req - bytes (info b1)) = Some (b2, ret)"
      "b' = b2\<lparr>info := (info b2)\<lparr>status := STATUS_BLOCK\<rparr>\<rparr> \<or> b' = b2"
    | (other) "status p = STATUS_PIECE" "unat (total_pieces p) \<noteq> unat (piece_seq p) + 1"
      "total_pieces p \<noteq> piece_seq p" "AssignBlockInfoByPiece B buf req other_flag = Some b'"
  using assms unfolding GetNextBlockByBytes_def
  by (auto simp: Let_def bind_eq_Some_conv not_less split: if_splits)

lemma sizes_ok_at: "sizes_ok buf \<Longrightarrow> q \<le> 1000 \<Longrightarrow> GetChank (drop q buf) = Some c \<Longrightarrow>
    1 \<le> unat (chank_bytes c) \<and> unat (chank_bytes c) \<le> 254000"
  by (auto simp: sizes_ok_def)

lemma GetNext_init_fits:
  assumes "status p = STATUS_INIT" and "sizes_ok buf"
    and "GetNextBlockByBytes \<lparr>info = block_info0, prev = p\<rparr> 1000 buf = Some (b', ret)"
  shows "unat (bytes (info b')) \<le> 1000 \<and> cut_ok (info b')"
  using assms(1,3)
proof (rule GetNext_init)
  fix b1
  assume g: "GetChankByBytes \<lparr>info = block_info0\<lparr>cluster_seq := cluster_seq p, seq := 1,
        pos := of_nat CLUSTER_HEADER_BYTES\<rparr>, prev = p\<rparr> buf 1000 = Some (b1, ret)"
    and "ret = 0 \<and> AssignBlockInfoByPiece b1 buf 1000 first_flag = Some b' \<or>
     ret = ONLY_TIMECODE \<and> (\<exists>c b2. GetChank buf = Some c \<and>
       b2 = b1\<lparr>info := (info b1)\<lparr>total_piece_bytes := ucast (chank_bytes c),
         bytes := ucast (chank_bytes c)\<rparr>\<rparr> \<and>
       AssignBlockInfoByPiece b2 (drop (unat (bytes (info b2))) buf)
         (1000 - bytes (info b2)) first_flag = Some b') \<or>
     b' = b1\<lparr>info := AssignBlockInfoBySB (info b1)\<rparr>"
  then consider "ret \<le> 0 \<and> AssignBlockInfoByPiece b1 buf 1000 first_flag = Some b' \<or>
      b' = b1\<lparr>info := AssignBlockInfoBySB (info b1)\<rparr>"
    | (tc) c b2 where "ret = ONLY_TIMECODE" "GetChank buf = Some c"
      "b2 = b1\<lparr>info := (info b1)\<lparr>total_piece_bytes := ucast (chank_bytes c),
         bytes := ucast (chank_bytes c)\<rparr>\<rparr>"
      "AssignBlockInfoByPiece b2 (drop (unat (bytes (info b2))) buf)
         (1000 - bytes (info b2)) first_flag = Some b'" by auto
  then show ?thesis
  proof cases
    case 1
    then show ?thesis
      using take_or_piece_ok [OF g assms(2), of b'] GetChankByBytes_ret_zero [OF g]
      by (auto simp: block_info0_def)
  next
    case tc
    have "unat (chank_bytes c) \<le> 1000"
      using g tc(1,2) chank_loop_first_fits [of buf 1000 _ ret c]
      by (auto simp: GetChankByBytes_def bind_eq_Some_conv)
    then have "unat (bytes (info b2)) \<le> 1000" by (simp add: tc(3) ucast_64_16)
    then show ?thesis
      using first_flag_ok [OF tc(4) sizes_ok_at [OF assms(2)]] by (simp add: tc(3))
  qed
qed

lemma GetNext_follow_fits:
  assumes "status p \<noteq> STATUS_INIT" and "sizes_ok buf" and "cut_ok p"
    and "GetNextBlockByBytes \<lparr>info = block_info0, prev = p\<rparr> 1000 buf = Some (b', ret)"
  shows "unat (bytes (info b')) \<le> 1000 \<and> cut_ok (info b')"
  using assms(1,4) refl
proof (cases rule: GetNext_follow)
  case (take b1)
  then show ?thesis
    using take_or_piece_ok [OF take(1) assms(2), of b'] GetChankByBytes_ret_zero [OF take(1)]
    by (auto simp: block_info0_def)
next
  case (last b1 b2)
  then have b1: "info b1 = block_info0\<lparr>cluster_seq := cluster_seq p, seq := seq p + 1,
      pos := pos p + ucast (bytes p), status := STATUS_PIECE,
      bytes := total_piece_bytes p - 1000 * ucast (piece_seq p), total_pieces := total_pieces p,
      piece_seq := piece_seq p + 1, total_piece_bytes := total_piece_bytes p\<rparr>"
    by (auto simp: AssignBlockInfoByPiece_def last_flag_def block_info0_def)
  have u: "total_pieces p = piece_seq p + 1"
    using last(2) unat_byte_lt [of "total_pieces p"] by (simp add: word_unat_eq_iff unat_word_ariths del: unat_byte_lt)
  with assms(3) last(1,2) have "unat (bytes (info b1)) \<le> 1000" "cut_ok (info b1)"
    by (simp_all add: cut_ok_def b1)
  then show ?thesis using last_cut_ok [OF last(4) _ _ _ last(5)] by (simp add: b1)
next
  case other
  then have b': "info b' = block_info0\<lparr>cluster_seq := cluster_seq p, seq := seq p + 1,
      pos := pos p + ucast (bytes p), status := STATUS_PIECE,
      bytes := 1000, total_pieces := total_pieces p,
      piece_seq := piece_seq p + 1, total_piece_bytes := total_piece_bytes p\<rparr>"
    by (auto simp: AssignBlockInfoByPiece_def other_flag_def block_info0_def)
  have "unat (piece_seq p) < unat (total_pieces p)" "unat (total_pieces p) < 256"
    using assms(3) other by (auto simp: cut_ok_def word_unat_eq_iff)
  then have "unat (piece_seq p + 1) \<le> unat (total_pieces p)" by (simp add: unat_word_ariths)
  with assms(3) other(1) show ?thesis by (auto simp: cut_ok_def b')
qed



lemma Assign_frame:
  assumes "AssignBlockInfoByPiece b buf req f = Some b'"
  shows "prev b' = prev b \<and> pos (info b') = pos (info b) \<and> seq (info b') = seq (info b) \<and>
    cluster_seq (info b') = cluster_seq (info b)"
  using assms by (auto simp: AssignBlockInfoByPiece_def Let_def bind_eq_Some_conv split: if_splits)

lemma GetChankByBytes_frame:
  assumes "GetChankByBytes b buf req = Some (b', ret)"
  shows "prev b' = prev b \<and> pos (info b') = pos (info b) \<and> seq (info b') = seq (info b) \<and>
    cluster_seq (info b') = cluster_seq (info b)"
  using assms by (auto simp: GetChankByBytes_def bind_eq_Some_conv)

lemma SB_frame:
  "pos (AssignBlockInfoBySB i) = pos i" "seq (AssignBlockInfoBySB i) = seq i"
  "cluster_seq (AssignBlockInfoBySB i) = cluster_seq i"
  by (simp_all add: AssignBlockInfoBySB_def)

lemmas cut_frames = Assign_frame GetChankByBytes_frame SB_frame

lemma GetNext_tiles:
  assumes "GetNextBlockByBytes \<lparr>info = block_info0, prev = p\<rparr> req buf = Some (b', ret)"
  shows "cluster_seq (info b') = cluster_seq p \<and> prev b' = p \<and>
    (if status p = STATUS_INIT then seq (info b') = 1 \<and> pos (info b') = 12
     else seq (info b') = seq p + 1 \<and> pos (info b') = pos p + ucast (bytes p))"
proof (cases "status p = STATUS_INIT")
  case True
  then show ?thesis using assms
    by (rule GetNext_init) (auto dest!: cut_frames(1,2) simp: SB_frame True CLUSTER_HEADER_BYTES_def)
next
  case False
  from False assms refl show ?thesis
    by (cases rule: GetNext_follow) (auto dest!: cut_frames(1,2) simp: SB_frame False)
qed

text \<open>
  C39: The blocks of a cluster tile it: the first has sequence number 1 and starts behind the cluster
  header, every other follows its predecessor in sequence number and starts where it ended, and
  the cluster number is handed on.
\<close>

theorem GetNextBlockByBytes_tiles:
  assumes "GetNextBlockByBytes \<lparr>info = block_info0, prev = p\<rparr> req buf = Some (b', ret)"
  shows "cluster_seq (info b') = cluster_seq p \<and> prev b' = p \<and>
    (if status p = STATUS_INIT then seq (info b') = 1 \<and> pos (info b') = 12
     else seq (info b') = seq p + 1 \<and> pos (info b') = pos p + ucast (bytes p))"
  using GetNext_tiles [OF assms] .

theorem GetNextBlockByBytes_tiles_witness:
  "\<exists>b' ret. GetNextBlockByBytes \<lparr>info = block_info0, prev = block_info0\<lparr>status := STATUS_BLOCK,
       seq := 7, pos := 2012, bytes := 988\<rparr>\<rparr> 1000 [0xa3, 0x47, 0xd0] = Some (b', ret) \<and>
     seq (info b') = 8 \<and> pos (info b') = 3000"
proof -
  let ?p = "block_info0\<lparr>status := STATUS_BLOCK, seq := 7, pos := 2012, bytes := 988\<rparr>"
  have 1: "GetEBMLID [0xa3, 0x47, 0xd0] = Some (0xa3, 1)" by code_simp
  have 2: "GetDataBytes (drop (unat (1 :: u16)) [0xa3, 0x47, 0xd0]) = Some (2000, 2)" by code_simp
  note c = GetChank_unfold [OF 1 2, simplified]
  have "GetNextBlockByBytes \<lparr>info = block_info0, prev = ?p\<rparr> 1000 [0xa3, 0x47, 0xd0] =
      Some (\<lparr>info = piece (pos ?p + ucast (bytes ?p)) (seq ?p + 1) (cluster_seq ?p) 2003 1, prev = ?p\<rparr>, 0)"
    using first_piece [OF c, of 2003 ?p] by (simp add: c_eval)
  from this GetNextBlockByBytes_tiles [OF this] show ?thesis by (auto simp: c_eval)
qed

text \<open>
  C40: A chunk of an unknown kind that is shorter than a block is cut as a single "piece" that runs
  past its end: the block takes the full request, not the chunk's length.
\<close>

theorem unknown_chunk_overruns:
  assumes "GetChank buf = Some c" and "chank_id c \<notin> {CLUSTER_ID, CUE_ID, TIMECODE_ID, SIMPLEBLOCK_ID}"
    and "0 < unat (chank_bytes c)" "unat (chank_bytes c) \<le> 1000" and "status p = STATUS_SIMPLEBLOCK"
  shows "\<exists>b'. GetNextBlockByBytes \<lparr>info = block_info0, prev = p\<rparr> 1000 buf = Some (b', 0) \<and>
    status (info b') = STATUS_PIECE \<and> total_pieces (info b') = 1 \<and> bytes (info b') = 1000"
proof -
  have l: "chank_loop buf 1000 0 0 0 = Some (0, 0)"
    using assms(1,2) by (subst chank_loop.simps) simp
  have "(unat (chank_bytes c) + 999) div 1000 = 1" using assms(3,4) by simp
  then have "ceil_pieces (chank_bytes c) = Some 1"
    by (simp add: ceil_pieces_def MAX_BLOCK_BYTES_def)
  with l assms show ?thesis
    by (simp add: GetNextBlockByBytes_def GetChankByBytes_def AssignBlockInfoByPiece_def
        first_flag_def block_info0_def STATUS_SIMPLEBLOCK_def STATUS_INIT_def STATUS_PIECE_def Let_def)
qed

theorem unknown_chunk_overruns_witness:
  "\<exists>b'. GetNextBlockByBytes \<lparr>info = block_info0, prev = block_info0\<lparr>status := STATUS_SIMPLEBLOCK\<rparr>\<rparr>
      1000 [0xec, 0x84, 0, 0, 0, 0] = Some (b', 0) \<and>
    status (info b') = STATUS_PIECE \<and> total_pieces (info b') = 1 \<and> bytes (info b') = 1000"
proof -
  have 1: "GetEBMLID [0xec, 0x84, 0, 0, 0, 0] = Some (0xec, 1)" by code_simp
  have 2: "GetDataBytes (drop (unat (1 :: u16)) [0xec, 0x84, 0, 0, 0, 0]) = Some (4, 1)" by code_simp
  show ?thesis
    by (rule unknown_chunk_overruns [OF GetChank_unfold [OF 1 2]]) (simp_all add: c_eval)
qed

end
