(* ===== verification/Webm_File.thy ===== *)
theory Webm_File
  imports Block_Cut
begin

text \<open>
  The WebM file: \<^verbatim>\<open>src/src/common/webm_parser.c\<close>, lines 898 to 1153.  The record \<open>webm\<close> holds
  the file the stream \<^verbatim>\<open>FP\<close> is open on and the globals of \<^verbatim>\<open>webm_parser.h\<close> that describe it.

  The C library is modelled by what the code uses of it: \<^verbatim>\<open>fread\<close> stops at the end of the file,
  \<^verbatim>\<open>fwrite\<close> overwrites and then extends (filling a gap with zeros) up to \<open>FILE_LIMIT\<close>, the largest
  size the file system allows, and \<^verbatim>\<open>fsetpos\<close> refuses a negative position.  Opening the file
  succeeds, and \<^verbatim>\<open>close\<close> loses nothing.
\<close>

record webm =
  FILE :: bytes
  FP :: nat
  FILE_LIMIT :: nat
  TOTAL_FILE_BYTES :: int
  CURRENT_FPOS_R :: int
  CURRENT_FPOS_W :: int
  CURRENT_READ_BYTES :: u64
  WEBM_HEADER_total_bytes :: u16
  WEBM_HEADER_data :: "bytes option"
  FIRST_CLUSTER_SEQ :: u32

section \<open>The C library\<close>

definition fread :: "nat \<Rightarrow> 'a webm_scheme \<Rightarrow> bytes \<times> 'a webm_scheme" where
  "fread n w = (let xs = take n (drop (FP w) (FILE w)) in (xs, w\<lparr>FP := FP w + length xs\<rparr>))"

definition put_file :: "bytes \<Rightarrow> nat \<Rightarrow> bytes \<Rightarrow> bytes" where
  "put_file f p xs =
     (if xs = [] then f
      else take p (f @ replicate (p - length f) 0) @ xs @ drop (p + length xs) f)"

definition fwrite :: "bytes \<Rightarrow> 'a webm_scheme \<Rightarrow> nat \<times> 'a webm_scheme" where
  "fwrite xs w = (let ys = take (FILE_LIMIT w - FP w) xs
     in (length ys, w\<lparr>FILE := put_file (FILE w) (FP w) ys, FP := FP w + length ys\<rparr>))"

definition fsetpos :: "int \<Rightarrow> 'a webm_scheme \<Rightarrow> 'a webm_scheme" where
  "fsetpos p w = (if 0 \<le> p then w\<lparr>FP := nat p\<rparr> else w)"

text \<open>The \<^verbatim>\<open>fpos_t *\<close> argument: one of the two globals or a local of the caller.\<close>

datatype fpos = FposR | FposW | FposLocal

primrec set_fpos :: "fpos \<Rightarrow> int \<Rightarrow> 'a webm_scheme \<Rightarrow> 'a webm_scheme" where
  "set_fpos FposR p w = w\<lparr>CURRENT_FPOS_R := p\<rparr>"
| "set_fpos FposW p w = w\<lparr>CURRENT_FPOS_W := p\<rparr>"
| "set_fpos FposLocal p w = w"

text \<open>A sum computed in 64-bit unsigned arithmetic and stored in a signed \<^verbatim>\<open>__off64_t\<close>.\<close>

definition off64 :: "u64 \<Rightarrow> int" where "off64 x = sint x"

section \<open>The code\<close>

definition UpdateOffsetWebM :: "fpos \<Rightarrow> 'a webm_scheme \<Rightarrow> int \<times> 'a webm_scheme" where
  "UpdateOffsetWebM fpos w = (int (FP w), set_fpos fpos (int (FP w)) w)"

definition SeekABSWebM :: "int \<Rightarrow> fpos \<Rightarrow> 'a webm_scheme \<Rightarrow> 'a webm_scheme" where
  "SeekABSWebM offset fpos w =
     (let (_, w) = UpdateOffsetWebM fpos w in fsetpos offset (set_fpos fpos offset w))"

definition SeekRLTWebM :: "int \<Rightarrow> fpos \<Rightarrow> 'a webm_scheme \<Rightarrow> 'a webm_scheme" where
  "SeekRLTWebM offset fpos w =
     (let (p, w) = UpdateOffsetWebM fpos w; p = p + offset in fsetpos p (set_fpos fpos p w))"

definition SeekForNextBlock :: "Block \<Rightarrow> 'a webm_scheme \<Rightarrow> 'a webm_scheme" where
  "SeekForNextBlock block w =
     SeekRLTWebM (off64 (ucast (bytes (info block)) - CURRENT_READ_BYTES w)) FposR w"

text \<open>
  The number of bytes \<^verbatim>\<open>ImportWebM\<close> and \<^verbatim>\<open>SearchWebM\<close> ask for: the comparison of a \<^verbatim>\<open>size_t\<close> with
  the signed rest of the file is done in unsigned 64-bit arithmetic.
\<close>

definition read_bytes :: "nat \<Rightarrow> int \<Rightarrow> nat" where
  "read_bytes n dbytes =
     (let d = (of_int dbytes :: u64) in if (of_nat n :: u64) < d then n else unat d)"

text \<open>The bytes read replace the front of the buffer, which must be large enough.\<close>

definition ImportWebM :: "bytes \<Rightarrow> nat \<Rightarrow> 'a webm_scheme \<Rightarrow> (bytes \<times> 'a webm_scheme) option" where
  "ImportWebM file_buf n w =
     (let dbytes = TOTAL_FILE_BYTES w - CURRENT_FPOS_R w;
          (xs, w) = fread (read_bytes n dbytes) w
      in do {
        file_buf \<leftarrow> wrn file_buf 0 xs;
        Some (file_buf, w\<lparr>CURRENT_READ_BYTES := of_nat (length xs)\<rparr>)
      })"

definition SearchWebM ::
    "bytes \<Rightarrow> nat \<Rightarrow> int \<Rightarrow> 'a webm_scheme \<Rightarrow> (bytes \<times> 'a webm_scheme) option" where
  "SearchWebM file_buf offset rd_pos w =
     (let dbytes = TOTAL_FILE_BYTES w - rd_pos;
          (xs, w) = fread (read_bytes offset dbytes) w
      in do {
        file_buf \<leftarrow> wrn file_buf 0 xs;
        Some (file_buf, w)
      })"

text \<open>
  The loop of \<^verbatim>\<open>CalOffset\<close> over the cluster headers.  Its buffer is a fresh local array in every
  round: the header is decoded from the bytes that were read into it only.
\<close>

fun skip_clusters :: "nat \<Rightarrow> int \<Rightarrow> 'a webm_scheme \<Rightarrow> (int \<times> 'a webm_scheme) option" where
  "skip_clusters 0 offset w = Some (offset, w)"
| "skip_clusters (Suc n) offset w =
     (let w = SeekABSWebM offset FposLocal w;
          (xs, w) = fread (read_bytes CLUSTER_HEADER_BYTES (TOTAL_FILE_BYTES w - offset)) w
      in do {
        chank \<leftarrow> GetChank xs;
        skip_clusters n (off64 (of_int offset + chank_bytes chank)) w
      })"

definition CalOffset :: "block_info \<Rightarrow> 'a webm_scheme \<Rightarrow> (int \<times> 'a webm_scheme) option" where
  "CalOffset i w =
     (let cluster_seq = (ucast (cluster_seq i) :: u32);
          count = cluster_seq - FIRST_CLUSTER_SEQ w
      in do {
        (offset, w) \<leftarrow> skip_clusters (unat count) (int (unat (WEBM_HEADER_total_bytes w))) w;
        Some (offset + int (unat (pos i + ucast (bytes i))), w)
      })"

definition SeekABSForNextBlock :: "Block \<Rightarrow> 'a webm_scheme \<Rightarrow> (int \<times> 'a webm_scheme) option" where
  "SeekABSForNextBlock block w = do {
     (offset, w) \<leftarrow> CalOffset (prev block) w;
     Some (offset, SeekABSWebM offset FposR w)
   }"

definition ExportWebM ::
    "bytes \<Rightarrow> nat \<Rightarrow> 'a webm_scheme \<Rightarrow> ('a webm_scheme, 'a webm_scheme) run option" where
  "ExportWebM file_buf n w = do {
     xs \<leftarrow> rdn file_buf 0 n;
     let (count, w) = fwrite xs w;
     if count = n then Some (Ret w) else Some (Exit w)
   }"

text \<open>\<open>size\<close> is the size \<^verbatim>\<open>fstat\<close> reports: that of the file, which the encoder may have extended.\<close>

definition CheckWebMSize :: "'a webm_scheme \<Rightarrow> int \<times> 'a webm_scheme" where
  "CheckWebMSize w =
     (let file_size = int (length (FILE w))
      in if TOTAL_FILE_BYTES w < file_size then (1, w\<lparr>TOTAL_FILE_BYTES := file_size\<rparr>) else (0, w))"

definition OpenWebM :: "'a webm_scheme \<Rightarrow> 'a webm_scheme" where
  "OpenWebM w = w\<lparr>FP := 0\<rparr>"

definition UpdateWebM :: "fpos \<Rightarrow> 'a webm_scheme \<Rightarrow> 'a webm_scheme" where
  "UpdateWebM fpos w =
     (let (offset, w) = UpdateOffsetWebM fpos w in SeekABSWebM offset fpos (OpenWebM w))"

definition WriteWebMHeader ::
    "bytes \<Rightarrow> u16 \<Rightarrow> 'a webm_scheme \<Rightarrow> ('a webm_scheme, 'a webm_scheme) run option" where
  "WriteWebMHeader buf n w = do {
     r \<leftarrow> ExportWebM buf (unat n) w;
     cont r (\<lambda>w. do {
       xs \<leftarrow> rdn buf 0 (unat n);
       Some (Ret (w\<lparr>WEBM_HEADER_total_bytes := n, WEBM_HEADER_data := Some xs\<rparr>))
     })
   }"

section \<open>The file as a random-access store\<close>

lemma put_file_end: "put_file f (length f) xs = f @ xs"
  by (simp add: put_file_def)

lemma put_file_inside:
  "p + length xs \<le> length f \<Longrightarrow> put_file f p xs = take p f @ xs @ drop (p + length xs) f"
  by (simp add: put_file_def)

lemma length_put_file_inside: "p + length xs \<le> length f \<Longrightarrow> length (put_file f p xs) = length f"
  by (simp add: put_file_inside)

text \<open>
  What the operations on the stream promise; the cluster code is verified against these laws only.
\<close>

locale file_store =
  fixes seek :: "nat \<Rightarrow> 's \<Rightarrow> 's"
    and readf :: "nat \<Rightarrow> 's \<Rightarrow> bytes \<times> 's"
    and writef :: "bytes \<Rightarrow> 's \<Rightarrow> nat \<times> 's"
    and content :: "'s \<Rightarrow> bytes"
    and at :: "'s \<Rightarrow> nat"
    and room :: "'s \<Rightarrow> nat"
  assumes seek_content: "content (seek p s) = content s"
    and seek_at: "at (seek p s) = p"
    and seek_room: "room (seek p s) = room s"
    and read_content: "content (snd (readf n s)) = content s"
    and read_bytes_at: "fst (readf n s) = take n (drop (at s) (content s))"
    and read_at: "at (snd (readf n s)) = at s + length (fst (readf n s))"
    and write_ok: "at s + length xs \<le> room s \<Longrightarrow>
      fst (writef xs s) = length xs \<and> content (snd (writef xs s)) = put_file (content s) (at s) xs
      \<and> at (snd (writef xs s)) = at s + length xs \<and> room (snd (writef xs s)) = room s"
begin

lemma read_seek: "fst (readf n (seek p s)) = take n (drop p (content s))"
  by (simp add: read_bytes_at seek_at seek_content)

text \<open>Appending at the end of the file.\<close>

lemma append_end:
  assumes "at s = length (content s)" and "at s + length xs \<le> room s"
  shows "content (snd (writef xs s)) = content s @ xs"
    and "at (snd (writef xs s)) = length (content (snd (writef xs s)))"
  using write_ok [OF assms(2)] assms(1) by (simp_all add: put_file_end)

text \<open>Patching bytes inside the file and coming back leaves the rest of it and its length alone.\<close>

lemma patch_back:
  assumes "p + length xs \<le> length (content s)" and "length (content s) \<le> room s"
  shows "content (seek q (snd (writef xs (seek p s)))) = take p (content s) @ xs @ drop (p + length xs) (content s)"
    and "at (seek q (snd (writef xs (seek p s)))) = q"
  using write_ok [of "seek p s" xs] assms
  by (simp_all add: seek_at seek_content seek_room put_file_inside)

lemma patch_read:
  assumes "p + length xs \<le> length (content s)" and "length (content s) \<le> room s"
  shows "fst (readf (length xs) (seek p (snd (writef xs (seek p s))))) = xs"
  using patch_back(1) [OF assms, of 0] assms by (simp add: read_seek seek_content)

end

interpretation webm_store: file_store "\<lambda>p. fsetpos (int p)" fread fwrite FILE FP FILE_LIMIT
  by unfold_locales (auto simp: fsetpos_def fread_def fwrite_def Let_def)

lemma fread_frame [simp]:
  "FILE (snd (fread n w)) = FILE w" "TOTAL_FILE_BYTES (snd (fread n w)) = TOTAL_FILE_BYTES w"
  "CURRENT_FPOS_R (snd (fread n w)) = CURRENT_FPOS_R w"
  "WEBM_HEADER_total_bytes (snd (fread n w)) = WEBM_HEADER_total_bytes w"
  "FIRST_CLUSTER_SEQ (snd (fread n w)) = FIRST_CLUSTER_SEQ w"
  by (simp_all add: fread_def Let_def)

lemma seek_frame [simp]:
  "FILE (SeekABSWebM p v w) = FILE w" "TOTAL_FILE_BYTES (SeekABSWebM p v w) = TOTAL_FILE_BYTES w"
  "WEBM_HEADER_total_bytes (SeekABSWebM p v w) = WEBM_HEADER_total_bytes w"
  "FIRST_CLUSTER_SEQ (SeekABSWebM p v w) = FIRST_CLUSTER_SEQ w"
  "FILE_LIMIT (SeekABSWebM p v w) = FILE_LIMIT w"
  by (cases v; simp add: SeekABSWebM_def UpdateOffsetWebM_def fsetpos_def)+

lemma SeekABSWebM_FP [simp]: "0 \<le> p \<Longrightarrow> FP (SeekABSWebM p v w) = nat p"
  by (cases v) (simp_all add: SeekABSWebM_def UpdateOffsetWebM_def fsetpos_def)

lemma read_bytes_le: "int n < 2 ^ 63 \<Longrightarrow> 0 \<le> d \<Longrightarrow> d < 2 ^ 63 \<Longrightarrow> read_bytes n d = min n (nat d)"
proof -
  assume a: "int n < 2 ^ 63" "0 \<le> d" "d < 2 ^ 63"
  have "unat (of_nat n :: u64) = n" using a by (simp add: unat_of_nat)
  moreover have "unat (of_int d :: u64) = nat d"
    using a by (simp add: unat_eq_nat_uint uint_word_of_int)
  ultimately show ?thesis by (auto simp: read_bytes_def Let_def word_less_nat_alt)
qed

text \<open>A rest of the file that came out negative is taken for a huge one, so the whole request is read.\<close>

lemma read_bytes_negative: "int n < 2 ^ 63 \<Longrightarrow> - (2 ^ 63) \<le> d \<Longrightarrow> d < 0 \<Longrightarrow> read_bytes n d = n"
proof -
  assume a: "int n < 2 ^ 63" "- (2 ^ 63) \<le> d" "d < 0"
  have "unat (of_nat n :: u64) = n" using a by (simp add: unat_of_nat)
  moreover have "(d + 18446744073709551616) mod 18446744073709551616 = d + 18446744073709551616"
    by (rule mod_pos_pos_trivial) (use a in simp_all)
  then have "unat (of_int d :: u64) = nat (d + 18446744073709551616)"
    by (simp add: unat_eq_nat_uint uint_word_of_int)
  ultimately show ?thesis using a by (auto simp: read_bytes_def Let_def word_less_nat_alt)
qed

section \<open>Where the next block starts\<close>

lemma off64_of_int: "- (2 ^ 63) \<le> x \<Longrightarrow> x < 2 ^ 63 \<Longrightarrow> off64 (word_of_int x) = x"
  by (simp add: off64_def sint_sbintrunc' signed_take_bit_int_eq_self)

lemma off64_diff: "a < 2 ^ 62 \<Longrightarrow> b < 2 ^ 62 \<Longrightarrow> off64 (of_nat a - of_nat b) = int a - int b"
  using off64_of_int [of "int a - int b"] by simp

lemma off64_add:
  assumes "0 \<le> p" and "p + int (unat x) < 2 ^ 63"
  shows "off64 (of_int p + x) = p + int (unat x)"
proof -
  have "0 \<le> p + int (unat x)" using assms(1) by (rule add_nonneg_nonneg) (rule of_nat_0_le_iff)
  then have "- (2 ^ 63) \<le> p + int (unat x)" by (rule order_trans [rotated]) simp
  from off64_of_int [OF this assms(2)] show ?thesis by simp
qed

text \<open>
  The sending loop reads its file block by block: after \<^verbatim>\<open>ImportWebM\<close> and
  \<^verbatim>\<open>SeekForNextBlock\<close> the read position has moved by exactly the bytes of the block that was cut,
  whether the read was short at the end of the file or longer than the block.
\<close>

lemma SeekForNextBlock_position:
  assumes "ImportWebM buf n w = Some (buf', w')" and "length (FILE w) < 2 ^ 62"
  shows "FP (SeekForNextBlock block w') = FP w + unat (bytes (info block)) \<and>
    CURRENT_FPOS_R (SeekForNextBlock block w') = int (FP w) + int (unat (bytes (info block)))"
proof -
  define r where "r = length (take (read_bytes n (TOTAL_FILE_BYTES w - CURRENT_FPOS_R w)) (drop (FP w) (FILE w)))"
  have w': "FP w' = FP w + r" "CURRENT_READ_BYTES w' = of_nat r"
    using assms(1) by (auto simp: ImportWebM_def fread_def Let_def bind_eq_Some_conv r_def)
  have "r \<le> length (FILE w)"
    unfolding r_def length_take length_drop by (rule le_trans [OF min.cobounded1 diff_le_self])
  then have r: "r < 2 ^ 62" using assms(2) by (rule le_less_trans)
  have u: "unat (bytes (info block)) < 2 ^ 62" by (rule less_trans [OF unat_u16_lt]) simp
  have "off64 (ucast (bytes (info block)) - of_nat r) = int (unat (bytes (info block))) - int r"
    using off64_diff [OF u r] by simp
  then show ?thesis
    by (simp add: SeekForNextBlock_def SeekRLTWebM_def UpdateOffsetWebM_def w' fsetpos_def Let_def nat_add_distrib)
qed

definition webm0 :: "bytes \<Rightarrow> webm" where
  "webm0 f = \<lparr>FILE = f, FP = 0, FILE_LIMIT = 2 ^ 40, TOTAL_FILE_BYTES = int (length f),
     CURRENT_FPOS_R = 0, CURRENT_FPOS_W = 0, CURRENT_READ_BYTES = 0, WEBM_HEADER_total_bytes = 0,
     WEBM_HEADER_data = None, FIRST_CLUSTER_SEQ = 0\<rparr>"

text \<open>A cluster as it stands in the file: its header fits 12 bytes and gives its whole length.\<close>

definition cluster_ok :: "bytes \<Rightarrow> bool" where
  "cluster_ok c \<longleftrightarrow> 12 \<le> length c \<and>
     (\<exists>h. GetChank (take 12 c) = Some h \<and> unat (chank_bytes h) = length c)"

lemma skip_clusters_ok:
  assumes "list_all cluster_ok cs" and "FILE w = pre @ concat cs @ rest"
    and "TOTAL_FILE_BYTES w = int (length (FILE w))" and "length (FILE w) < 2 ^ 62"
  shows "\<exists>w'. skip_clusters (length cs) (int (length pre)) w = Some (int (length pre + length (concat cs)), w')
     \<and> FILE w' = FILE w"
  using assms
proof (induction cs arbitrary: pre w)
  case Nil
  then show ?case by simp
next
  case (Cons c cs)
  then obtain h where c: "12 \<le> length c" "GetChank (take 12 c) = Some h" "unat (chank_bytes h) = length c"
    by (auto simp: cluster_ok_def)
  define w1 where "w1 = SeekABSWebM (int (length pre)) FposLocal w"
  define w2 where "w2 = snd (fread 12 w1)"
  have n: "read_bytes 12 (TOTAL_FILE_BYTES w1 - int (length pre)) = 12"
    using Cons.prems c(1) by (subst read_bytes_le) (auto simp: w1_def)
  have f: "fread 12 w1 = (take 12 c, w2)"
    using Cons.prems(2) c(1) by (simp add: prod_eq_iff w2_def fread_def Let_def w1_def)
  have o: "off64 (of_int (int (length pre)) + chank_bytes h) = int (length (pre @ c))"
    using Cons.prems(2,4) by (subst off64_add) (simp_all add: c(3))
  have "\<exists>w'. skip_clusters (length cs) (int (length (pre @ c))) w2 =
      Some (int (length (pre @ c) + length (concat cs)), w') \<and> FILE w' = FILE w2"
    by (rule Cons.IH) (use Cons.prems in \<open>auto simp: w2_def w1_def\<close>)
  moreover have "skip_clusters (length (c # cs)) (int (length pre)) w
      = skip_clusters (length cs) (int (length (pre @ c))) w2"
    by (simp only: list.size add_Suc_right add_0_right skip_clusters.simps w1_def [symmetric] n f c(2) o
        CLUSTER_HEADER_BYTES_def Let_def prod.case Option.bind.bind_lunit)
  moreover have "FILE w2 = FILE w" by (simp add: w2_def w1_def)
  ultimately show ?case by (simp add: add.assoc)
qed

end
