(* ===== verification/Store.thy ===== *)
theory Store
  imports Webm_File
begin

text \<open>
  Clusters and blocks in the file: \<^verbatim>\<open>src/src/common/webm_parser.c\<close>, lines 157 to 365, 395 to 444
  and 1293 to 1491.  The record \<open>store\<close> adds the cluster and block globals of
  \<^verbatim>\<open>webm_parser.h\<close> to the file.

  Pointers to the current cluster and block are options (\<open>None\<close> is \<^verbatim>\<open>NULL\<close>).  \<open>HEAP_C\<close> and
  \<open>HEAP_B\<close> give what \<^verbatim>\<open>malloc\<close> finds in fresh memory and \<open>HEAP_N\<close> counts the allocations, so a
  field the code does not initialise has an arbitrary value.
\<close>

section \<open>State\<close>

record cluster_node =
  cl_info :: Chank
  cl_pos :: int
  cl_seq :: u32
  cl_option :: u32

record Cluster =
  cl :: cluster_node
  cl_prev :: cluster_node

record store = webm +
  CURRENT_CLUSTER :: "Cluster option"
  CURRENT_BLOCK :: "Block option"
  CURRENT_CHILD_BLOCK :: "Block option list"
  CURRENT_BLOCKINFO :: "block_info list"
  CURRENT_BLOCK_NUM :: int
  TOTAL_BLOCK_NUM :: u64
  LATEST_BLOCK_SEQ :: u32
  IS_FIRST_CLUSTER :: bool
  TIMECODE_OFFSET :: u64
  NODE_TIMECODE_OFFSET :: u64
  IS_GET_TIMECODE_OFFSET :: bool
  HEAP_C :: "nat \<Rightarrow> cluster_node"
  HEAP_B :: "nat \<Rightarrow> block_info"
  HEAP_N :: nat

definition FOOTER :: bytes where
  [c_eval]: "FOOTER = [0x1f, 0x43, 0xb6, 0x75, 0x01, 0xff, 0xff, 0xff, 0xff, 0xff, 0xff, 0xff]"

definition BLOCKINFO_START :: bytes where
  [c_eval]: "BLOCKINFO_START = replicate BLOCKINFO_BYTES 0"
definition BLOCKINFO_END :: bytes where
  [c_eval]: "BLOCKINFO_END = replicate BLOCKINFO_BYTES 0xff"

definition MAX_BLOCKS_NUM :: int where [c_eval]: "MAX_BLOCKS_NUM = 1"
definition MAX_CHILD_NUM :: nat where [c_eval]: "MAX_CHILD_NUM = 2"
definition FIRST_BLOCK_SEQ :: u32 where [c_eval]: "FIRST_BLOCK_SEQ = 1"
definition CLUSTER_ID_BYTES :: u16 where [c_eval]: "CLUSTER_ID_BYTES = 4"

definition Chank0 :: Chank where
  "Chank0 = \<lparr>chank_id = 0, id_bytes = 0, data_header_position = 0, data_bytes = 0, chank_bytes = 0\<rparr>"

section \<open>Clusters\<close>

definition InitCluster :: "'a store_scheme \<Rightarrow> 'a store_scheme" where
  "InitCluster s =
     (let n = HEAP_N s; c = HEAP_C s n; p = HEAP_C s (n + 1)
      in s\<lparr>HEAP_N := n + 2,
           CURRENT_CLUSTER := Some \<lparr>cl = c\<lparr>cl_info := Chank0\<rparr>,
             cl_prev = p\<lparr>cl_info := Chank0, cl_option := 0xffffffff\<rparr>\<rparr>\<rparr>)"

definition ShiftToPreCluster :: "Cluster \<Rightarrow> Cluster" where
  "ShiftToPreCluster c =
     \<lparr>cl = \<lparr>cl_info = Chank0, cl_pos = 0, cl_seq = 0, cl_option = 0\<rparr>, cl_prev = cl c\<rparr>"

definition RenewClusterForRead :: "bytes \<Rightarrow> 'a store_scheme \<Rightarrow> 'a store_scheme option" where
  "RenewClusterForRead buf s = do {
     c \<leftarrow> CURRENT_CLUSTER s;
     chank \<leftarrow> GetChank buf;
     Some (s\<lparr>CURRENT_CLUSTER := Some (c\<lparr>cl := \<lparr>cl_info = chank, cl_pos = CURRENT_FPOS_R s,
       cl_seq = (if cl_option (cl_prev c) = 0xffffffff then 0 else cl_seq (cl_prev c) + 1),
       cl_option = 0\<rparr>\<rparr>)\<rparr>)
   }"

definition RenewClusterForWrite ::
    "'a store_scheme \<Rightarrow> ('a store_scheme, 'a store_scheme) run option" where
  "RenewClusterForWrite s = do {
     c \<leftarrow> CURRENT_CLUSTER s;
     b \<leftarrow> CURRENT_BLOCK s;
     ExportWebM FOOTER CLUSTER_HEADER_BYTES (s\<lparr>CURRENT_CLUSTER := Some (c\<lparr>cl := (cl c)\<lparr>
       cl_pos := CURRENT_FPOS_W s, cl_seq := ucast (cluster_seq (info b)),
       cl_info := \<lparr>chank_id = CLUSTER_ID, id_bytes = CLUSTER_ID_BYTES,
         data_header_position = of_nat CLUSTER_HEADER_BYTES, data_bytes = 0,
         chank_bytes = of_nat CLUSTER_HEADER_BYTES\<rparr>\<rparr>\<rparr>)\<rparr>)
   }"

definition UpdateClusterDataBytesToWebM ::
    "cluster_node \<Rightarrow> 'a store_scheme \<Rightarrow> ('a store_scheme, 'a store_scheme) run option" where
  "UpdateClusterDataBytesToWebM cluster s =
     (let current_position = (ucast (id_bytes (cl_info cluster)) :: u64) + 1;
          update_data_buf = map (\<lambda>k. ucast (drop_bit (8 * k) (data_bytes (cl_info cluster)) AND 0xff))
            [6, 5, 4, 3, 2, 1, 0];
          (offset, s) = UpdateOffsetWebM FposW s;
          s = SeekABSWebM (off64 (of_int (cl_pos cluster) + current_position)) FposW s
      in do {
        r \<leftarrow> ExportWebM update_data_buf 7 s;
        cont r (\<lambda>s. Some (Ret (SeekABSWebM offset FposW s)))
      })"

text \<open>The cluster argument of \<^verbatim>\<open>UpdateClusterToWebM\<close> is \<^verbatim>\<open>CURRENT_CLUSTER\<close> in every call.\<close>

definition UpdateClusterToWebM ::
    "block_info list \<Rightarrow> int \<Rightarrow> 'a store_scheme \<Rightarrow> ('a store_scheme, 'a store_scheme) run option" where
  "UpdateClusterToWebM infos count s =
     (if int (length infos) < count then None
      else do {
        c \<leftarrow> CURRENT_CLUSTER s;
        let total_data_bytes = (sum_list (map (\<lambda>i. ucast (bytes i)) (take (nat count) infos)) :: u64);
        let i = cl_info (cl c);
        let n = (cl c)\<lparr>cl_info := i\<lparr>data_bytes := data_bytes i + total_data_bytes,
                  chank_bytes := chank_bytes i + total_data_bytes\<rparr>\<rparr>;
        UpdateClusterDataBytesToWebM n (s\<lparr>CURRENT_CLUSTER := Some (c\<lparr>cl := n\<rparr>)\<rparr>)
      })"

section \<open>Blocks\<close>

definition InitBlock_store :: "'a store_scheme \<Rightarrow> 'a store_scheme" where
  "InitBlock_store s = s\<lparr>CURRENT_BLOCK := Some InitBlock\<rparr>"

fun init_child_blocks :: "nat \<Rightarrow> 'a store_scheme \<Rightarrow> 'a store_scheme" where
  "init_child_blocks 0 s = s\<lparr>CURRENT_CHILD_BLOCK := []\<rparr>"
| "init_child_blocks (Suc i) s =
     (let s = init_child_blocks i s; n = HEAP_N s
      in s\<lparr>HEAP_N := n + 2, CURRENT_CHILD_BLOCK := CURRENT_CHILD_BLOCK s @
           [Some \<lparr>info = HEAP_B s n, prev = HEAP_B s (n + 1)\<rparr>]\<rparr>)"

definition InitChildBlocks :: "'a store_scheme \<Rightarrow> 'a store_scheme" where
  "InitChildBlocks s = init_child_blocks MAX_CHILD_NUM s"

definition RenewBlockInfos :: "'a store_scheme \<Rightarrow> 'a store_scheme" where
  "RenewBlockInfos s = s\<lparr>CURRENT_BLOCKINFO := map (\<lambda>_. block_info0) (CURRENT_BLOCKINFO s)\<rparr>"

definition CheckClusterSeq :: "'a store_scheme \<Rightarrow> int option" where
  "CheckClusterSeq s = do {
     b \<leftarrow> CURRENT_BLOCK s;
     Some (if cluster_seq (prev b) \<noteq> cluster_seq (info b) then 1 else 0)
   }"

definition IsOldBlockSeq :: "block_info \<Rightarrow> 'a store_scheme \<Rightarrow> bool option" where
  "IsOldBlockSeq i s = do {
     c \<leftarrow> CURRENT_CLUSTER s;
     let current_cluster_seq = cl_seq (cl_prev c);
     let current_seq = LATEST_BLOCK_SEQ s;
     Some (if (ucast (cluster_seq i) :: u32) < current_cluster_seq then True
           else if ucast (cluster_seq i) = current_cluster_seq
                then if seq i \<le> current_seq then True else False
                else False)
   }"

section \<open>Assembling\<close>

text \<open>The two loops of \<^verbatim>\<open>ChangeTimecode\<close>: reading the timestamp and writing it back.\<close>

fun read_timestamp :: "bytes \<Rightarrow> nat \<Rightarrow> nat \<Rightarrow> u64 \<Rightarrow> u64 option" where
  "read_timestamp data p 0 tstamp = Some tstamp"
| "read_timestamp data p (Suc n) tstamp = do {
     b \<leftarrow> rd data p;
     read_timestamp data (p + 1) n (push_bit 8 tstamp + ucast b)
   }"

text \<open>A shift by 64 bits or more is undefined, so a timestamp of more than eight bytes is.\<close>

fun write_timestamp :: "bytes \<Rightarrow> nat \<Rightarrow> nat \<Rightarrow> u64 \<Rightarrow> bytes option" where
  "write_timestamp data p 0 tstamp = Some data"
| "write_timestamp data p (Suc n) tstamp =
     (if 64 \<le> 8 * n then None
      else do {
        data \<leftarrow> wrn data p [ucast (drop_bit (8 * n) tstamp AND 0xff)];
        write_timestamp data (p + 1) n tstamp
      })"

text \<open>A count above \<^verbatim>\<open>INT_MAX\<close> would overflow the \<^verbatim>\<open>int\<close> index; the buffer ends long before.\<close>

definition ChangeTimecode ::
    "bytes \<Rightarrow> 'a store_scheme \<Rightarrow> ('a store_scheme, bytes \<times> 'a store_scheme) run option" where
  "ChangeTimecode data s = do {
     timecode \<leftarrow> GetChank data;
     if chank_id timecode = TIMECODE_ID then do {
       let p = unat (data_header_position timecode);
       let n = unat (data_bytes timecode);
       tstamp \<leftarrow> read_timestamp data p n 0;
       let s = (if \<not> IS_GET_TIMECODE_OFFSET s
         then s\<lparr>TIMECODE_OFFSET := tstamp + NODE_TIMECODE_OFFSET s, IS_GET_TIMECODE_OFFSET := True\<rparr>
         else s);
       let modified_timestamp = tstamp + NODE_TIMECODE_OFFSET s - TIMECODE_OFFSET s;
       data \<leftarrow> write_timestamp data p n modified_timestamp;
       Some (Ret (data, s))
     } else Some (Exit s)
   }"

definition InsertBlockToCluster ::
    "bytes \<Rightarrow> u16 \<Rightarrow> 'a store_scheme \<Rightarrow> ('a store_scheme, 'a store_scheme) run option" where
  "InsertBlockToCluster recv_data n s = do {
     new_cluster \<leftarrow> CheckClusterSeq s;
     r \<leftarrow> (if 0 < new_cluster then do {
         r \<leftarrow> UpdateClusterToWebM (CURRENT_BLOCKINFO s) (CURRENT_BLOCK_NUM s) s;
         cont r (\<lambda>s. do {
           c \<leftarrow> CURRENT_CLUSTER s;
           r \<leftarrow> RenewClusterForWrite (s\<lparr>CURRENT_CLUSTER := Some (ShiftToPreCluster c)\<rparr>);
           cont r (\<lambda>s. Some (Ret (s\<lparr>CURRENT_BLOCK_NUM := 0\<rparr>)))
         })
       } else Some (Ret s));
     cont r (\<lambda>s. ExportWebM (drop BLOCKINFO_BYTES recv_data) (unat n) s)
   }"

text \<open>\<open>data\<close> is the memory of the packet from the block information on, \<open>n\<close> its length.\<close>

definition assemble_start ::
    "bytes \<Rightarrow> u16 \<Rightarrow> 'a store_scheme \<Rightarrow> ('a store_scheme, 'a store_scheme) run option" where
  "assemble_start data n s =
     (let block_data_bytes = n - of_nat BLOCKINFO_BYTES
      in do {
        r \<leftarrow> WriteWebMHeader (drop BLOCKINFO_BYTES data) block_data_bytes s;
        cont r (\<lambda>s. do {
          r \<leftarrow> RenewClusterForWrite (UpdateWebM FposW s);
          cont r (\<lambda>s. Some (Ret (s\<lparr>TOTAL_FILE_BYTES := TOTAL_FILE_BYTES s + int (unat block_data_bytes)\<rparr>)))
        })
      })"

definition assemble_end ::
    "u16 \<Rightarrow> 'a store_scheme \<Rightarrow> ('a store_scheme, 'a store_scheme) run option" where
  "assemble_end n s =
     (let block_data_bytes = n - of_nat BLOCKINFO_BYTES
      in do {
        r \<leftarrow> UpdateClusterToWebM (CURRENT_BLOCKINFO s) (CURRENT_BLOCK_NUM s) s;
        cont r (\<lambda>s. do {
          r \<leftarrow> ExportWebM FOOTER CLUSTER_HEADER_BYTES s;
          cont r (\<lambda>s. Some (Exit (s\<lparr>TOTAL_FILE_BYTES := TOTAL_FILE_BYTES s + int (unat block_data_bytes)\<rparr>)))
        })
      })"

definition assemble_flush :: "'a store_scheme \<Rightarrow> ('a store_scheme, 'a store_scheme) run option" where
  "assemble_flush s =
     (if CURRENT_BLOCK_NUM s = 0 then Some (Ret s)
      else if CURRENT_BLOCK_NUM s = MAX_BLOCKS_NUM then do {
        r \<leftarrow> UpdateClusterToWebM (CURRENT_BLOCKINFO s) MAX_BLOCKS_NUM s;
        cont r (\<lambda>s. Some (Ret (RenewBlockInfos ((UpdateWebM FposW s)\<lparr>CURRENT_BLOCK_NUM := 0\<rparr>))))
      }
      else Some (Ret s))"

text \<open>Writing a block and counting it: from the update of \<^verbatim>\<open>LATEST_BLOCK_SEQ\<close> to the end.\<close>

definition assemble_write ::
    "bytes \<Rightarrow> u16 \<Rightarrow> block_info \<Rightarrow> 'a store_scheme \<Rightarrow> ('a store_scheme, 'a store_scheme) run option" where
  "assemble_write data block_data_bytes i s = do {
     r \<leftarrow> InsertBlockToCluster data (bytes i) (s\<lparr>LATEST_BLOCK_SEQ := seq i\<rparr>);
     cont r (\<lambda>s. do {
       let k = CURRENT_BLOCK_NUM s;
       if 0 \<le> k \<and> k < int (length (CURRENT_BLOCKINFO s)) then do {
         j \<leftarrow> CopyBytesToBlockInfo (CURRENT_BLOCKINFO s ! nat k) data;
         b \<leftarrow> CURRENT_BLOCK s;
         Some (Ret (s\<lparr>CURRENT_BLOCKINFO := (CURRENT_BLOCKINFO s)[nat k := j],
           TOTAL_FILE_BYTES := TOTAL_FILE_BYTES s + int (unat block_data_bytes),
           TOTAL_BLOCK_NUM := TOTAL_BLOCK_NUM s + 1,
           CURRENT_BLOCK := Some (ShiftToPreBlock b), CURRENT_BLOCK_NUM := k + 1\<rparr>))
       } else None
     })
   }"

definition assemble_block ::
    "bytes \<Rightarrow> u16 \<Rightarrow> 'a store_scheme \<Rightarrow> ('a store_scheme, 'a store_scheme) run option" where
  "assemble_block data n s =
     (let block_data_bytes = n - of_nat BLOCKINFO_BYTES
      in do {
        tmp_info \<leftarrow> CopyBytesToBlockInfo block_info0 data;
        old \<leftarrow> IsOldBlockSeq tmp_info s;
        if old then Some (Ret s)
        else do {
          let s = (if IS_FIRST_CLUSTER s
            then s\<lparr>FIRST_CLUSTER_SEQ := ucast (cluster_seq tmp_info), IS_FIRST_CLUSTER := False\<rparr> else s);
          r \<leftarrow> assemble_flush s;
          cont r (\<lambda>s. do {
            b \<leftarrow> CURRENT_BLOCK s;
            i \<leftarrow> CopyBytesToBlockInfo (info b) data;
            let s = s\<lparr>CURRENT_BLOCK := Some (b\<lparr>info := i\<rparr>)\<rparr>;
            r \<leftarrow> (if seq i = FIRST_BLOCK_SEQ then ChangeTimecode (drop BLOCKINFO_BYTES data) s
                 else Some (Ret (drop BLOCKINFO_BYTES data, s)));
            cont r (\<lambda>(block_data, s).
              assemble_write (take BLOCKINFO_BYTES data @ block_data) block_data_bytes i s)
          })
        }
      })"

definition AssembleBlock ::
    "bytes \<Rightarrow> u16 \<Rightarrow> 'a store_scheme \<Rightarrow> ('a store_scheme, 'a store_scheme) run option" where
  "AssembleBlock data n s = do {
     head \<leftarrow> rdn data 0 BLOCKINFO_BYTES;
     if head = BLOCKINFO_START then assemble_start data n s
     else if head = BLOCKINFO_END then assemble_end n s
     else assemble_block data n s
   }"

section \<open>The file a peer writes\<close>

text \<open>
  A cluster header with an eight-byte size field; the largest size is the mark of a cluster whose
  size is not known yet, which is what \<^verbatim>\<open>FOOTER\<close> holds.
\<close>

definition cluster_hdr :: "nat \<Rightarrow> bytes" where
  "cluster_hdr n = [0x1f, 0x43, 0xb6, 0x75, 0x01] @ be_bytes 7 n"

definition cluster_enc :: "bytes \<Rightarrow> bytes" where
  "cluster_enc d = cluster_hdr (length d) @ d"

lemma length_cluster_hdr [simp]: "length (cluster_hdr n) = 12"
  by (simp add: cluster_hdr_def)

lemma FOOTER_hdr: "FOOTER = cluster_hdr (2 ^ 56 - 1)"
proof -
  have "be_val [0xff, 0xff, 0xff, 0xff, 0xff, 0xff, 0xff] = 2 ^ 56 - 1" by (simp add: be_val_Cons)
  with be_bytes_be_val [of 7 "[0xff, 0xff, 0xff, 0xff, 0xff, 0xff, 0xff]"]
  have "be_bytes 7 (2 ^ 56 - 1) = [0xff, 0xff, 0xff, 0xff, 0xff, 0xff, 0xff]" by simp
  then show ?thesis by (simp add: FOOTER_def cluster_hdr_def)
qed

lemma low_byte: "(x :: u64) AND 0xff = take_bit 8 x"
  using take_bit_eq_mask [of 8 x] by (simp add: mask_eq_exp_minus_1)

lemma byte_of_word: "ucast (drop_bit (8 * k) (d :: u64) AND 0xff) = (of_nat (unat d div 256 ^ k) :: u8)"
proof -
  have "unat (drop_bit (8 * k) d) = unat d div 256 ^ k"
    unfolding unsigned_drop_bit_eq
    by (simp add: drop_bit_eq_div power_mult take_bit_eq_mod mod_less [OF unat_u64_lt])
  then show ?thesis
    by (simp add: low_byte word_unat_eq_iff unsigned_ucast_eq unat_mod unat_of_nat take_bit_eq_mod)
qed

lemma be_bytes_map: "be_bytes n v = map (\<lambda>k. of_nat (v div 256 ^ k)) (rev [0..<n])"
  by (induction n) (simp_all add: be_bytes_Suc, simp add: be_bytes_def)

lemma size_bytes: "map (\<lambda>k. ucast (drop_bit (8 * k) (d :: u64) AND 0xff)) [6, 5, 4, 3, 2, 1, 0]
    = be_bytes 7 (unat d)"
proof -
  have "rev [0..<7] = [6, 5, 4, 3, 2, 1, 0 :: nat]" by (simp add: upt_rec)
  then show ?thesis by (simp only: byte_of_word be_bytes_map)
qed

lemma ExportWebM_ok:
  assumes "n \<le> length buf" and "FP w + n \<le> FILE_LIMIT w"
  shows "ExportWebM buf n w =
    Some (Ret (w\<lparr>FILE := put_file (FILE w) (FP w) (take n buf), FP := FP w + n\<rparr>))"
  using assms by (simp add: ExportWebM_def rdn_def fwrite_def Let_def)

text \<open>Recording the size of a cluster patches the seven size bytes and nothing else.\<close>

lemma UpdateClusterDataBytes_ok:
  assumes "cl_pos k = int p" and "id_bytes (cl_info k) = 4" and "p < 2 ^ 62"
    and "p + 12 \<le> FILE_LIMIT s"
  shows "UpdateClusterDataBytesToWebM k s = Some (Ret (s\<lparr>
     FILE := put_file (FILE s) (p + 5) (be_bytes 7 (unat (data_bytes (cl_info k)))),
     CURRENT_FPOS_W := int (FP s)\<rparr>))"
proof -
  have "off64 (of_int (int p) + 5) = int (p + 5)"
    using assms(3) by (subst off64_add) simp_all
  then have o: "off64 (of_int (cl_pos k) + ((ucast (id_bytes (cl_info k)) :: u64) + 1)) = int (p + 5)"
    by (simp add: assms(1,2))
  show ?thesis
    unfolding UpdateClusterDataBytesToWebM_def size_bytes
    using assms(4)
    by (simp add: Let_def UpdateOffsetWebM_def SeekABSWebM_def fsetpos_def ExportWebM_ok nat_add_distrib o)
qed

text \<open>
  The state of a peer's file between two blocks: the bytes \<open>done\<close> of the header and the complete
  clusters, then the header of the open cluster, whose size is recorded up to the last block, then
  the data \<open>d\<close> of the open cluster.
\<close>

definition file_inv :: "bytes \<Rightarrow> bytes \<Rightarrow> 'a store_scheme \<Rightarrow> bool" where
  "file_inv done d s \<longleftrightarrow> (\<exists>c b h i. CURRENT_CLUSTER s = Some c \<and> CURRENT_BLOCK s = Some b \<and>
     FILE s = done @ cluster_hdr h @ d \<and> FP s = length (FILE s) \<and>
     length (FILE s) < 2 ^ 56 \<and> length (FILE s) \<le> FILE_LIMIT s \<and>
     cl_pos (cl c) = int (length done) \<and> id_bytes (cl_info (cl c)) = 4 \<and>
     CURRENT_BLOCKINFO s = [i] \<and>
     (CURRENT_BLOCK_NUM s = 0 \<and> data_bytes (cl_info (cl c)) = of_nat (length d) \<or>
      CURRENT_BLOCK_NUM s = 1 \<and> data_bytes (cl_info (cl c)) + ucast (bytes i) = of_nat (length d)))"

lemma put_size: "put_file (x @ cluster_hdr h @ d) (length x + 5) (be_bytes 7 n) = x @ cluster_hdr n @ d"
proof -
  have "be_bytes 7 n \<noteq> []" using length_be_bytes [of 7 n] by (cases "be_bytes 7 n") simp_all
  then show ?thesis by (simp add: put_file_def cluster_hdr_def)
qed

text \<open>Recording what the open cluster holds: all of \<open>d\<close>.\<close>

lemma UpdateCluster_ok:
  assumes "file_inv done d s" and "count = CURRENT_BLOCK_NUM s"
  obtains c c' b i where
    "CURRENT_CLUSTER s = Some c" "CURRENT_BLOCK s = Some b" "CURRENT_BLOCKINFO s = [i]"
    "cl_pos (cl c') = int (length done)" "id_bytes (cl_info (cl c')) = 4"
    "data_bytes (cl_info (cl c')) = of_nat (length d)" "cl_prev c' = cl_prev c" "cl_seq (cl c') = cl_seq (cl c)"
    "UpdateClusterToWebM (CURRENT_BLOCKINFO s) count s = Some (Ret (s\<lparr>CURRENT_CLUSTER := Some c',
       FILE := done @ cluster_hdr (length d) @ d, CURRENT_FPOS_W := int (FP s)\<rparr>))"
proof -
  from assms(1) obtain c b h i where s: "CURRENT_CLUSTER s = Some c" "CURRENT_BLOCK s = Some b"
    "FILE s = done @ cluster_hdr h @ d" "FP s = length (FILE s)"
    "length (FILE s) < 2 ^ 56" "length (FILE s) \<le> FILE_LIMIT s"
    "cl_pos (cl c) = int (length done)" "id_bytes (cl_info (cl c)) = 4"
    "CURRENT_BLOCKINFO s = [i]"
    and n: "CURRENT_BLOCK_NUM s = 0 \<and> data_bytes (cl_info (cl c)) = of_nat (length d) \<or>
      CURRENT_BLOCK_NUM s = 1 \<and> data_bytes (cl_info (cl c)) + ucast (bytes i) = of_nat (length d)"
    unfolding file_inv_def by blast
  define t :: u64 where "t = sum_list (map (\<lambda>i. ucast (bytes i)) (take (nat count) [i]))"
  have t: "data_bytes (cl_info (cl c)) + t = of_nat (length d)" "count \<le> 1"
    using n assms(2) by (auto simp: t_def)
  define k where "k = (cl c)\<lparr>cl_info := (cl_info (cl c))\<lparr>data_bytes := data_bytes (cl_info (cl c)) + t,
      chank_bytes := chank_bytes (cl_info (cl c)) + t\<rparr>\<rparr>"
  have k: "cl_pos k = int (length done)" "id_bytes (cl_info k) = 4" "data_bytes (cl_info k) = of_nat (length d)"
    "cl_seq k = cl_seq (cl c)" using s t by (simp_all add: k_def)
  have u: "unat (of_nat (length d) :: u64) = length d" using s(3,5) by (simp add: unat_of_nat)
  have "UpdateClusterDataBytesToWebM k (s\<lparr>CURRENT_CLUSTER := Some (c\<lparr>cl := k\<rparr>)\<rparr>) =
    Some (Ret (s\<lparr>CURRENT_CLUSTER := Some (c\<lparr>cl := k\<rparr>),
       FILE := done @ cluster_hdr (length d) @ d, CURRENT_FPOS_W := int (FP s)\<rparr>))"
    using s by (subst UpdateClusterDataBytes_ok [OF k(1,2)]) (simp_all add: k(3) u put_size)
  then have "UpdateClusterToWebM (CURRENT_BLOCKINFO s) count s =
    Some (Ret (s\<lparr>CURRENT_CLUSTER := Some (c\<lparr>cl := k\<rparr>),
       FILE := done @ cluster_hdr (length d) @ d, CURRENT_FPOS_W := int (FP s)\<rparr>))"
    using t(2) s(1) by (simp add: UpdateClusterToWebM_def s(9) Let_def t_def [symmetric] k_def [symmetric])
  with s k show thesis by (intro that [where c' = "c\<lparr>cl := k\<rparr>"]) simp_all
qed

lemma RenewClusterForWrite_ok:
  assumes "CURRENT_CLUSTER s = Some c" and "CURRENT_BLOCK s = Some b" and "FP s = length (FILE s)"
    and "FP s + 12 \<le> FILE_LIMIT s"
  shows "RenewClusterForWrite s = Some (Ret (s\<lparr>CURRENT_CLUSTER := Some (c\<lparr>cl := (cl c)\<lparr>
       cl_pos := CURRENT_FPOS_W s, cl_seq := ucast (cluster_seq (info b)),
       cl_info := \<lparr>chank_id = CLUSTER_ID, id_bytes = 4, data_header_position = 12, data_bytes = 0,
         chank_bytes = 12\<rparr>\<rparr>\<rparr>),
     FILE := FILE s @ cluster_hdr (2 ^ 56 - 1), FP := FP s + 12\<rparr>))"
  using assms(4)
  by (simp add: RenewClusterForWrite_def assms(1-3) ExportWebM_ok FOOTER_hdr CLUSTER_HEADER_BYTES_def
      put_file_end CLUSTER_ID_BYTES_def)

text \<open>While a block is inserted: \<open>xs\<close> is in the file but not yet counted by the cluster.\<close>

definition file_mid :: "bytes \<Rightarrow> bytes \<Rightarrow> bytes \<Rightarrow> 'a store_scheme \<Rightarrow> bool" where
  "file_mid done d xs s \<longleftrightarrow> (\<exists>c b h i. CURRENT_CLUSTER s = Some c \<and> CURRENT_BLOCK s = Some b \<and>
     FILE s = done @ cluster_hdr h @ d @ xs \<and> FP s = length (FILE s) \<and>
     length (FILE s) < 2 ^ 56 \<and> length (FILE s) \<le> FILE_LIMIT s \<and>
     cl_pos (cl c) = int (length done) \<and> id_bytes (cl_info (cl c)) = 4 \<and>
     CURRENT_BLOCKINFO s = [i] \<and> CURRENT_BLOCK_NUM s = 0 \<and>
     data_bytes (cl_info (cl c)) = of_nat (length d))"

lemma file_mid_0: "file_mid done d [] s \<longleftrightarrow> file_inv done d s \<and> CURRENT_BLOCK_NUM s = 0"
  by (auto simp: file_mid_def file_inv_def)

text \<open>The numbers of the open cluster and of the one before it.\<close>

definition cl_seqs :: "'a store_scheme \<Rightarrow> (u32 \<times> u32) option" where
  "cl_seqs s = map_option (\<lambda>c. (cl_seq (cl c), cl_seq (cl_prev c))) (CURRENT_CLUSTER s)"

text \<open>The fields that neither recording nor writing touches.\<close>

definition same_frame :: "'a store_scheme \<Rightarrow> 'a store_scheme \<Rightarrow> bool" where
  "same_frame s t \<longleftrightarrow> CURRENT_BLOCK t = CURRENT_BLOCK s \<and> FILE_LIMIT t = FILE_LIMIT s \<and>
     IS_GET_TIMECODE_OFFSET t = IS_GET_TIMECODE_OFFSET s \<and> TIMECODE_OFFSET t = TIMECODE_OFFSET s \<and>
     NODE_TIMECODE_OFFSET t = NODE_TIMECODE_OFFSET s \<and> TOTAL_FILE_BYTES t = TOTAL_FILE_BYTES s \<and>
     TOTAL_BLOCK_NUM t = TOTAL_BLOCK_NUM s \<and> LATEST_BLOCK_SEQ t = LATEST_BLOCK_SEQ s"

lemma UpdateWebM_id: "UpdateWebM FposW s = s\<lparr>CURRENT_FPOS_W := int (FP s)\<rparr>"
  by (simp add: UpdateWebM_def UpdateOffsetWebM_def OpenWebM_def SeekABSWebM_def fsetpos_def)

lemma assemble_flush_ok:
  assumes "file_inv done d s"
  shows "\<exists>s'. assemble_flush s = Some (Ret s') \<and> file_mid done d [] s' \<and> same_frame s s'
    \<and> length (FILE s') = length (FILE s) \<and> cl_seqs s' = cl_seqs s"
proof (cases "CURRENT_BLOCK_NUM s = 0")
  case True
  with assms show ?thesis by (auto simp: assemble_flush_def file_mid_0 same_frame_def)
next
  case False
  with assms have n: "CURRENT_BLOCK_NUM s = 1" by (auto simp: file_inv_def)
  obtain c c' b i where u: "CURRENT_CLUSTER s = Some c" "CURRENT_BLOCK s = Some b"
    "CURRENT_BLOCKINFO s = [i]"
    "cl_pos (cl c') = int (length done)" "id_bytes (cl_info (cl c')) = 4"
    "data_bytes (cl_info (cl c')) = of_nat (length d)" "cl_prev c' = cl_prev c" "cl_seq (cl c') = cl_seq (cl c)"
    "UpdateClusterToWebM (CURRENT_BLOCKINFO s) 1 s = Some (Ret (s\<lparr>CURRENT_CLUSTER := Some c',
       FILE := done @ cluster_hdr (length d) @ d, CURRENT_FPOS_W := int (FP s)\<rparr>))"
    by (rule UpdateCluster_ok [OF assms n [symmetric]])
  from assms have l: "length (FILE s) = length done + 12 + length d" "FP s = length (FILE s)"
    "length (FILE s) < 2 ^ 56" "length (FILE s) \<le> FILE_LIMIT s" by (auto simp: file_inv_def)
  then show ?thesis
    by (simp add: assemble_flush_def n MAX_BLOCKS_NUM_def u(1-8) u(9) [unfolded u(3)] UpdateWebM_id RenewBlockInfos_def
        file_mid_def same_frame_def cl_seqs_def, blast)
qed

lemma ExportWebM_mid:
  assumes "file_mid done d [] s" and "n \<le> length data"
    and "length (FILE s) + n < 2 ^ 56" and "length (FILE s) + n \<le> FILE_LIMIT s"
  shows "\<exists>s'. ExportWebM data n s = Some (Ret s') \<and> file_mid done d (take n data) s' \<and> same_frame s s' \<and>
    cl_seqs s' = cl_seqs s"
proof -
  from assms(1) have f: "FP s = length (FILE s)" by (auto simp: file_mid_def)
  show ?thesis
    by (subst ExportWebM_ok)
      (use assms f in \<open>auto simp: file_mid_def same_frame_def put_file_end cl_seqs_def\<close>)
qed

lemma InsertBlock_ok:
  assumes "file_mid done d [] s" and "CURRENT_BLOCK s = Some b" and "unat n + 18 \<le> length data"
    and "length (FILE s) + 12 + unat n < 2 ^ 56" and "length (FILE s) + 12 + unat n \<le> FILE_LIMIT s"
    and "cl_seqs s = Some (q, p)"
  shows "\<exists>s'. InsertBlockToCluster data n s = Some (Ret s') \<and> same_frame s s' \<and>
    (if cluster_seq (prev b) = cluster_seq (info b)
     then file_mid done d (take (unat n) (drop 18 data)) s' \<and> cl_seqs s' = Some (q, p)
     else file_mid (done @ cluster_enc d) [] (take (unat n) (drop 18 data)) s' \<and>
       cl_seqs s' = Some (ucast (cluster_seq (info b)), q))"
proof (cases "cluster_seq (prev b) = cluster_seq (info b)")
  case True
  have "unat n \<le> length (drop 18 data)" using assms(3) by simp
  from ExportWebM_mid [OF assms(1) this] assms(4-6) obtain s' where
    "ExportWebM (drop 18 data) (unat n) s = Some (Ret s')" "same_frame s s'" "cl_seqs s' = Some (q, p)"
    "file_mid done d (take (unat n) (drop 18 data)) s'" by auto
  with True assms(2) show ?thesis by (simp add: InsertBlockToCluster_def CheckClusterSeq_def)
next
  case False
  from assms(1) have inv: "file_inv done d s" and n: "CURRENT_BLOCK_NUM s = 0"
    and l: "FP s = length (FILE s)" "length (FILE s) = length done + 12 + length d"
    by (auto simp: file_mid_0, auto simp: file_mid_def)
  obtain c c' i where u: "CURRENT_CLUSTER s = Some c" "CURRENT_BLOCKINFO s = [i]" "cl_seq (cl c') = cl_seq (cl c)"
    "UpdateClusterToWebM (CURRENT_BLOCKINFO s) 0 s = Some (Ret (s\<lparr>CURRENT_CLUSTER := Some c',
       FILE := done @ cluster_hdr (length d) @ d, CURRENT_FPOS_W := int (FP s)\<rparr>))"
    by (rule UpdateCluster_ok [OF inv n [symmetric]])
  have q: "cl_seq (cl c') = q" using assms(6) u(1,3) by (simp add: cl_seqs_def)
  define s1 where "s1 = s\<lparr>FILE := done @ cluster_hdr (length d) @ d, CURRENT_FPOS_W := int (FP s),
    CURRENT_CLUSTER := Some (ShiftToPreCluster c')\<rparr>"
  have "\<exists>s2. RenewClusterForWrite s1 = Some (Ret s2) \<and> same_frame s s2 \<and>
      cl_seqs s2 = Some (ucast (cluster_seq (info b)), q) \<and>
      file_mid (done @ cluster_enc d) [] [] (s2\<lparr>CURRENT_BLOCK_NUM := 0\<rparr>) \<and>
      length (FILE s2) = length (FILE s) + 12"
    by (subst RenewClusterForWrite_ok [of s1 "ShiftToPreCluster c'" b])
      (use l u(2) q assms n in \<open>auto simp: s1_def same_frame_def file_mid_def cluster_enc_def cl_seqs_def
        ShiftToPreCluster_def\<close>)
  then obtain s2 where s2: "RenewClusterForWrite s1 = Some (Ret s2)" "same_frame s s2"
      "file_mid (done @ cluster_enc d) [] [] (s2\<lparr>CURRENT_BLOCK_NUM := 0\<rparr>)"
      "length (FILE s2) = length (FILE s) + 12"
      "cl_seqs (s2\<lparr>CURRENT_BLOCK_NUM := 0\<rparr>) = Some (ucast (cluster_seq (info b)), q)"
    by (auto simp: cl_seqs_def)
  have "\<exists>s'. ExportWebM (drop 18 data) (unat n) (s2\<lparr>CURRENT_BLOCK_NUM := 0\<rparr>) = Some (Ret s') \<and>
      file_mid (done @ cluster_enc d) [] (take (unat n) (drop 18 data)) s' \<and>
      same_frame (s2\<lparr>CURRENT_BLOCK_NUM := 0\<rparr>) s' \<and> cl_seqs s' = cl_seqs (s2\<lparr>CURRENT_BLOCK_NUM := 0\<rparr>)"
    by (rule ExportWebM_mid [OF s2(3)]) (use assms s2 in \<open>simp_all add: same_frame_def\<close>)
  then obtain s' where "ExportWebM (drop 18 data) (unat n) (s2\<lparr>CURRENT_BLOCK_NUM := 0\<rparr>) = Some (Ret s')"
      "file_mid (done @ cluster_enc d) [] (take (unat n) (drop 18 data)) s'"
      "same_frame (s2\<lparr>CURRENT_BLOCK_NUM := 0\<rparr>) s'" "cl_seqs s' = Some (ucast (cluster_seq (info b)), q)"
    using s2(5) by auto
  with s2(1,2) u(4) False show ?thesis
    by (simp add: InsertBlockToCluster_def CheckClusterSeq_def assms(2) n s1_def same_frame_def)
qed

section \<open>Timecodes\<close>

lemma read_timestamp_val:
  "p + n \<le> length data \<Longrightarrow> read_timestamp data p n t =
     Some (t * 256 ^ n + of_nat (be_val (take n (drop p data))))"
proof (induction n arbitrary: p t)
  case 0
  show ?case by simp
next
  case (Suc n)
  then have d: "take (Suc n) (drop p data) = data ! p # take n (drop (Suc p) data)"
    by (simp add: Cons_nth_drop_Suc [symmetric])
  have p: "push_bit 8 t = t * (256 :: u64)" by (simp add: push_bit_eq_mult)
  have l: "length (take n (drop (Suc p) data)) = n" using Suc.prems by simp
  show ?case using Suc.prems Suc.IH [of "Suc p" "push_bit 8 t + ucast (data ! p)"]
    by (simp add: rd_def d be_val_Cons l p algebra_simps del: take_Suc_Cons)
qed

lemma write_timestamp_val:
  "n \<le> 8 \<Longrightarrow> p + n \<le> length data \<Longrightarrow> write_timestamp data p n t =
     Some (take p data @ be_bytes n (unat t) @ drop (p + n) data)"
proof (induction n arbitrary: p data)
  case 0
  show ?case by (simp add: be_bytes_def)
next
  case (Suc n)
  then have w: "wrn data p [ucast (drop_bit (8 * n) t AND 0xff)] =
      Some (take p data @ [of_nat (unat t div 256 ^ n)] @ drop (Suc p) data)"
    unfolding byte_of_word by (simp add: wrn_def)
  from Suc show ?case by (simp add: w Suc.IH be_bytes_Suc add.commute)
qed

lemma write_timestamp_length: "write_timestamp data p n t = Some data' \<Longrightarrow> length data' = length data"
  by (induction n arbitrary: data p) (auto simp: bind_eq_Some_conv split: if_splits dest!: length_wrn)

text \<open>What \<^verbatim>\<open>ChangeTimecode\<close> does to the data depends on three fields only, and it touches two.\<close>

lemma timecode_eta:
  "IS_GET_TIMECODE_OFFSET s \<Longrightarrow>
     s\<lparr>IS_GET_TIMECODE_OFFSET := True\<rparr> = s"
  by (rule store.equality) simp_all

lemma ChangeTimecode_eq:
  "ChangeTimecode data s = do {
     timecode \<leftarrow> GetChank data;
     if chank_id timecode = TIMECODE_ID then do {
       t \<leftarrow> read_timestamp data (unat (data_header_position timecode)) (unat (data_bytes timecode)) 0;
       let off = (if IS_GET_TIMECODE_OFFSET s then TIMECODE_OFFSET s else t + NODE_TIMECODE_OFFSET s);
       data \<leftarrow> write_timestamp data (unat (data_header_position timecode)) (unat (data_bytes timecode))
         (t + NODE_TIMECODE_OFFSET s - off);
       Some (Ret (data, s\<lparr>TIMECODE_OFFSET := off, IS_GET_TIMECODE_OFFSET := True\<rparr>))
     } else Some (Exit s)
   }"
proof (cases "IS_GET_TIMECODE_OFFSET s")
  case True
  show ?thesis 
    by (simp add: True Let_def ChangeTimecode_def cong: if_cong) (simp only: timecode_eta [OF True])
next
  case False
  then show ?thesis by (simp add: ChangeTimecode_def Let_def cong: if_cong)
qed

lemma ChangeTimecode_frame:
  assumes "ChangeTimecode d s = Some (Ret (pd, t))"
    and "IS_GET_TIMECODE_OFFSET s2 = IS_GET_TIMECODE_OFFSET s" "TIMECODE_OFFSET s2 = TIMECODE_OFFSET s"
      "NODE_TIMECODE_OFFSET s2 = NODE_TIMECODE_OFFSET s"
  shows "\<exists>x. ChangeTimecode d s2 =
      Some (Ret (pd, s2\<lparr>TIMECODE_OFFSET := x, IS_GET_TIMECODE_OFFSET := True\<rparr>)) \<and> length pd = length d"
proof -
  define off where "off u = (if IS_GET_TIMECODE_OFFSET s then TIMECODE_OFFSET s
      else u + NODE_TIMECODE_OFFSET s)" for u
  from assms(1) obtain c where c: "GetChank d = Some c"
    by (cases "GetChank d") (simp_all add: ChangeTimecode_eq)
  from assms(1) have i: "chank_id c = TIMECODE_ID"
    by (rule contrapos_pp) (simp add: ChangeTimecode_eq c)
  from assms(1) obtain u where
    u: "read_timestamp d (unat (data_header_position c)) (unat (data_bytes c)) 0 = Some u"
    by (cases "read_timestamp d (unat (data_header_position c)) (unat (data_bytes c)) 0")
      (simp_all add: ChangeTimecode_eq c i)
  from assms(1) have w: "write_timestamp d (unat (data_header_position c)) (unat (data_bytes c))
      (u + NODE_TIMECODE_OFFSET s - off u) = Some pd"
    unfolding ChangeTimecode_eq off_def [symmetric] Let_def by (simp add: c i u bind_eq_Some_conv)
  have "ChangeTimecode d s2 = Some (Ret (pd, s2\<lparr>TIMECODE_OFFSET := off u, IS_GET_TIMECODE_OFFSET := True\<rparr>))"
    unfolding ChangeTimecode_eq assms(2-4) off_def [symmetric] Let_def by (simp add: c i u w)
  with write_timestamp_length [OF w] show ?thesis by blast
qed

text \<open>The offset it leaves does not depend on the rest of the state either.\<close>

lemma ChangeTimecode_offset:
  assumes "ChangeTimecode d s2 = Some (Ret (pd, t))"
    and "IS_GET_TIMECODE_OFFSET s = IS_GET_TIMECODE_OFFSET s2" "TIMECODE_OFFSET s = TIMECODE_OFFSET s2"
      "NODE_TIMECODE_OFFSET s = NODE_TIMECODE_OFFSET s2"
  shows "\<exists>u. ChangeTimecode d s = Some (Ret (pd, u)) \<and>
    IS_GET_TIMECODE_OFFSET t = IS_GET_TIMECODE_OFFSET u \<and> TIMECODE_OFFSET t = TIMECODE_OFFSET u"
proof -
  from assms(1) obtain c where c: "GetChank d = Some c"
    by (cases "GetChank d") (simp_all add: ChangeTimecode_eq)
  from assms(1) have "chank_id c = TIMECODE_ID"
    by (rule contrapos_pp) (simp add: ChangeTimecode_eq c)
  with assms show ?thesis by (auto simp: ChangeTimecode_eq c Let_def bind_eq_Some_conv)
qed

lemma GetChank_timecode:
  assumes "vint_ok k n"
  shows "GetChank (be_bytes 1 0xe7 @ vint k n @ rest) = Some
     \<lparr>chank_id = TIMECODE_ID, id_bytes = 1, data_header_position = of_nat (1 + k),
      data_bytes = of_nat (if n = 2 ^ 56 - 1 then 0 else n),
      chank_bytes = of_nat (1 + k + (if n = 2 ^ 56 - 1 then 0 else n))\<rparr>"
proof -
  have "id_ok 1 0xe7" by (simp add: id_ok_def)
  from GetChank_enc [OF this assms] show ?thesis by (simp add: TIMECODE_ID_def Let_def)
qed

lemma timecode_rebase:
  assumes "length t \<le> 8" and "vint_ok k (length t)"
  shows "ChangeTimecode (be_bytes 1 0xe7 @ vint k (length t) @ t @ rest) s =
    (let abs_time = of_nat (be_val t) + NODE_TIMECODE_OFFSET s;
         off = (if IS_GET_TIMECODE_OFFSET s then TIMECODE_OFFSET s else abs_time)
     in Some (Ret (be_bytes 1 0xe7 @ vint k (length t) @ be_bytes (length t) (unat (abs_time - off)) @ rest,
          s\<lparr>TIMECODE_OFFSET := off, IS_GET_TIMECODE_OFFSET := True\<rparr>)))"
proof -
  define h where "h = be_bytes 1 0xe7 @ vint k (length t)"
  have "length (vint k (length t)) = k" using assms(2) by (simp add: vint_def)
  then have l: "length h = 1 + k" by (simp add: h_def)
  have k: "k \<le> 8" using assms(2) by (simp add: vint_ok_def)
  define c where "c = \<lparr>chank_id = TIMECODE_ID, id_bytes = 1, data_header_position = of_nat (1 + k),
      data_bytes = of_nat (length t), chank_bytes = of_nat (1 + k + length t)\<rparr>"
  have "unat (of_nat (1 + k) :: u16) = 1 + k" using k by (simp add: unat_of_nat del: of_nat_add of_nat_Suc)
  then have c: "GetChank (h @ t @ rest) = Some c" "chank_id c = TIMECODE_ID"
    "unat (data_header_position c) = length h" "unat (data_bytes c) = length t"
    using GetChank_timecode [OF assms(2), of "t @ rest"] assms(1) k
    by (auto simp: h_def c_def l [unfolded h_def] unat_of_nat)
  have r: "read_timestamp (h @ t @ rest) (length h) (length t) 0 = Some (of_nat (be_val t))"
    by (subst read_timestamp_val) simp_all
  have w: "write_timestamp (h @ t @ rest) (length h) (length t) x =
      Some (h @ be_bytes (length t) (unat x) @ rest)" for x
    using assms(1) by (subst write_timestamp_val) simp_all
  have "ChangeTimecode (h @ t @ rest) s =
    (let abs_time = of_nat (be_val t) + NODE_TIMECODE_OFFSET s;
         off = (if IS_GET_TIMECODE_OFFSET s then TIMECODE_OFFSET s else abs_time)
     in Some (Ret (h @ be_bytes (length t) (unat (abs_time - off)) @ rest,
          s\<lparr>TIMECODE_OFFSET := off, IS_GET_TIMECODE_OFFSET := True\<rparr>)))"
    unfolding ChangeTimecode_eq Let_def by (simp add: c r w)
  then show ?thesis by (simp only: h_def append_assoc)
qed

text \<open>
  C27: \<^verbatim>\<open>ChangeTimecode\<close> rebases the clock of a cluster in place: the timestamp of up to eight
  bytes becomes its distance, modulo its width, from the first timestamp this peer has seen, both
  taken on the clock of the origin (\<^verbatim>\<open>NODE_TIMECODE_OFFSET\<close> added), and no other byte of the
  packet changes.
\<close>

theorem ChangeTimecode_rebases:
  assumes "length t \<le> 8" and "vint_ok k (length t)"
  shows "ChangeTimecode (be_bytes 1 0xe7 @ vint k (length t) @ t @ rest) s =
    (let abs_time = of_nat (be_val t) + NODE_TIMECODE_OFFSET s;
         off = (if IS_GET_TIMECODE_OFFSET s then TIMECODE_OFFSET s else abs_time)
     in Some (Ret (be_bytes 1 0xe7 @ vint k (length t) @ be_bytes (length t) (unat (abs_time - off)) @ rest,
          s\<lparr>TIMECODE_OFFSET := off, IS_GET_TIMECODE_OFFSET := True\<rparr>)))"
  using timecode_rebase [OF assms] .

definition store0 :: "bytes \<Rightarrow> store" where
  "store0 f = webm.extend (webm0 f) \<lparr>CURRENT_CLUSTER = Some \<lparr>
       cl = \<lparr>cl_info = Chank0\<lparr>id_bytes := 4\<rparr>, cl_pos = 0, cl_seq = 0, cl_option = 0\<rparr>,
       cl_prev = \<lparr>cl_info = Chank0, cl_pos = 0, cl_seq = 0, cl_option = 0\<rparr>\<rparr>,
     CURRENT_BLOCK = Some \<lparr>info = block_info0, prev = block_info0\<rparr>, CURRENT_CHILD_BLOCK = [None, None],
     CURRENT_BLOCKINFO = [block_info0], CURRENT_BLOCK_NUM = 0, TOTAL_BLOCK_NUM = 0,
     LATEST_BLOCK_SEQ = 0, IS_FIRST_CLUSTER = True, TIMECODE_OFFSET = 0, NODE_TIMECODE_OFFSET = 0,
     IS_GET_TIMECODE_OFFSET = False, HEAP_C = (\<lambda>_. \<lparr>cl_info = Chank0, cl_pos = 0, cl_seq = 0, cl_option = 0\<rparr>),
     HEAP_B = (\<lambda>_. block_info0), HEAP_N = 0\<rparr>"

lemma store0_sel:
  "FILE (store0 f) = f" "FP (store0 f) = 0" "FILE_LIMIT (store0 f) = 2 ^ 40"
  "TOTAL_FILE_BYTES (store0 f) = int (length f)" "CURRENT_BLOCKINFO (store0 f) = [block_info0]"
  "CURRENT_CLUSTER (store0 f) = Some \<lparr>
     cl = \<lparr>cl_info = Chank0\<lparr>id_bytes := 4\<rparr>, cl_pos = 0, cl_seq = 0, cl_option = 0\<rparr>,
     cl_prev = \<lparr>cl_info = Chank0, cl_pos = 0, cl_seq = 0, cl_option = 0\<rparr>\<rparr>"
  "CURRENT_BLOCK (store0 f) = Some \<lparr>info = block_info0, prev = block_info0\<rparr>"
  "CURRENT_BLOCK_NUM (store0 f) = 0" "LATEST_BLOCK_SEQ (store0 f) = 0"
  "NODE_TIMECODE_OFFSET (store0 f) = 0"
  by (simp_all add: store0_def webm0_def webm.defs)

theorem ChangeTimecode_rebases_witness:
  "ChangeTimecode (be_bytes 1 0xe7 @ vint 1 2 @ [1, 5] @ [9])
     (store0 []\<lparr>TIMECODE_OFFSET := 7, IS_GET_TIMECODE_OFFSET := True\<rparr>) =
   Some (Ret (be_bytes 1 0xe7 @ vint 1 2 @ be_bytes 2 254 @ [9],
     store0 []\<lparr>TIMECODE_OFFSET := 7, IS_GET_TIMECODE_OFFSET := True\<rparr>))"
proof -
  have l: "length [1 :: u8, 5] = 2" by simp
  have v: "be_val [1, 5] = 261" by (simp add: be_val_Cons)
  show ?thesis
    using ChangeTimecode_rebases [of "[1, 5]" 1 "[9]"
      "store0 []\<lparr>TIMECODE_OFFSET := 7, IS_GET_TIMECODE_OFFSET := True\<rparr>", unfolded l v]
    by (simp add: vint_ok_def store0_sel)
qed

section \<open>Reassembling the stream\<close>

lemma CopyBytes_indep:
  "CopyBytesToBlockInfo (i0 :: block_info) data = CopyBytesToBlockInfo (i1 :: block_info) data"
proof (cases "length data < 18")
  case True
  then show ?thesis by (simp add: info_codec.get_short)
next
  case False
  then obtain x y where xy: "CopyBytesToBlockInfo i0 data = Some x" "CopyBytesToBlockInfo i1 data = Some y"
    by (auto simp: not_less CopyBytesToBlockInfo_def rdn_def Let_def)
  then have "info_wire x = info_wire y"
    by (simp add: info_codec.wire_get [OF xy(1)] info_codec.wire_get [OF xy(2)])
  then show ?thesis using xy info_codec.wire_inject [of x y] by simp
qed

lemma CopyBytes_take:
  assumes "CopyBytesToBlockInfo (i0 :: block_info) data = Some i"
  shows "CopyBytesToBlockInfo (i1 :: block_info) (take 18 data @ x) = Some i"
proof -
  have "take 18 data = info_wire i" using info_codec.wire_get [OF assms] by simp
  then show ?thesis using info_codec.get_wire [of i1 i x] by simp
qed

lemma file_inv_cong:
  assumes "file_inv done d s" and "CURRENT_BLOCK t \<noteq> None"
    and "CURRENT_CLUSTER t = CURRENT_CLUSTER s" "FILE t = FILE s" "FP t = FP s"
      "FILE_LIMIT t = FILE_LIMIT s" "CURRENT_BLOCKINFO t = CURRENT_BLOCKINFO s"
      "CURRENT_BLOCK_NUM t = CURRENT_BLOCK_NUM s"
  shows "file_inv done d t"
  using assms by (auto simp: file_inv_def)

lemma file_mid_cong:
  assumes "file_mid done d xs s" and "CURRENT_BLOCK t \<noteq> None"
    and "CURRENT_CLUSTER t = CURRENT_CLUSTER s" "FILE t = FILE s" "FP t = FP s"
      "FILE_LIMIT t = FILE_LIMIT s" "CURRENT_BLOCKINFO t = CURRENT_BLOCKINFO s"
      "CURRENT_BLOCK_NUM t = CURRENT_BLOCK_NUM s"
  shows "file_mid done d xs t"
  using assms by (auto simp: file_mid_def)

text \<open>The last step counts the block that was written.\<close>

lemma file_mid_count:
  assumes "file_mid done d xs s" and "length xs = unat (bytes i)"
  shows "file_inv done (d @ xs) (s\<lparr>CURRENT_BLOCKINFO := [i], TOTAL_FILE_BYTES := x,
     TOTAL_BLOCK_NUM := y, CURRENT_BLOCK := Some b, CURRENT_BLOCK_NUM := 1\<rparr>)"
proof -
  have "(ucast (bytes i) :: u64) = of_nat (length xs)" by (simp add: assms(2))
  with assms(1) show ?thesis by (auto simp: file_mid_def file_inv_def)
qed

text \<open>The data of a block after the timecode of a first block is rebased.\<close>

lemma payload_of_block:
  assumes "if seq i = 1 then \<exists>t. ChangeTimecode (drop 18 data) s = Some (Ret (pd, t))
           else pd = drop 18 data"
    and "IS_GET_TIMECODE_OFFSET s2 = IS_GET_TIMECODE_OFFSET s" "TIMECODE_OFFSET s2 = TIMECODE_OFFSET s"
      "NODE_TIMECODE_OFFSET s2 = NODE_TIMECODE_OFFSET s"
  shows "\<exists>x y. (if seq i = 1 then ChangeTimecode (drop 18 data) s2 else Some (Ret (drop 18 data, s2))) =
      Some (Ret (pd, s2\<lparr>TIMECODE_OFFSET := x, IS_GET_TIMECODE_OFFSET := y\<rparr>)) \<and> length pd = length data - 18"
proof (cases "seq i = 1")
  case True
  with assms(1) obtain t where "ChangeTimecode (drop 18 data) s = Some (Ret (pd, t))" by auto
  from ChangeTimecode_frame [OF this assms(2-4)] True show ?thesis by auto
next
  case False
  show ?thesis
    by (intro exI [of _ "TIMECODE_OFFSET s2"] exI [of _ "IS_GET_TIMECODE_OFFSET s2"])
      (use False assms(1) in simp)
qed

text \<open>
  The two halves of a block that is not old: up to the timecode, which may change the data and the
  offset only, and the writing.
\<close>

lemma assemble_block_prefix:
  assumes inv: "file_inv done d s" and b: "CURRENT_BLOCK s = Some b" and q: "cl_seqs s = Some (q, p)"
    and i: "CopyBytesToBlockInfo block_info0 data = Some i" and new: "IsOldBlockSeq i s = Some False"
    and pd: "if seq i = 1 then \<exists>t. ChangeTimecode (drop 18 data) s = Some (Ret (pd, t))
             else pd = drop 18 data"
  obtains t where "assemble_block data n s = assemble_write (take 18 data @ pd) (n - 18) i t"
    "file_mid done d [] t" "CURRENT_BLOCK t = Some (b\<lparr>info := i\<rparr>)" "FILE_LIMIT t = FILE_LIMIT s"
    "length (FILE t) = length (FILE s)" "TOTAL_BLOCK_NUM t = TOTAL_BLOCK_NUM s" "length pd = length data - 18"
    "NODE_TIMECODE_OFFSET t = NODE_TIMECODE_OFFSET s" "cl_seqs t = Some (q, p)"
    "if seq i = 1 then \<exists>u. ChangeTimecode (drop 18 data) s = Some (Ret (pd, u)) \<and>
       IS_GET_TIMECODE_OFFSET t = IS_GET_TIMECODE_OFFSET u \<and> TIMECODE_OFFSET t = TIMECODE_OFFSET u
     else IS_GET_TIMECODE_OFFSET t = IS_GET_TIMECODE_OFFSET s \<and> TIMECODE_OFFSET t = TIMECODE_OFFSET s"
proof -
  define s0 where "s0 = (if IS_FIRST_CLUSTER s
    then s\<lparr>FIRST_CLUSTER_SEQ := ucast (cluster_seq i), IS_FIRST_CLUSTER := False\<rparr> else s)"
  have s0: "file_inv done d s0" "same_frame s s0" "FILE s0 = FILE s" "cl_seqs s0 = cl_seqs s"
    by (rule file_inv_cong [OF inv]) (simp_all add: s0_def b same_frame_def cl_seqs_def)
  obtain s1 where s1: "assemble_flush s0 = Some (Ret s1)" "file_mid done d [] s1" "same_frame s0 s1"
    "length (FILE s1) = length (FILE s0)" "cl_seqs s1 = cl_seqs s0"
    using assemble_flush_ok [OF s0(1)] by blast
  define s2 where "s2 = s1\<lparr>CURRENT_BLOCK := Some (b\<lparr>info := i\<rparr>)\<rparr>"
  have eqs: "IS_GET_TIMECODE_OFFSET s2 = IS_GET_TIMECODE_OFFSET s" "TIMECODE_OFFSET s2 = TIMECODE_OFFSET s"
    "NODE_TIMECODE_OFFSET s2 = NODE_TIMECODE_OFFSET s"
    using s0(2) s1(3) by (simp_all add: s2_def same_frame_def)
  from payload_of_block [OF pd eqs] obtain x y where ct:
    "(if seq i = 1 then ChangeTimecode (drop 18 data) s2 else Some (Ret (drop 18 data, s2))) =
      Some (Ret (pd, s2\<lparr>TIMECODE_OFFSET := x, IS_GET_TIMECODE_OFFSET := y\<rparr>))" and lpd: "length pd = length data - 18"
    by blast
  define t where "t = s2\<lparr>TIMECODE_OFFSET := x, IS_GET_TIMECODE_OFFSET := y\<rparr>"
  have b1: "CURRENT_BLOCK s1 = Some b" using s0(2) s1(3) b by (simp add: same_frame_def)
  have "assemble_block data n s = (do {
      r \<leftarrow> (if seq i = 1 then ChangeTimecode (drop 18 data) s2 else Some (Ret (drop 18 data, s2)));
      cont r (\<lambda>(bd, s). assemble_write (take 18 data @ bd) (n - 18) i s) })"
    using b1 CopyBytes_indep [of "info b" data block_info0]
    by (simp add: assemble_block_def i new s0_def [symmetric] s1(1) FIRST_BLOCK_SEQ_def s2_def Let_def)
  then have "assemble_block data n s = assemble_write (take 18 data @ pd) (n - 18) i t"
    unfolding ct by (simp add: t_def)
  moreover have "file_mid done d [] t" by (rule file_mid_cong [OF s1(2)]) (simp_all add: t_def s2_def)
  moreover have "if seq i = 1 then \<exists>u. ChangeTimecode (drop 18 data) s = Some (Ret (pd, u)) \<and>
       IS_GET_TIMECODE_OFFSET t = IS_GET_TIMECODE_OFFSET u \<and> TIMECODE_OFFSET t = TIMECODE_OFFSET u
     else IS_GET_TIMECODE_OFFSET t = IS_GET_TIMECODE_OFFSET s \<and> TIMECODE_OFFSET t = TIMECODE_OFFSET s"
  proof (cases "seq i = 1")
    case True
    with ct have "ChangeTimecode (drop 18 data) s2 = Some (Ret (pd, t))" by (simp add: t_def)
    from ChangeTimecode_offset [OF this eqs [symmetric]] True show ?thesis by simp
  next
    case False
    with ct have "s2 = t" by (simp add: t_def)
    with False eqs show ?thesis by simp
  qed
  moreover have "CURRENT_BLOCK t = Some (b\<lparr>info := i\<rparr>)" "FILE_LIMIT t = FILE_LIMIT s"
    "length (FILE t) = length (FILE s)" "TOTAL_BLOCK_NUM t = TOTAL_BLOCK_NUM s"
    "NODE_TIMECODE_OFFSET t = NODE_TIMECODE_OFFSET s"
    using s0 s1 by (simp_all add: t_def s2_def same_frame_def)
  moreover have "cl_seqs t = Some (q, p)" using s0(4) s1(5) q by (simp add: t_def s2_def cl_seqs_def)
  ultimately show thesis using that lpd by blast
qed

lemma assemble_write_ok:
  assumes "file_mid done d [] s" and "CURRENT_BLOCK s = Some b" "info b = i" and "cl_seqs s = Some (q, p)"
    and i: "CopyBytesToBlockInfo block_info0 data = Some i" and len: "unat (bytes i) + 18 \<le> length data"
    and room: "length (FILE s) + 12 + unat (bytes i) < 2 ^ 56"
      "length (FILE s) + 12 + unat (bytes i) \<le> FILE_LIMIT s"
  obtains s' where "assemble_write data n i s = Some (Ret s')"
    "if cluster_seq (prev b) = cluster_seq i
     then file_inv done (d @ take (unat (bytes i)) (drop 18 data)) s' \<and> cl_seqs s' = Some (q, p)
     else file_inv (done @ cluster_enc d) (take (unat (bytes i)) (drop 18 data)) s' \<and>
       cl_seqs s' = Some (ucast (cluster_seq i), q)"
    "LATEST_BLOCK_SEQ s' = seq i" "TOTAL_BLOCK_NUM s' = TOTAL_BLOCK_NUM s + 1"
    "CURRENT_BLOCK s' = Some \<lparr>info = block_info0, prev = i\<rparr>"
    "FILE_LIMIT s' = FILE_LIMIT s" "NODE_TIMECODE_OFFSET s' = NODE_TIMECODE_OFFSET s"
    "IS_GET_TIMECODE_OFFSET s' = IS_GET_TIMECODE_OFFSET s" "TIMECODE_OFFSET s' = TIMECODE_OFFSET s"
proof -
  define s3 where "s3 = s\<lparr>LATEST_BLOCK_SEQ := seq i\<rparr>"
  have m: "file_mid done d [] s3" by (rule file_mid_cong [OF assms(1)]) (simp_all add: s3_def assms(2))
  let ?xs = "take (unat (bytes i)) (drop 18 data)"
  obtain s4 where s4: "InsertBlockToCluster data (bytes i) s3 = Some (Ret s4)" "same_frame s3 s4"
    "if cluster_seq (prev b) = cluster_seq i then file_mid done d ?xs s4 \<and> cl_seqs s4 = Some (q, p)
     else file_mid (done @ cluster_enc d) [] ?xs s4 \<and> cl_seqs s4 = Some (ucast (cluster_seq i), q)"
    using InsertBlock_ok [OF m, of b "bytes i" data q p] assms by (auto simp: s3_def cl_seqs_def)
  have b4: "CURRENT_BLOCK s4 = Some b" using s4(2) assms(2) by (simp add: s3_def same_frame_def)
  have k: "CURRENT_BLOCK_NUM s4 = 0" "length (CURRENT_BLOCKINFO s4) = 1"
    using s4(3) by (auto simp: file_mid_def split: if_splits)
  then have one: "(CURRENT_BLOCKINFO s4)[0 := i] = [i]" by (cases "CURRENT_BLOCKINFO s4") auto
  define s5 where "s5 = s4\<lparr>CURRENT_BLOCKINFO := [i], TOTAL_FILE_BYTES := TOTAL_FILE_BYTES s4 + int (unat n),
      TOTAL_BLOCK_NUM := TOTAL_BLOCK_NUM s4 + 1, CURRENT_BLOCK := Some (ShiftToPreBlock b), CURRENT_BLOCK_NUM := 1\<rparr>"
  have "assemble_write data n i s = Some (Ret s5)"
    using s4(1) k one b4 CopyBytes_indep [of "CURRENT_BLOCKINFO s4 ! 0" data block_info0]
    by (simp add: assemble_write_def s3_def [symmetric] s5_def Let_def i)
  moreover have "if cluster_seq (prev b) = cluster_seq i then file_inv done (d @ ?xs) s5 \<and> cl_seqs s5 = Some (q, p)
     else file_inv (done @ cluster_enc d) ?xs s5 \<and> cl_seqs s5 = Some (ucast (cluster_seq i), q)"
  proof -
    have lt: "length ?xs = unat (bytes i)" using len by simp
    have "cl_seqs s5 = cl_seqs s4" by (simp add: s5_def cl_seqs_def)
    with s4(3) file_mid_count [OF _ lt] file_mid_count [where d = "[]", OF _ lt]
    show ?thesis unfolding s5_def by (auto split: if_splits)
  qed
  ultimately show thesis
    by (rule that) (use s4(2) assms(3) in \<open>simp_all add: s5_def s3_def same_frame_def ShiftToPreBlock_def copy_info_id\<close>)
qed

text \<open>A block that is not old, as a whole.\<close>

lemma assemble_step:
  assumes inv: "file_inv done d s" and b: "CURRENT_BLOCK s = Some b" and q: "cl_seqs s = Some (q, p)"
    and i: "CopyBytesToBlockInfo block_info0 data = Some i"
    and mark: "take 18 data \<noteq> BLOCKINFO_START" "take 18 data \<noteq> BLOCKINFO_END"
    and new: "IsOldBlockSeq i s = Some False"
    and pd: "if seq i = 1 then \<exists>t. ChangeTimecode (drop 18 data) s = Some (Ret (pd, t))
             else pd = drop 18 data"
    and len: "unat (bytes i) + 18 \<le> length data"
    and room: "length (FILE s) + 12 + unat (bytes i) < 2 ^ 56"
      "length (FILE s) + 12 + unat (bytes i) \<le> FILE_LIMIT s"
  obtains s' where "AssembleBlock data n s = Some (Ret s')"
    "if cluster_seq (prev b) = cluster_seq i
     then file_inv done (d @ take (unat (bytes i)) pd) s' \<and> cl_seqs s' = Some (q, p)
     else file_inv (done @ cluster_enc d) (take (unat (bytes i)) pd) s' \<and>
       cl_seqs s' = Some (ucast (cluster_seq i), q)"
    "LATEST_BLOCK_SEQ s' = seq i" "TOTAL_BLOCK_NUM s' = TOTAL_BLOCK_NUM s + 1"
    "CURRENT_BLOCK s' = Some \<lparr>info = block_info0, prev = i\<rparr>"
    "FILE_LIMIT s' = FILE_LIMIT s" "NODE_TIMECODE_OFFSET s' = NODE_TIMECODE_OFFSET s"
    "if seq i = 1 then \<exists>u. ChangeTimecode (drop 18 data) s = Some (Ret (pd, u)) \<and>
       IS_GET_TIMECODE_OFFSET s' = IS_GET_TIMECODE_OFFSET u \<and> TIMECODE_OFFSET s' = TIMECODE_OFFSET u
     else IS_GET_TIMECODE_OFFSET s' = IS_GET_TIMECODE_OFFSET s \<and> TIMECODE_OFFSET s' = TIMECODE_OFFSET s"
proof -
  obtain t where t: "assemble_block data n s = assemble_write (take 18 data @ pd) (n - 18) i t"
    "file_mid done d [] t" "CURRENT_BLOCK t = Some (b\<lparr>info := i\<rparr>)" "FILE_LIMIT t = FILE_LIMIT s"
    "length (FILE t) = length (FILE s)" "TOTAL_BLOCK_NUM t = TOTAL_BLOCK_NUM s" "length pd = length data - 18"
    "NODE_TIMECODE_OFFSET t = NODE_TIMECODE_OFFSET s" "cl_seqs t = Some (q, p)"
    "if seq i = 1 then \<exists>u. ChangeTimecode (drop 18 data) s = Some (Ret (pd, u)) \<and>
       IS_GET_TIMECODE_OFFSET t = IS_GET_TIMECODE_OFFSET u \<and> TIMECODE_OFFSET t = TIMECODE_OFFSET u
     else IS_GET_TIMECODE_OFFSET t = IS_GET_TIMECODE_OFFSET s \<and> TIMECODE_OFFSET t = TIMECODE_OFFSET s"
    by (rule assemble_block_prefix [OF inv b q i new pd])
  have l18: "18 \<le> length data" using len by simp
  have ib: "info (b\<lparr>info := i\<rparr>) = i" by simp
  have len': "unat (bytes i) + 18 \<le> length (take 18 data @ pd)" using t(7) len by simp
  have dpd: "drop 18 (take 18 data @ pd) = pd" using l18 by simp
  have ab: "AssembleBlock data n s = assemble_write (take 18 data @ pd) (n - 18) i t"
    using mark l18 t(1) by (simp add: AssembleBlock_def rdn_def)
  obtain s' where s': "assemble_write (take 18 data @ pd) (n - 18) i t = Some (Ret s')"
    "if cluster_seq (prev (b\<lparr>info := i\<rparr>)) = cluster_seq i
     then file_inv done (d @ take (unat (bytes i)) (drop 18 (take 18 data @ pd))) s' \<and> cl_seqs s' = Some (q, p)
     else file_inv (done @ cluster_enc d) (take (unat (bytes i)) (drop 18 (take 18 data @ pd))) s' \<and>
       cl_seqs s' = Some (ucast (cluster_seq i), q)"
    "LATEST_BLOCK_SEQ s' = seq i" "TOTAL_BLOCK_NUM s' = TOTAL_BLOCK_NUM t + 1"
    "CURRENT_BLOCK s' = Some \<lparr>info = block_info0, prev = i\<rparr>"
    "FILE_LIMIT s' = FILE_LIMIT t" "NODE_TIMECODE_OFFSET s' = NODE_TIMECODE_OFFSET t"
    "IS_GET_TIMECODE_OFFSET s' = IS_GET_TIMECODE_OFFSET t" "TIMECODE_OFFSET s' = TIMECODE_OFFSET t"
    by (rule assemble_write_ok [OF t(2,3) ib t(9) CopyBytes_take [OF i] len' room [folded t(4,5)], where n = "n - 18"])
  show thesis
    by (rule that [of s']) (use s'(1,3-) s'(2) [unfolded dpd] ab t(4,6,8,10) in simp_all)
qed

lemma assemble_finish:
  assumes "file_inv done d s" and "18 \<le> length data" and "take 18 data = BLOCKINFO_END"
    and "length (FILE s) + 12 \<le> FILE_LIMIT s"
  shows "\<exists>s'. AssembleBlock data n s = Some (Exit s') \<and>
    FILE s' = done @ cluster_enc d @ cluster_hdr (2 ^ 56 - 1)"
proof -
  have ne: "BLOCKINFO_END \<noteq> BLOCKINFO_START" by (simp add: c_eval)
  obtain c' where u: "UpdateClusterToWebM (CURRENT_BLOCKINFO s) (CURRENT_BLOCK_NUM s) s =
      Some (Ret (s\<lparr>CURRENT_CLUSTER := Some c', FILE := done @ cluster_hdr (length d) @ d,
        CURRENT_FPOS_W := int (FP s)\<rparr>))"
    by (rule UpdateCluster_ok [OF assms(1) refl])
  from assms(1) have f: "FP s = length (FILE s)" "length (FILE s) = length done + 12 + length d"
    by (auto simp: file_inv_def)
  define s1 where "s1 = s\<lparr>CURRENT_CLUSTER := Some c', FILE := done @ cluster_hdr (length d) @ d,
        CURRENT_FPOS_W := int (FP s)\<rparr>"
  have "ExportWebM FOOTER 12 s1 = Some (Ret (s1\<lparr>FILE := FILE s1 @ FOOTER, FP := FP s1 + 12\<rparr>))"
  proof -
    have fp: "FP s1 = length (FILE s1)" "FP s1 + 12 \<le> FILE_LIMIT s1"
      using f assms(4) by (simp_all add: s1_def)
    then show ?thesis
      by (subst ExportWebM_ok) (simp_all add: FOOTER_hdr put_file_end)
  qed
  then show ?thesis using assms(2,3) u ne
    by (simp add: AssembleBlock_def rdn_def assemble_end_def s1_def [symmetric] CLUSTER_HEADER_BYTES_def
        cluster_enc_def FOOTER_hdr)
      (simp add: s1_def cluster_enc_def)
qed

lemma assemble_begin:
  assumes "18 \<le> length data" and "take 18 data = BLOCKINFO_START"
    and "FILE s = []" "FP s = 0" "CURRENT_CLUSTER s = Some c" "CURRENT_BLOCK s = Some b"
    and "CURRENT_BLOCKINFO s = [i]" "CURRENT_BLOCK_NUM s = 0" "TOTAL_FILE_BYTES s = 0"
    and "18 \<le> unat n" "unat n \<le> length data" "unat n \<le> FILE_LIMIT s"
  shows "\<exists>s'. AssembleBlock data n s = Some (Ret s') \<and>
    file_inv (take (unat n - 18) (drop 18 data)) [] s' \<and>
    WEBM_HEADER_data s' = Some (take (unat n - 18) (drop 18 data)) \<and>
    unat (WEBM_HEADER_total_bytes s') = unat n - 18 \<and>
    TOTAL_FILE_BYTES s' = int (length (FILE s')) - 12 \<and>
    cl_seqs s' = Some (ucast (cluster_seq (info b)), cl_seq (cl_prev c)) \<and> CURRENT_BLOCK s' = Some b \<and>
    LATEST_BLOCK_SEQ s' = LATEST_BLOCK_SEQ s \<and> FILE_LIMIT s' = FILE_LIMIT s \<and>
    NODE_TIMECODE_OFFSET s' = NODE_TIMECODE_OFFSET s \<and> IS_GET_TIMECODE_OFFSET s' = IS_GET_TIMECODE_OFFSET s \<and>
    TIMECODE_OFFSET s' = TIMECODE_OFFSET s"
proof -
  have m: "unat (n - 18) = unat n - 18" using assms(10) by (simp add: unat_sub_if_size)
  define h where "h = take (unat n - 18) (drop 18 data)"
  have lh: "length h = unat n - 18" using assms(11) by (simp add: h_def)
  have n16: "unat n - 6 < 2 ^ 56"
    by (rule le_less_trans [OF diff_le_self less_trans [OF unat_u16_lt]]) simp
  define s1 where "s1 = s\<lparr>FILE := h, FP := length h, WEBM_HEADER_total_bytes := n - 18,
      WEBM_HEADER_data := Some h\<rparr>"
  have "WriteWebMHeader (drop 18 data) (n - 18) s = Some (Ret s1)"
    using assms put_file_end [of "[]" h] lh
    by (simp add: WriteWebMHeader_def ExportWebM_ok m rdn_def h_def s1_def)
  moreover have "\<exists>s2. RenewClusterForWrite (UpdateWebM FposW s1) = Some (Ret s2) \<and> file_inv h [] s2 \<and>
      TOTAL_FILE_BYTES s2 = 0 \<and> length (FILE s2) = length h + 12 \<and>
      WEBM_HEADER_data s2 = Some h \<and> WEBM_HEADER_total_bytes s2 = n - 18 \<and>
      cl_seqs s2 = Some (ucast (cluster_seq (info b)), cl_seq (cl_prev c)) \<and> CURRENT_BLOCK s2 = Some b \<and>
      LATEST_BLOCK_SEQ s2 = LATEST_BLOCK_SEQ s \<and> FILE_LIMIT s2 = FILE_LIMIT s \<and>
      NODE_TIMECODE_OFFSET s2 = NODE_TIMECODE_OFFSET s \<and> IS_GET_TIMECODE_OFFSET s2 = IS_GET_TIMECODE_OFFSET s \<and>
      TIMECODE_OFFSET s2 = TIMECODE_OFFSET s"
    by (subst RenewClusterForWrite_ok [of _ c b])
      (use assms lh n16 in \<open>auto simp: UpdateWebM_id s1_def file_inv_def cl_seqs_def\<close>)
  ultimately obtain s2 where "AssembleBlock data n s =
      Some (Ret (s2\<lparr>TOTAL_FILE_BYTES := int (unat (n - 18))\<rparr>))" and s2: "file_inv h [] s2"
      "TOTAL_FILE_BYTES s2 = 0" "length (FILE s2) = length h + 12"
      "WEBM_HEADER_data s2 = Some h" "WEBM_HEADER_total_bytes s2 = n - 18"
      "cl_seqs s2 = Some (ucast (cluster_seq (info b)), cl_seq (cl_prev c))" "CURRENT_BLOCK s2 = Some b"
      "LATEST_BLOCK_SEQ s2 = LATEST_BLOCK_SEQ s" "FILE_LIMIT s2 = FILE_LIMIT s"
      "NODE_TIMECODE_OFFSET s2 = NODE_TIMECODE_OFFSET s" "IS_GET_TIMECODE_OFFSET s2 = IS_GET_TIMECODE_OFFSET s"
      "TIMECODE_OFFSET s2 = TIMECODE_OFFSET s"
    using assms(1,2) by (auto simp: AssembleBlock_def rdn_def assemble_start_def Let_def)
  moreover have "file_inv h [] (s2\<lparr>TOTAL_FILE_BYTES := int (unat (n - 18))\<rparr>)"
    by (rule file_inv_cong [OF s2(1)]) (use s2(1) in \<open>auto simp: file_inv_def\<close>)
  ultimately show ?thesis using lh by (simp add: h_def [symmetric] m cl_seqs_def)
qed

end
