(* ===== verification/Packet.thy ===== *)
theory Packet
  imports Prelude
begin

text \<open>
  Checksums and frames: \<^verbatim>\<open>src/src/common/p2p.c\<close>, lines 106 to 296 and 451 to 527.  The record
  \<open>addressing\<close> holds the globals that describe the ends of a packet.  An IP address is the \<^verbatim>\<open>u32\<close>
  whose memory is the address in network order, as \<^verbatim>\<open>inet_pton\<close> stores it; turning it into a
  string by \<^verbatim>\<open>inet_ntoa\<close> and back by \<^verbatim>\<open>inet_pton\<close> gives it back, so the model passes the
  address where the code passes the string.
\<close>

record addressing =
  SRC_MAC :: bytes
  DST_MAC :: "bytes list"
  SRC_IP :: u32
  DST_IP :: "u32 list"
  SRC_PORT :: u16
  DST_PORT :: "u16 list"

definition MAX_PACKET_SIZE :: nat where [c_eval]: "MAX_PACKET_SIZE = 1514"
definition ETHERTYPE_IP :: u16 where [c_eval]: "ETHERTYPE_IP = 0x0800"
definition IPPROTO_UDP :: u8 where [c_eval]: "IPPROTO_UDP = 17"

section \<open>The code\<close>

text \<open>The two loops of \<^verbatim>\<open>CalSumEach16bit\<close> over the \<^verbatim>\<open>size\<close> bytes, which the host reads in pairs.\<close>

fun sum_each_16bit :: "u32 \<Rightarrow> bytes \<Rightarrow> u32" where
  "sum_each_16bit s (a # b # r) = sum_each_16bit (s + ucast (load16 [a, b])) r"
| "sum_each_16bit s [a] = s + ucast a"
| "sum_each_16bit s [] = s"

definition CalSumEach16bit :: "bytes \<Rightarrow> nat \<Rightarrow> u32 option" where
  "CalSumEach16bit buf n = do {
     xs \<leftarrow> rdn buf 0 n;
     Some (sum_each_16bit 0 xs)
   }"

definition fold_sum :: "u32 \<Rightarrow> u16" where
  "fold_sum s =
     (let s = drop_bit 16 s + (s AND 0xffff);
          s = drop_bit 16 s + (s AND 0xffff)
      in ucast (NOT (s AND 0xffff)))"

definition CalIPChecksum :: "bytes \<Rightarrow> nat \<Rightarrow> u16 option" where
  "CalIPChecksum buf n = do {
     s \<leftarrow> CalSumEach16bit buf n;
     Some (fold_sum s)
   }"

definition CalL4Checksum :: "bytes \<Rightarrow> nat \<Rightarrow> bytes \<Rightarrow> u16 option" where
  "CalL4Checksum buf n pseudo_iphdr = do {
     s \<leftarrow> CalSumEach16bit pseudo_iphdr 12;
     t \<leftarrow> CalSumEach16bit buf n;
     Some (fold_sum (s + t))
   }"

text \<open>
  \<^verbatim>\<open>PacketGenerate\<close> fills \<open>packet\<close> header by header; the checksum field of the UDP header is part
  of what \<^verbatim>\<open>CalL4Checksum\<close> sums up, with the value \<open>packet\<close> had there before.
\<close>

definition PacketGenerate ::
    "bytes \<Rightarrow> bytes \<Rightarrow> u16 \<Rightarrow> int \<Rightarrow> 'a addressing_scheme \<Rightarrow> bytes option" where
  "PacketGenerate packet send_data n dst_id a = do {
     dst_mac \<leftarrow> idx (DST_MAC a) dst_id;
     dst_ip \<leftarrow> idx (DST_IP a) dst_id;
     dst_port \<leftarrow> idx (DST_PORT a) dst_id;
     packet \<leftarrow> wrn packet 0 (dst_mac @ SRC_MAC a @ mem16 (htons ETHERTYPE_IP));
     packet \<leftarrow> wrn packet 14 ([0x45, 0] @ mem16 (htons (of_nat (28 + unat n)))
       @ mem16 (htons 34567) @ mem16 (htons 0) @ [0xff, IPPROTO_UDP] @ mem16 0
       @ mem32 (SRC_IP a) @ mem32 dst_ip);
     check \<leftarrow> CalIPChecksum (drop 14 packet) 20;
     packet \<leftarrow> wrn packet 24 (mem16 check);
     packet \<leftarrow> wrn packet 34 (mem16 (htons (SRC_PORT a)) @ mem16 (htons dst_port)
       @ mem16 (htons (of_nat (8 + unat n))));
     let pseudo = mem32 (SRC_IP a) @ mem32 dst_ip @ [0, IPPROTO_UDP] @ mem16 (htons (of_nat (8 + unat n)));
     xs \<leftarrow> rdn send_data 0 (unat n);
     packet \<leftarrow> wrn packet 42 xs;
     check \<leftarrow> CalL4Checksum (drop 34 packet) (8 + unat n) pseudo;
     wrn packet 40 (mem16 check)
   }"

text \<open>\<^verbatim>\<open>SendPacket\<close>: the bytes given to \<^verbatim>\<open>write\<close>.\<close>

definition SendPacket_frame :: "bytes \<Rightarrow> u16 \<Rightarrow> int \<Rightarrow> 'a addressing_scheme \<Rightarrow> bytes option" where
  "SendPacket_frame data n dst_id a = do {
     packet \<leftarrow> PacketGenerate (replicate MAX_PACKET_SIZE 0) data n dst_id a;
     rdn packet 0 (unat (42 + n))
   }"

definition RenewDstIPandMAC ::
    "u32 \<Rightarrow> u16 \<Rightarrow> bytes \<Rightarrow> int \<Rightarrow> 'a addressing_scheme \<Rightarrow> 'a addressing_scheme option" where
  "RenewDstIPandMAC ip p dst_mac dst_id a = do {
     ips \<leftarrow> upd (DST_IP a) dst_id ip;
     macs \<leftarrow> upd (DST_MAC a) dst_id dst_mac;
     ports \<leftarrow> upd (DST_PORT a) dst_id p;
     Some (a\<lparr>DST_IP := ips, DST_MAC := macs, DST_PORT := ports\<rparr>)
   }"

definition RenewSrcIPandMAC :: "u32 \<Rightarrow> bytes \<Rightarrow> 'a addressing_scheme \<Rightarrow> 'a addressing_scheme" where
  "RenewSrcIPandMAC ip src_mac a = a\<lparr>SRC_IP := ip, SRC_MAC := src_mac\<rparr>"

section \<open>The ones' complement sum\<close>

fun sum16 :: "bytes \<Rightarrow> nat" where
  "sum16 (a # b # r) = unat a + 256 * unat b + sum16 r"
| "sum16 [a] = unat a"
| "sum16 [] = 0"

lemma sum16_append: "even (length xs) \<Longrightarrow> sum16 (xs @ ys) = sum16 xs + sum16 ys"
  by (induction xs rule: sum16.induct) auto

lemma sum16_bound: "sum16 xs \<le> 65535 * ((length xs + 1) div 2)"
proof (induction xs rule: sum16.induct)
  case (1 a b r)
  have "unat a + 256 * unat b \<le> 65535" using unat_byte_lt [of a] unat_byte_lt [of b] by linarith
  with 1 show ?case by simp
next
  case (2 a)
  have "unat a \<le> 65535" using unat_byte_lt [of a] by linarith
  then show ?case by simp
qed simp

lemma sum_each_16bit_val: "sum_each_16bit s xs = s + of_nat (sum16 xs)"
proof (induction s xs rule: sum_each_16bit.induct)
  case (1 s a b r)
  have "(ucast (load16 [a, b]) :: u32) = of_nat (unat a + 256 * unat b)"
  proof -
    have "unat a + 256 * unat b < 65536" using unat_byte_lt [of a] unat_byte_lt [of b] by linarith
    then have "unat (load16 [a, b]) = unat a + 256 * unat b"
      by (simp add: load16_def unat_of_nat del: of_nat_add of_nat_mult)
    then show ?thesis by (metis of_nat_unat)
  qed
  with 1 show ?case by (simp add: ac_simps)
qed simp_all

text \<open>Folding the carries twice gives the representative of the sum modulo 65535.\<close>

definition fold_nat :: "nat \<Rightarrow> nat" where
  "fold_nat s = (let s = s div 65536 + s mod 65536 in s div 65536 + s mod 65536)"

lemma fold_nat_props:
  assumes "s < 2 ^ 32"
  shows "fold_nat s \<le> 65535" and "fold_nat s mod 65535 = s mod 65535" and "fold_nat s = 0 \<longleftrightarrow> s = 0"
proof -
  have m: "(s div 65536 + s mod 65536) mod 65535 = s mod 65535" for s :: nat
  proof -
    have "s = (s div 65536 + s mod 65536) + 65535 * (s div 65536)"
      using div_mult_mod_eq [of s 65536] by linarith
    then show ?thesis by (metis mod_mult_self2)
  qed
  have z: "s div 65536 + s mod 65536 = 0 \<longleftrightarrow> s = 0" for s :: nat
    using div_mult_mod_eq [of s 65536] by auto
  define t where "t = s div 65536 + s mod 65536"
  have "s div 65536 < 65536" using assms by (simp add: less_mult_imp_div_less)
  moreover have "s mod 65536 < 65536" by simp
  ultimately have t: "t \<le> 131070" unfolding t_def by linarith
  have "t div 65536 + t mod 65536 \<le> 65535"
  proof (cases "t < 65536")
    case False
    with t have "t div 65536 = 1" "t mod 65536 = t - 65536"
      by (simp_all add: div_nat_eqI mod_if)
    with t False show ?thesis by linarith
  qed simp
  then show "fold_nat s \<le> 65535" by (simp add: fold_nat_def Let_def t_def)
  show "fold_nat s mod 65535 = s mod 65535" by (simp add: fold_nat_def Let_def m)
  show "fold_nat s = 0 \<longleftrightarrow> s = 0" unfolding fold_nat_def Let_def z by simp
qed

lemma fold_sum_nat: "unat (fold_sum s) = 65535 - fold_nat (unat s)"
proof -
  have f: "unat (drop_bit 16 t + (t AND 0xffff)) = unat t div 65536 + unat t mod 65536" for t :: u32
  proof -
    have "t AND 0xffff = take_bit 16 t"
      using take_bit_eq_mask [of 16 t] by (simp add: mask_eq_exp_minus_1)
    then have a: "unat (t AND 0xffff) = unat t mod 65536"
      by (simp add: unsigned_take_bit_eq take_bit_eq_mod unat_mod)
    have b: "unat (drop_bit 16 t) = unat t div 65536"
      unfolding unsigned_drop_bit_eq
      by (simp add: drop_bit_eq_div take_bit_eq_mod mod_less [OF unat_u32_lt])
    have "unat t div 65536 < 65536" using unat_u32_lt [of t] by (simp add: less_mult_imp_div_less)
    then have "unat t div 65536 + unat t mod 65536 < 2 ^ 32"
      using mod_less_divisor [of 65536 "unat t"] by simp
    then show ?thesis using unat_word_ariths(1) [of "drop_bit 16 t" "t AND 0xffff"]
      by (simp add: a b)
  qed
  define u where "u = (let s = drop_bit 16 s + (s AND 0xffff) in drop_bit 16 s + (s AND 0xffff))"
  have u: "unat u = fold_nat (unat s)" by (simp add: u_def fold_nat_def Let_def f)
  then have le: "unat u \<le> 65535" using fold_nat_props(1) [of "unat s"] by simp
  have "ucast (NOT (u AND 0xffff)) = NOT (ucast u :: u16)"
  proof -
    have "u AND 0xffff = take_bit 16 u"
      using take_bit_eq_mask [of 16 u] by (simp add: mask_eq_exp_minus_1)
    then show ?thesis by (intro bit_word_eqI) (auto simp: bit_simps)
  qed
  then have "fold_sum s = NOT (ucast u)" by (simp add: fold_sum_def u_def Let_def)
  moreover have "unat (ucast u :: u16) = unat u"
    using le by (simp add: unsigned_ucast_eq take_bit_eq_mod)
  moreover have "unat (NOT (w :: u16)) = 65535 - unat w" for w
  proof -
    have "NOT w = - 1 - w" by (simp add: not_eq_complement)
    moreover have "unat (- 1 - w) = unat (- 1 :: u16) - unat w" by (rule unat_sub) simp
    moreover have "unat (- 1 :: u16) = 65535" by (simp add: unsigned_minus_1_eq_mask mask_eq_exp_minus_1)
    ultimately show ?thesis by simp
  qed
  ultimately show ?thesis using u by simp
qed

text \<open>Putting the checksum where there was zero makes the folded sum all ones.\<close>

lemma fold_sum_complement:
  assumes "s < 2 ^ 31"
  shows "fold_nat (s + unat (fold_sum (of_nat s))) = 65535"
proof -
  have u: "unat (of_nat s :: u32) = s" using assms by (simp add: unat_of_nat)
  define c where "c = 65535 - fold_nat s"
  have s32: "s < 2 ^ 32" using assms by simp
  have c: "c \<le> 65535" "c + fold_nat s = 65535" using fold_nat_props(1) [OF s32] by (simp_all add: c_def)
  have sc: "s + c < 2 ^ 32" using c(1) assms by simp
  have "(s + c) mod 65535 = (fold_nat s + c) mod 65535"
    using fold_nat_props(2) [OF s32] by (metis mod_add_left_eq)
  also have "\<dots> = 0" using c(2) by (simp add: add.commute)
  finally have "fold_nat (s + c) mod 65535 = 0" using fold_nat_props(2) [OF sc] by simp
  moreover have "fold_nat (s + c) \<noteq> 0"
  proof
    assume "fold_nat (s + c) = 0"
    then have "s = 0" "c = 0" using fold_nat_props(3) [OF sc] by simp_all
    with c(2) fold_nat_props(3) [OF s32] show False by simp
  qed
  ultimately have "fold_nat (s + c) = 65535"
    using fold_nat_props(1) [OF sc] by (auto elim!: dvdE simp: mod_eq_0_iff_dvd)
  then show ?thesis by (simp add: fold_sum_nat u c_def)
qed

lemma CalSumEach16bit_val:
  assumes "n \<le> length buf"
  shows "CalSumEach16bit buf n = Some (of_nat (sum16 (take n buf)))"
  using assms by (simp add: CalSumEach16bit_def rdn_def sum_each_16bit_val)

lemma sum16_mem16: "sum16 (mem16 c) = unat c"
  using le_val_le_bytes [of 2 "unat c"]
  by (cases "mem16 c" rule: sum16.cases)
    (auto simp: mem16_def dest!: arg_cong [where f = length] simp flip: mem16_def)

lemma fold_sum_zero:
  assumes "s < 2 ^ 31" shows "fold_sum (of_nat (s + unat (fold_sum (of_nat s)))) = 0"
proof -
  have "s + unat (fold_sum (of_nat s)) < 2 ^ 32" using add_strict_mono [OF assms unat_u16_lt [of "fold_sum (of_nat s)"]] by simp
  then have "unat (of_nat (s + unat (fold_sum (of_nat s))) :: u32) = s + unat (fold_sum (of_nat s))"
    by (simp add: unat_of_nat del: of_nat_add)
  then have "unat (fold_sum (of_nat (s + unat (fold_sum (of_nat s))))) = 0"
    using fold_sum_complement [OF assms] by (simp add: fold_sum_nat [of "of_nat (s + _)"] del: of_nat_add)
  then show ?thesis by (simp add: unat_eq_0)
qed

lemma ip_sum_verifies:
  assumes "even (length xs)" and "length xs + length ys \<le> 60000"
    and "CalIPChecksum (xs @ [0, 0] @ ys) (length xs + 2 + length ys) = Some c"
  shows "CalIPChecksum (xs @ mem16 c @ ys) (length xs + 2 + length ys) = Some 0"
proof -
  define s where "s = sum16 xs + sum16 ys"
  have b: "s < 2 ^ 31"
    using sum16_bound [of xs] sum16_bound [of ys] assms(2) by (simp add: s_def)
  have "sum16 (xs @ [0, 0] @ ys) = s" using assms(1) by (simp add: sum16_append s_def)
  with assms(3) have c: "c = fold_sum (of_nat s)"
    by (simp add: CalIPChecksum_def CalSumEach16bit_val)
  have "sum16 (xs @ mem16 c @ ys) = s + unat c"
    using assms(1) by (simp add: sum16_append sum16_mem16 s_def)
  then show ?thesis using fold_sum_zero [OF b]
    by (simp add: CalIPChecksum_def CalSumEach16bit_val c del: of_nat_add)
qed

text \<open>
  C26: The receiver's check of RFC 1071 accepts what the code sends: a checksum computed over data
  whose checksum field is zero, once stored in that field, makes the checksum of the whole zero.
  The field may stand at any even offset, so this is the IP header.
\<close>

theorem CalIPChecksum_verifies:
  assumes "even (length xs)" and "length xs + length ys \<le> 60000"
    and "CalIPChecksum (xs @ [0, 0] @ ys) (length xs + 2 + length ys) = Some c"
  shows "CalIPChecksum (xs @ mem16 c @ ys) (length xs + 2 + length ys) = Some 0"
  by (rule ip_sum_verifies [OF assms])

theorem CalIPChecksum_verifies_witness:
  "\<exists>c. CalIPChecksum ([0x45, 0] @ [0, 0] @ [0xff]) 5 = Some c \<and>
     CalIPChecksum ([0x45, 0] @ mem16 c @ [0xff]) 5 = Some 0"
proof -
  obtain c where c: "CalIPChecksum ([0x45, 0] @ [0, 0] @ [0xff]) 5 = Some c"
    by (auto simp: CalIPChecksum_def CalSumEach16bit_val)
  have "length [0x45, 0 :: u8] + 2 + length [0xff :: u8] = 5" by simp
  from c CalIPChecksum_verifies [of "[0x45, 0]" "[0xff]" c, unfolded this] show ?thesis by auto
qed

lemma CalL4Checksum_verifies:
  assumes "even (length xs)" and "length xs + length ys \<le> 60000" and "length ps = 12"
    and "n = length xs + 2 + length ys"
    and "CalL4Checksum (xs @ [0, 0] @ ys @ r) n ps = Some c"
  shows "CalL4Checksum (xs @ mem16 c @ ys @ r') n ps = Some 0"
proof -
  define s where "s = sum16 ps + (sum16 xs + sum16 ys)"
  have b: "s < 2 ^ 31"
    using sum16_bound [of xs] sum16_bound [of ys] sum16_bound [of ps] assms(2,3) by (simp add: s_def)
  have t: "take n (xs @ [x, y] @ ys @ r) = xs @ [x, y] @ ys" for x y r by (simp add: assms(4))
  obtain x y where xy: "mem16 c = [x, y]"
    by (simp add: mem16_def numeral_2_eq_2)
  have "c = fold_sum (of_nat s)"
    using assms(1,5) t [of 0 0 r]
    by (simp add: CalL4Checksum_def CalSumEach16bit_val assms(3,4) sum16_append s_def)
  moreover have "sum16 (xs @ mem16 c @ ys) = sum16 xs + unat c + sum16 ys"
    using assms(1) by (simp add: sum16_append sum16_mem16)
  then have "CalL4Checksum (xs @ mem16 c @ ys @ r') n ps = Some (fold_sum (of_nat (s + unat c)))"
    using t [of x y r']
    by (simp add: CalL4Checksum_def CalSumEach16bit_val assms(3,4) xy s_def ac_simps)
  ultimately show ?thesis using fold_sum_zero [OF b] by simp
qed

section \<open>The frame\<close>

lemma wrn_mid: "length A = p \<Longrightarrow> length B = length xs \<Longrightarrow> wrn (A @ B @ C) p xs = Some (A @ xs @ C)"
  by (auto simp: wrn_def)

lemma wrn_front: "length B = length xs \<Longrightarrow> wrn (B @ C) 0 xs = Some (xs @ C)"
  using wrn_mid [of "[]" 0 B xs C] by simp

text \<open>The headers of a frame, most significant byte first, with the two checksums given.\<close>

definition eth_hdr :: "bytes \<Rightarrow> bytes \<Rightarrow> bytes" where
  "eth_hdr dst src = dst @ src @ [0x08, 0x00]"

definition ip_hdr :: "nat \<Rightarrow> u32 \<Rightarrow> u32 \<Rightarrow> bytes \<Rightarrow> bytes" where
  "ip_hdr n src dst ck = ([0x45, 0] @ be_bytes 2 (28 + n) @ be_bytes 2 34567 @ [0, 0, 0xff, 17])
     @ ck @ mem32 src @ mem32 dst"

definition udp_hdr :: "nat \<Rightarrow> u16 \<Rightarrow> u16 \<Rightarrow> bytes \<Rightarrow> bytes" where
  "udp_hdr n src dst ck = (be_bytes 2 (unat src) @ be_bytes 2 (unat dst) @ be_bytes 2 (8 + n)) @ ck"

definition pseudo_hdr :: "nat \<Rightarrow> u32 \<Rightarrow> u32 \<Rightarrow> bytes" where
  "pseudo_hdr n src dst = mem32 src @ mem32 dst @ [0, 17] @ be_bytes 2 (8 + n)"

lemma length_hdrs [simp]:
  "length (eth_hdr dst src) = length dst + length src + 2"
  "length (ip_hdr n a b ck) = 18 + length ck" "length (udp_hdr n p q ck) = 6 + length ck"
  "length (pseudo_hdr n a b) = 12"
  by (simp_all add: eth_hdr_def ip_hdr_def udp_hdr_def pseudo_hdr_def)

lemma mem16_htons_nat: "k < 65536 \<Longrightarrow> mem16 (htons (of_nat k)) = be_bytes 2 k"
  by (simp add: mem16_htons unat_of_nat)

lemma be_bytes_2: "be_bytes 2 v = [of_nat (v div 256), of_nat v]"
  by (simp add: be_bytes_Suc numeral_2_eq_2) (simp add: be_bytes_def)

lemma mem16_consts: "mem16 (htons ETHERTYPE_IP) = [0x08, 0x00]" "mem16 (htons 0) = [0, 0]"
    "mem16 0 = [0, 0]" "mem16 (htons 34567) = be_bytes 2 34567"
proof -
  show "mem16 0 = [0, 0]" by (simp add: mem16_def numeral_2_eq_2)
qed (unfold mem16_htons ETHERTYPE_IP_def, simp_all add: be_bytes_2)

lemma PacketGenerate_eq:
  assumes "idx (DST_MAC a) k = Some dmac" "idx (DST_IP a) k = Some dip" "idx (DST_PORT a) k = Some dport"
    and "length dmac = 6" "length (SRC_MAC a) = 6" and "unat n \<le> 1472" "unat n \<le> length data"
    and "length Z14 = 14" "length Z20 = 20" "length Z6 = 6" "length Zn = unat n"
  shows "\<exists>c1 c2. PacketGenerate (Z14 @ Z20 @ Z6 @ [0, 0] @ Zn @ Z) data n k a =
      Some (eth_hdr dmac (SRC_MAC a) @ ip_hdr (unat n) (SRC_IP a) dip (mem16 c1)
        @ udp_hdr (unat n) (SRC_PORT a) dport (mem16 c2) @ take (unat n) data @ Z) \<and>
    CalIPChecksum (ip_hdr (unat n) (SRC_IP a) dip (mem16 c1)) 20 = Some 0 \<and>
    CalL4Checksum (udp_hdr (unat n) (SRC_PORT a) dport (mem16 c2) @ take (unat n) data) (8 + unat n)
      (pseudo_hdr (unat n) (SRC_IP a) dip) = Some 0"
proof -
  define d where "d = take (unat n) data"
  define e where "e = eth_hdr dmac (SRC_MAC a)"
  define i1 where "i1 = [0x45, 0] @ be_bytes 2 (28 + unat n) @ be_bytes 2 34567 @ [0, 0, 0xff, 17 :: u8]"
  define i2 where "i2 = mem32 (SRC_IP a) @ mem32 dip"
  define u1 where "u1 = be_bytes 2 (unat (SRC_PORT a)) @ be_bytes 2 (unat dport) @ be_bytes 2 (8 + unat n)"
  define ps where "ps = pseudo_hdr (unat n) (SRC_IP a) dip"
  have l: "length e = 14" "length i1 = 10" "length i2 = 8" "length u1 = 6" "length ps = 12" "length d = unat n"
    using assms by (simp_all add: e_def i1_def i2_def u1_def ps_def d_def)
  have ip: "ip_hdr (unat n) (SRC_IP a) dip ck = i1 @ ck @ i2" for ck by (simp add: ip_hdr_def i1_def i2_def)
  have udp: "udp_hdr (unat n) (SRC_PORT a) dport ck = u1 @ ck" for ck by (simp add: udp_hdr_def u1_def)
  obtain c1 where c1: "CalIPChecksum (i1 @ [0, 0] @ i2) 20 = Some c1"
    using l by (auto simp: CalIPChecksum_def CalSumEach16bit_val)
  then have c1r: "CalIPChecksum ((i1 @ [0, 0] @ i2) @ r) 20 = Some c1" for r
    using l by (simp add: CalIPChecksum_def CalSumEach16bit_val)
  obtain c2 where c2: "CalL4Checksum (u1 @ [0, 0] @ d @ Z) (8 + unat n) ps = Some c2"
    using l by (auto simp: CalL4Checksum_def CalSumEach16bit_val)
  have n: "28 + unat n < 65536" "8 + unat n < 65536" using assms(6) by simp_all
  have "PacketGenerate (Z14 @ Z20 @ Z6 @ [0, 0] @ Zn @ Z) data n k a =
      Some (e @ (i1 @ mem16 c1 @ i2) @ (u1 @ mem16 c2) @ d @ Z)"
  proof -
    have w1: "wrn (Z14 @ Z20 @ Z6 @ [0, 0] @ Zn @ Z) 0 e = Some (e @ Z20 @ Z6 @ [0, 0] @ Zn @ Z)"
      using wrn_front [of Z14 e] l assms by simp
    have w2: "wrn (e @ Z20 @ r) 14 (i1 @ [0, 0] @ i2) = Some (e @ (i1 @ [0, 0] @ i2) @ r)" for r
      using wrn_mid [of e 14 Z20 "i1 @ [0, 0] @ i2"] l assms by simp
    have w3: "wrn (e @ (i1 @ [0, 0] @ i2) @ r) 24 (mem16 c1) = Some (e @ (i1 @ mem16 c1 @ i2) @ r)" for r
      using wrn_mid [of "e @ i1" 24 "[0, 0]" "mem16 c1" "i2 @ r"] l by simp
    have w4: "wrn (e @ (i1 @ mem16 c1 @ i2) @ Z6 @ r) 34 u1 = Some (e @ (i1 @ mem16 c1 @ i2) @ u1 @ r)" for r
      using wrn_mid [of "e @ (i1 @ mem16 c1 @ i2)" 34 Z6 u1 r] l assms by simp
    have w5: "wrn (e @ (i1 @ mem16 c1 @ i2) @ u1 @ [0, 0] @ Zn @ r) 42 d =
        Some (e @ (i1 @ mem16 c1 @ i2) @ u1 @ [0, 0] @ d @ r)" for r
      using wrn_mid [of "e @ (i1 @ mem16 c1 @ i2) @ u1 @ [0, 0]" 42 Zn d r] l assms by simp
    have w6: "wrn (e @ (i1 @ mem16 c1 @ i2) @ u1 @ [0, 0] @ r) 40 (mem16 c2) =
        Some (e @ (i1 @ mem16 c1 @ i2) @ u1 @ mem16 c2 @ r)" for r
      using wrn_mid [of "e @ (i1 @ mem16 c1 @ i2) @ u1" 40 "[0, 0]" "mem16 c2" r] l by simp
    have dr: "drop 14 (e @ r) = r" "drop 34 (e @ (i1 @ mem16 c1 @ i2) @ r) = r" for r using l by simp_all
    have parts: "dmac @ SRC_MAC a @ mem16 (htons ETHERTYPE_IP) = e"
      "[0x45, 0] @ mem16 (htons (of_nat (28 + unat n))) @ mem16 (htons 34567) @ mem16 (htons 0)
        @ [0xff, IPPROTO_UDP] @ mem16 0 @ mem32 (SRC_IP a) @ mem32 dip = i1 @ [0, 0] @ i2"
      "mem16 (htons (SRC_PORT a)) @ mem16 (htons dport) @ mem16 (htons (of_nat (8 + unat n))) = u1"
      "mem32 (SRC_IP a) @ mem32 dip @ [0, IPPROTO_UDP] @ mem16 (htons (of_nat (8 + unat n))) = ps"
      unfolding mem16_consts mem16_htons_nat [OF n(1)] mem16_htons_nat [OF n(2)]
      by (simp_all add: mem16_htons IPPROTO_UDP_def e_def eth_hdr_def i1_def i2_def u1_def ps_def pseudo_hdr_def)
    have x: "rdn data 0 (unat n) = Some d" using assms by (simp add: rdn_def d_def)
    show ?thesis
      unfolding PacketGenerate_def assms(1-3) parts x Option.bind.bind_lunit Let_def w1 w2 dr c1r w3 w4 w5 c2 w6
      by simp
  qed
  moreover have "CalIPChecksum (i1 @ mem16 c1 @ i2) 20 = Some 0"
    using ip_sum_verifies [of i1 i2 c1] l c1 by simp
  moreover have "CalL4Checksum (u1 @ mem16 c2 @ d @ []) (8 + unat n) ps = Some 0"
    by (rule CalL4Checksum_verifies [OF _ _ _ _ c2]) (use l assms(6) in simp_all)
  ultimately show ?thesis
    by (intro exI [of _ c1] exI [of _ c2]) (simp add: ip udp d_def e_def ps_def)
qed

text \<open>
  A frame for the peer at \<open>dip\<close>, \<open>dport\<close> that carries \<open>d\<close>: 42 bytes of headers whose addresses
  and lengths are right and whose two checksums verify, then \<open>d\<close>.
\<close>

definition frame_ok :: "'a addressing_scheme \<Rightarrow> bytes \<Rightarrow> u32 \<Rightarrow> u16 \<Rightarrow> bytes \<Rightarrow> bytes \<Rightarrow> bool" where
  "frame_ok a dmac dip dport d f \<longleftrightarrow> (\<exists>c1 c2.
     f = eth_hdr dmac (SRC_MAC a) @ ip_hdr (length d) (SRC_IP a) dip (mem16 c1)
       @ udp_hdr (length d) (SRC_PORT a) dport (mem16 c2) @ d \<and>
     CalIPChecksum (ip_hdr (length d) (SRC_IP a) dip (mem16 c1)) 20 = Some 0 \<and>
     CalL4Checksum (udp_hdr (length d) (SRC_PORT a) dport (mem16 c2) @ d) (8 + length d)
       (pseudo_hdr (length d) (SRC_IP a) dip) = Some 0)"

lemma SendPacket_frame_exists:
  assumes "idx (DST_MAC a) k = Some dmac" "idx (DST_IP a) k = Some dip" "idx (DST_PORT a) k = Some dport"
    and "length dmac = 6" "length (SRC_MAC a) = 6" and "unat n \<le> 1472" "unat n \<le> length data"
  shows "\<exists>f. SendPacket_frame data n k a = Some f \<and> frame_ok a dmac dip dport (take (unat n) data) f"
proof -
  define Z where "Z = replicate (1472 - unat n) (0 :: u8)"
  have z: "replicate MAX_PACKET_SIZE 0 = replicate 14 0 @ replicate 20 0 @ replicate 6 0
      @ [0, 0 :: u8] @ replicate (unat n) 0 @ Z"
  proof -
    have "[0, 0 :: u8] = replicate 2 0" by (simp add: numeral_2_eq_2)
    then show ?thesis using assms(6) by (simp add: Z_def MAX_PACKET_SIZE_def flip: replicate_add)
  qed
  have l: "unat (42 + n) = 42 + unat n" using assms(6) by (simp add: unat_word_ariths)
  obtain c1 c2 where "PacketGenerate (replicate MAX_PACKET_SIZE 0) data n k a =
      Some (eth_hdr dmac (SRC_MAC a) @ ip_hdr (unat n) (SRC_IP a) dip (mem16 c1)
        @ udp_hdr (unat n) (SRC_PORT a) dport (mem16 c2) @ take (unat n) data @ Z)"
    "CalIPChecksum (ip_hdr (unat n) (SRC_IP a) dip (mem16 c1)) 20 = Some 0"
    "CalL4Checksum (udp_hdr (unat n) (SRC_PORT a) dport (mem16 c2) @ take (unat n) data) (8 + unat n)
      (pseudo_hdr (unat n) (SRC_IP a) dip) = Some 0"
    unfolding z using PacketGenerate_eq [OF assms, of "replicate 14 0" "replicate 20 0" "replicate 6 0"
      "replicate (unat n) 0" Z] by auto
  then show ?thesis using assms(4,5,7) by (auto simp: SendPacket_frame_def frame_ok_def rdn_def l)
qed

text \<open>
  C22: \<^verbatim>\<open>SendPacket\<close> puts a well-formed Ethernet, IPv4 and UDP frame on the wire for every
  destination slot and up to 1472 bytes of data: the addresses and ports of the slot, the right
  lengths, an IP and a UDP checksum the receiver's verification accepts, and the data unchanged.
\<close>

theorem SendPacket_frame_ok:
  assumes "idx (DST_MAC a) k = Some dmac" "idx (DST_IP a) k = Some dip" "idx (DST_PORT a) k = Some dport"
    and "length dmac = 6" "length (SRC_MAC a) = 6" and "unat n \<le> 1472" "unat n \<le> length data"
  shows "\<exists>f. SendPacket_frame data n k a = Some f \<and> frame_ok a dmac dip dport (take (unat n) data) f"
  using SendPacket_frame_exists [OF assms] .

definition addressing0 :: addressing where
  "addressing0 = \<lparr>SRC_MAC = replicate 6 1, DST_MAC = replicate 4 (replicate 6 2), SRC_IP = 0x0100a8c0,
     DST_IP = [0, 0, 0x0200a8c0, 0], SRC_PORT = 5000, DST_PORT = [0, 0, 12345, 0]\<rparr>"

theorem SendPacket_frame_ok_witness:
  "\<exists>f. SendPacket_frame [11, 0, 7, 9] 3 2 addressing0 = Some f \<and>
     frame_ok addressing0 (replicate 6 2) 0x0200a8c0 12345 [11, 0, 7] f"
  using SendPacket_frame_ok [of addressing0 2 "replicate 6 2" "0x0200a8c0" 12345 3 "[11, 0, 7, 9]"]
  by (simp add: addressing0_def idx_def)

text \<open>What the receiver looks at in a frame.\<close>

lemma frame_ok_fields:
  assumes "frame_ok a dmac dip dport d f" and "length dmac = 6" "length (SRC_MAC a) = 6"
    and "length d \<le> 1472"
  shows "length f = 42 + length d" "take 2 (drop 12 f) = [0x08, 0x00]"
    "ntohs (load16 (drop 36 f)) = dport" "load32 (drop 30 f) = dip" "load32 (drop 26 f) = SRC_IP a"
    "unat (ntohs (load16 (drop 38 f))) = 8 + length d" "drop 42 f = d"
    "ntohs (load16 (drop 34 f)) = SRC_PORT a"
proof -
  from assms(1) obtain c1 c2 where f: "f = eth_hdr dmac (SRC_MAC a) @ ip_hdr (length d) (SRC_IP a) dip (mem16 c1)
       @ udp_hdr (length d) (SRC_PORT a) dport (mem16 c2) @ d" by (auto simp: frame_ok_def)
  have u: "unat (of_nat (8 + length d) :: u16) = 8 + length d"
    using assms(4) by (simp add: unat_of_nat del: of_nat_add)
  have b: "ntohs (load16 (be_bytes 2 (8 + length d) @ r)) = of_nat (8 + length d)" for r
    using ntohs_load16 [of "be_bytes 2 (8 + length d)"] assms(4)
    by (simp add: load16_def be_val_be_bytes)
  show "length f = 42 + length d" "take 2 (drop 12 f) = [0x08, 0x00]"
    "ntohs (load16 (drop 36 f)) = dport" "load32 (drop 30 f) = dip" "load32 (drop 26 f) = SRC_IP a"
    "drop 42 f = d" "ntohs (load16 (drop 34 f)) = SRC_PORT a"
    using assms by (simp_all add: f eth_hdr_def ip_hdr_def udp_hdr_def)
  show "unat (ntohs (load16 (drop 38 f))) = 8 + length d"
    using assms b u by (simp add: f eth_hdr_def ip_hdr_def udp_hdr_def)
qed

end
