(* ===== verification/Node_List.thy ===== *)
theory Node_List
  imports Wire
begin

text \<open>
  The lists of known and of refused nodes: \<^verbatim>\<open>src/src/common/p2p.c\<close>, lines 633 to 884.  A
  \<^verbatim>\<open>struct NodeList *\<close> is the list of its nodes from that pointer on (\<^verbatim>\<open>NULL\<close> is the empty list);
  a node is the 30 bytes \<^verbatim>\<open>ListPush\<close> and \<^verbatim>\<open>ListUpdate\<close> copy, the timestamp of an entry is never set
  or read.  Loops along the list are recursions on it.
\<close>

section \<open>The code\<close>

fun IsListContains :: "node_info list \<Rightarrow> u16 \<Rightarrow> bool" where
  "IsListContains [] i = False"
| "IsListContains (x # xs) i = (if node_id x = i then True else IsListContains xs i)"

fun ListSize :: "node_info list \<Rightarrow> int" where
  "ListSize [] = 0"
| "ListSize (x # xs) = 1 + ListSize xs"

fun ListPush :: "node_info list \<Rightarrow> node_info \<Rightarrow> node_info list" where
  "ListPush [] n = [n]"
| "ListPush (x # xs) n = x # ListPush xs n"

fun ListUpdate :: "node_info list \<Rightarrow> node_info \<Rightarrow> node_info list" where
  "ListUpdate [] n = []"
| "ListUpdate (x # xs) n = (if node_id n = node_id x then n else x) # ListUpdate xs n"

fun GetListIndex :: "node_info list \<Rightarrow> int \<Rightarrow> int \<Rightarrow> node_info option" where
  "GetListIndex [] index count = None"
| "GetListIndex (x # xs) index count =
     (if index = count then Some x else GetListIndex xs index (count + 1))"

text \<open>The difference left by the loop of \<^verbatim>\<open>GetCloestLayer\<close>: each round overwrites the last.\<close>

fun diff_layers :: "u8 \<Rightarrow> int \<Rightarrow> node_info list \<Rightarrow> int" where
  "diff_layers my d [] = d"
| "diff_layers my d (x # xs) = diff_layers my (int (unat (layer x)) - int (unat my)) xs"

definition GetCloestLayer :: "u8 \<Rightarrow> node_info list \<Rightarrow> u8" where
  "GetCloestLayer my xs = of_int (int (unat my) + diff_layers my 0 xs)"

fun IsExceptListContains :: "u16 list \<Rightarrow> u16 \<Rightarrow> bool" where
  "IsExceptListContains [] i = False"
| "IsExceptListContains (x # xs) i = (if x = i then True else IsExceptListContains xs i)"

fun prior_loop :: "u8 \<Rightarrow> u16 list \<Rightarrow> node_info list \<Rightarrow> node_info option" where
  "prior_loop l except [] = None"
| "prior_loop l except (x # xs) =
     (if IsExceptListContains except (node_id x) then prior_loop l except xs
      else if layer x = l then Some x
      else prior_loop l except xs)"

definition GetPriorList :: "u8 \<Rightarrow> u16 list \<Rightarrow> node_info list \<Rightarrow> node_info option" where
  "GetPriorList my except xs = prior_loop (GetCloestLayer my xs) except xs"

text \<open>The loop of \<^verbatim>\<open>GetList\<close> never moves along the list, so it may run for ever (\<open>None\<close>).\<close>

partial_function (option) GetList :: "node_info list \<Rightarrow> u16 \<Rightarrow> node_info option option" where
  "GetList xs i = (case xs of [] \<Rightarrow> Some None
     | x # _ \<Rightarrow> if node_id x = i then Some (Some x) else GetList xs i)"

fun except_append :: "u16 list \<Rightarrow> u16 \<Rightarrow> u16 list" where
  "except_append [] i = [i]"
| "except_append (x # xs) i = x # except_append xs i"

definition ExceptListPush :: "u16 \<Rightarrow> u16 list \<Rightarrow> u16 \<Rightarrow> u16 list" where
  "ExceptListPush my_id except i =
     (if except = [] then except_append [my_id] i else except_append except i)"

section \<open>The table interface\<close>

text \<open>
  What the message handlers rely on: the list is a table of nodes by their id.
\<close>

locale node_table =
  fixes contains :: "'t \<Rightarrow> 'k \<Rightarrow> bool"
    and push :: "'t \<Rightarrow> 'n \<Rightarrow> 't"
    and update :: "'t \<Rightarrow> 'n \<Rightarrow> 't"
    and lookup :: "'t \<Rightarrow> 'k \<Rightarrow> 'n option"
    and key :: "'n \<Rightarrow> 'k"
    and wf :: "'t \<Rightarrow> bool"
  assumes contains_lookup: "contains t k \<longleftrightarrow> lookup t k \<noteq> None"
    and lookup_push: "\<not> contains t (key n) \<Longrightarrow> lookup (push t n) = (lookup t)(key n \<mapsto> n)"
    and lookup_update: "wf t \<Longrightarrow> contains t (key n) \<Longrightarrow> lookup (update t n) = (lookup t)(key n \<mapsto> n)"
    and wf_push: "wf t \<Longrightarrow> \<not> contains t (key n) \<Longrightarrow> wf (push t n)"
    and wf_update: "wf t \<Longrightarrow> wf (update t n)"
begin

text \<open>Insert or overwrite, and insert unless known: the two ways received nodes are stored.\<close>

definition merge :: "'t \<Rightarrow> 'n \<Rightarrow> 't" where
  "merge t n = (if contains t (key n) then update t n else push t n)"

definition learn :: "'t \<Rightarrow> 'n \<Rightarrow> 't" where
  "learn t n = (if contains t (key n) then t else push t n)"

lemma wf_merge: "wf t \<Longrightarrow> wf (merge t n)"
  by (simp add: merge_def wf_push wf_update)

lemma wf_learn: "wf t \<Longrightarrow> wf (learn t n)"
  by (simp add: learn_def wf_push)

lemma lookup_merge: "wf t \<Longrightarrow> lookup (merge t n) = (lookup t)(key n \<mapsto> n)"
  by (simp add: merge_def lookup_push lookup_update)

lemma lookup_learn: "lookup (learn t n) = [key n \<mapsto> n] ++ lookup t"
proof (cases "contains t (key n)")
  case True
  then obtain m where "lookup t (key n) = Some m" by (auto simp: contains_lookup)
  with True show ?thesis by (auto simp: learn_def map_add_def fun_eq_iff split: option.splits)
next
  case False
  then have "lookup t (key n) = None" by (simp add: contains_lookup)
  with False show ?thesis
    by (auto simp: learn_def lookup_push map_add_def fun_eq_iff split: option.splits)
qed

lemma lookup_merge_all:
  "wf t \<Longrightarrow> lookup (foldl merge t ns) = lookup t ++ map_of (rev (map (\<lambda>n. (key n, n)) ns)) \<and>
     wf (foldl merge t ns)"
  by (induction ns arbitrary: t) (simp_all add: lookup_merge wf_merge map_add_upd_left)

lemma lookup_learn_all:
  "wf t \<Longrightarrow> lookup (foldl learn t ns) = map_of (map (\<lambda>n. (key n, n)) ns) ++ lookup t \<and>
     wf (foldl learn t ns)"
proof (induction ns arbitrary: t)
  case Nil
  then show ?case by simp
next
  case (Cons n ns)
  have "map_of (map (\<lambda>n. (key n, n)) ns) ++ ([key n \<mapsto> n] ++ lookup t) =
      map_of (map (\<lambda>n. (key n, n)) (n # ns)) ++ lookup t"
    by (rule ext) (auto simp: map_add_def split: option.splits)
  with Cons.IH [OF wf_learn [OF Cons.prems, of n]] show ?case
    by (simp only: foldl_Cons lookup_learn simp_thms)
qed

end

fun list_lookup :: "node_info list \<Rightarrow> u16 \<Rightarrow> node_info option" where
  "list_lookup [] i = None"
| "list_lookup (x # xs) i = (if node_id x = i then Some x else list_lookup xs i)"

definition list_wf :: "node_info list \<Rightarrow> bool" where
  "list_wf xs \<longleftrightarrow> distinct (map node_id xs)"

lemma IsListContains_set: "IsListContains xs i \<longleftrightarrow> i \<in> node_id ` set xs"
  by (induction xs) auto

lemma ListPush_append: "ListPush xs n = xs @ [n]"
  by (induction xs) auto

lemma ListUpdate_map: "ListUpdate xs n = map (\<lambda>x. if node_id n = node_id x then n else x) xs"
  by (induction xs) auto

lemma ids_ListUpdate: "map node_id (ListUpdate xs n) = map node_id xs"
  by (induction xs) auto

lemma ListSize_length: "ListSize xs = int (length xs)"
  by (induction xs) auto

lemma GetListIndex_idx: "GetListIndex xs (k + j) k = idx xs j"
proof (induction xs arbitrary: k j)
  case Nil
  show ?case by (simp add: idx_def)
next
  case (Cons x xs)
  have "k + j = k + 1 + (j - 1)" by simp
  with Cons.IH [of "k + 1" "j - 1"] have "GetListIndex xs (k + j) (k + 1) = idx xs (j - 1)" by metis
  then show ?case by (auto simp: idx_def nth_Cons' nat_diff_distrib)
qed

lemma list_lookup_None: "list_lookup xs i = None \<longleftrightarrow> i \<notin> node_id ` set xs"
  by (induction xs) auto

interpretation node_list: node_table IsListContains ListPush ListUpdate list_lookup node_id list_wf
proof
  fix t :: "node_info list" and k n
  show "IsListContains t k \<longleftrightarrow> list_lookup t k \<noteq> None"
    by (induction t) auto
  show "list_lookup (ListPush t n) = (list_lookup t)(node_id n \<mapsto> n)" if "\<not> IsListContains t (node_id n)"
    using that by (induction t) (auto simp: fun_eq_iff)
  show "list_lookup (ListUpdate t n) = (list_lookup t)(node_id n \<mapsto> n)"
    if "list_wf t" "IsListContains t (node_id n)"
    using that
  proof (induction t)
    case (Cons x t)
    have "list_lookup (ListUpdate t n) = list_lookup t" if "node_id n \<notin> node_id ` set t"
      using that by (induction t) auto
    with Cons show ?case by (auto simp: list_wf_def fun_eq_iff)
  qed simp
  show "list_wf (ListPush t n)" if "list_wf t" "\<not> IsListContains t (node_id n)"
    using that by (simp add: list_wf_def ListPush_append IsListContains_set)
  show "list_wf (ListUpdate t n)" if "list_wf t"
    using that by (simp add: list_wf_def ids_ListUpdate)
qed

text \<open>The refused nodes: membership and the first entry, the node's own id.\<close>

lemma IsExceptListContains_set: "IsExceptListContains xs i \<longleftrightarrow> i \<in> set xs"
  by (induction xs) auto

lemma except_append_snoc: "except_append xs i = xs @ [i]"
  by (induction xs) auto

lemma ExceptListPush_set: "set (ExceptListPush my xs i) = (if xs = [] then {my, i} else insert i (set xs))"
  by (auto simp: ExceptListPush_def except_append_snoc)

lemma GetCloestLayer_last: "GetCloestLayer my xs = (if xs = [] then my else layer (last xs))"
proof -
  have d: "diff_layers my d xs = (if xs = [] then d else int (unat (layer (last xs))) - int (unat my))" for d
    by (induction xs arbitrary: d) auto
  show ?thesis by (simp add: GetCloestLayer_def d)
qed

lemma prior_loop_find:
  "prior_loop l except xs = find (\<lambda>x. node_id x \<notin> set except \<and> layer x = l) xs"
  by (induction xs) (auto simp: IsExceptListContains_set)

text \<open>
  C29: The node \<^verbatim>\<open>GetPriorList\<close> picks is the first one of the list that has not refused and is on
  the layer of the \<^emph>\<open>last\<close> node of the list: \<^verbatim>\<open>GetCloestLayer\<close> keeps the difference of the last
  node it sees, not the smallest one, so this node's own layer plays no part.
\<close>

theorem GetPriorList_picks:
  "GetPriorList my except xs =
     (if xs = [] then None
      else find (\<lambda>x. node_id x \<notin> set except \<and> layer x = layer (last xs)) xs)"
  by (simp add: GetPriorList_def GetCloestLayer_last prior_loop_find)

lemma GetList_Cons_other: "node_id x \<noteq> i \<Longrightarrow> GetList (x # xs) i = None"
proof (rule ccontr)
  assume x: "node_id x \<noteq> i" and "GetList (x # xs) i \<noteq> None"
  then obtain r where r: "GetList (x # xs) i = Some r" by auto
  have "\<not> (\<exists>y ys. xs' = y # ys \<and> node_id y \<noteq> i')" if "GetList xs' i' = Some r'" for xs' i' r'
    by (rule GetList.raw_induct [where P = "\<lambda>xs i r. \<not> (\<exists>y ys. xs = y # ys \<and> node_id y \<noteq> i)", OF _ that])
      (fastforce split: list.splits if_splits)
  with r x show False by blast
qed

text \<open>
  C30: \<^verbatim>\<open>GetList\<close> finds a node only at the head of the list; when the head is another node it
  never returns, wherever the node is.
\<close>

theorem GetList_head_only:
  "GetList xs i = (case xs of [] \<Rightarrow> Some None
     | x # _ \<Rightarrow> if node_id x = i then Some (Some x) else None)"
  by (cases xs) (simp_all add: GetList.simps [of "[]"] GetList_Cons_other,
      subst GetList.simps, simp add: GetList_Cons_other)

end
