(* ===== verification/Node_State.thy ===== *)
theory Node_State
  imports Store Packet Node_List
begin

text \<open>
  The state of a node and its slots: the globals of \<^verbatim>\<open>src/src/common/p2p.h\<close> and
  \<^verbatim>\<open>wrapper.h\<close>, and \<^verbatim>\<open>src/src/common/p2p.c\<close>, lines 920 to 965, 1012 to 1042, 1429 to 1445
  and 1498 to 1516.  Slots 0 and 1 are the children, 2 the parent; 3 is this node in
  \<^verbatim>\<open>NODES_STATUS\<close> and the address of a passing correspondent in \<^verbatim>\<open>DST_IP\<close>.

  What the environment decides is read from the state: the k-th reading of the clock is
  \<open>CLOCK k\<close>, the k-th value of \<^verbatim>\<open>rand\<close> is \<open>RAND k\<close>, an uninitialised \<^verbatim>\<open>u16\<close> on the stack holds
  \<open>STACK_U16\<close>.  \<open>WIRE\<close> lists the frames given to \<^verbatim>\<open>write\<close> so far.
\<close>

section \<open>State\<close>

record node = store +
  ADDR :: addressing
  NODES_STATUS :: "node_status list"
  NODES_LIST :: "node_info list"
  EXCEPT_LIST :: "u16 list"
  CURRENT_CHILD_NUM :: int
  CONNECTED_NODES :: u8
  IS_SETUP :: bool
  IS_BEGIN_STREAMING :: bool
  IS_BEGIN_PLAYING :: bool
  IS_RETRY :: bool
  CURRENT_NODE_ID :: u16
  CURRENT_CACHE :: int
  TOTAL_BUFFER :: u64
  PLAYED_BUFFER :: u64
  GATEWAY_MAC :: bytes
  IS_GATEWAY_MAC_GET :: bool
  DETACH_NUM :: int
  DEPART_NUM :: int
  START_TIMESTAMP :: timeval
  TIMESTAMP :: timeval
  SETUP_TIMESTAMP :: timeval
  LISTUPDATE_TIMESTAMP :: timeval
  DEPART_TIMESTAMP :: timeval
  RETRY_TIMESTAMP :: timeval
  PLAYED_TIMESTAMP :: timeval
  CLOCK :: "nat \<Rightarrow> timeval"
  TICK :: nat
  RAND :: "nat \<Rightarrow> nat"
  RAND_N :: nat
  STACK_U16 :: u16
  WIRE :: "bytes list"

definition MAX_NODE_NUM :: nat where [c_eval]: "MAX_NODE_NUM = 4"
definition PARENT_ID :: int where [c_eval]: "PARENT_ID = 2"
definition TMP_ID :: int where [c_eval]: "TMP_ID = 3"
definition MY_ID :: int where [c_eval]: "MY_ID = 3"
definition ORIGIN_ID :: u16 where [c_eval]: "ORIGIN_ID = 0"
definition DEFAULT_CACHE :: int where [c_eval]: "DEFAULT_CACHE = 200"

text \<open>\<^verbatim>\<open>(u32)(DEFAULT_CACHE * 0.8)\<close> and \<^verbatim>\<open>(u64)(0.01 * 1000 * 1000 / (8 * 1000))\<close>.\<close>

definition CACHE_TLV :: int where [c_eval]: "CACHE_TLV = 160"
definition BUFFER_DT_SEC :: u64 where [c_eval]: "BUFFER_DT_SEC = 1"

section \<open>The code\<close>

text \<open>\<^verbatim>\<open>(CONNECTED_NODES >> i) & 0x01\<close>\<close>

definition connected :: "u8 \<Rightarrow> nat \<Rightarrow> bool" where
  "connected c i \<longleftrightarrow> drop_bit i c AND 1 \<noteq> 0"

text \<open>\<^verbatim>\<open>UpdateTimestamp\<close> with the next reading of the clock.\<close>

definition stamp :: "node \<Rightarrow> timeval \<times> node" where
  "stamp s = (UpdateTimestamp (START_TIMESTAMP s) (CLOCK s (TICK s)), s\<lparr>TICK := TICK s + 1\<rparr>)"

definition diff_time :: "timeval \<Rightarrow> node \<Rightarrow> timeval \<times> node" where
  "diff_time ts s = (DiffCurrentTime (START_TIMESTAMP s) (CLOCK s (TICK s)) ts, s\<lparr>TICK := TICK s + 1\<rparr>)"

text \<open>The stamp of slot \<open>i\<close>: \<^verbatim>\<open>UpdateTimestamp(&NODES_STATUS[i].timestamp)\<close>.\<close>

definition stamp_slot :: "int \<Rightarrow> node \<Rightarrow> node option" where
  "stamp_slot i s = (let (t, s) = stamp s in do {
     n \<leftarrow> idx (NODES_STATUS s) i;
     ns \<leftarrow> upd (NODES_STATUS s) i (n\<lparr>timestamp := t\<rparr>);
     Some (s\<lparr>NODES_STATUS := ns\<rparr>)
   })"

definition SendPacket :: "bytes \<Rightarrow> u16 \<Rightarrow> int \<Rightarrow> node \<Rightarrow> node option" where
  "SendPacket data n dst_id s = do {
     f \<leftarrow> SendPacket_frame data n dst_id (ADDR s);
     Some (s\<lparr>WIRE := WIRE s @ [f]\<rparr>)
   }"

text \<open>\<^verbatim>\<open>RenewDstIPandMAC( ip , port , GATEWAY_MAC , dst_id )\<close>\<close>

definition renew_dst :: "u32 \<Rightarrow> u16 \<Rightarrow> int \<Rightarrow> node \<Rightarrow> node option" where
  "renew_dst ip p dst_id s = do {
     a \<leftarrow> RenewDstIPandMAC ip p (GATEWAY_MAC s) dst_id (ADDR s);
     Some (s\<lparr>ADDR := a\<rparr>)
   }"

text \<open>
  The search of \<^verbatim>\<open>GenerateRndID\<close> for the \<open>rnd_val\<close>-th connected child, over the slots still to
  visit; \<^verbatim>\<open>rand() % range\<close> takes the sign of \<^verbatim>\<open>rand()\<close>, which is never negative.
\<close>

fun rnd_loop :: "u8 \<Rightarrow> int \<Rightarrow> int \<Rightarrow> nat list \<Rightarrow> int" where
  "rnd_loop c rnd_val child_count [] = -1"
| "rnd_loop c rnd_val child_count (i # ks) =
     (let child_count = (if connected c i then child_count + 1 else child_count)
      in if child_count = rnd_val then int i else rnd_loop c rnd_val child_count ks)"

definition GenerateRndID :: "int \<Rightarrow> int \<Rightarrow> node \<Rightarrow> int \<times> node" where
  "GenerateRndID init_val rng s =
     (let (rnd_val, s) =
        (if rng \<noteq> 0
         then (int (RAND s (RAND_N s)) mod \<bar>rng\<bar> + init_val, s\<lparr>RAND_N := RAND_N s + 1\<rparr>)
         else (init_val, s))
      in if rnd_val = 0 then (MY_ID, s)
         else (rnd_loop (CONNECTED_NODES s) rnd_val 0 [0..<MAX_CHILD_NUM], s))"

fun free_slot :: "u8 \<Rightarrow> nat list \<Rightarrow> int" where
  "free_slot c [] = -1"
| "free_slot c (i # ks) = (if \<not> connected c i then int i else free_slot c ks)"

definition CheckChildNum :: "node \<Rightarrow> int" where
  "CheckChildNum s =
     (if CURRENT_CHILD_NUM s < int MAX_CHILD_NUM
      then free_slot (CONNECTED_NODES s) [0..<MAX_CHILD_NUM] else -1)"

text \<open>\<^verbatim>\<open>IsDuplicatedChild\<close> reads \<^verbatim>\<open>NODES_STATUS[id]\<close>, outside the array for an \<open>id\<close> above 3.\<close>

fun dup_loop :: "node_status list \<Rightarrow> u8 \<Rightarrow> u16 \<Rightarrow> bool \<Rightarrow> nat list \<Rightarrow> bool option" where
  "dup_loop ns c i ret [] = Some ret"
| "dup_loop ns c i ret (k # ks) =
     (if connected c k then do {
        n \<leftarrow> idx ns (int (unat i));
        dup_loop ns c i (if i = node_id n then True else ret) ks
      } else dup_loop ns c i ret ks)"

definition IsDuplicatedChild :: "u16 \<Rightarrow> node \<Rightarrow> bool option" where
  "IsDuplicatedChild i s = dup_loop (NODES_STATUS s) (CONNECTED_NODES s) i False [0..<MAX_CHILD_NUM]"

definition GtoPIP :: "'a node_info_scheme \<Rightarrow> node \<Rightarrow> u32 option" where
  "GtoPIP nd s = do {
     me \<leftarrow> idx (NODES_STATUS s) MY_ID;
     Some (if ipaddr me = ipaddr nd then p_ipaddr nd else ipaddr nd)
   }"

text \<open>
  The choice of another parent: \<^verbatim>\<open>GetPriorList\<close>, and the origin when there is none.  The flag
  tells that the origin was taken.
\<close>

definition find_prior :: "node \<Rightarrow> (node_info \<times> bool) option" where
  "find_prior s = do {
     me \<leftarrow> idx (NODES_STATUS s) MY_ID;
     case GetPriorList (layer me) (EXCEPT_LIST s) (NODES_LIST s) of
       Some n \<Rightarrow> Some (n, False)
     | None \<Rightarrow> do {
         found \<leftarrow> GetList (NODES_LIST s) ORIGIN_ID;
         n \<leftarrow> found;
         Some (n, True)
       }
   }"

end
