(* ===== verification/Messages.thy ===== *)
theory Messages
  imports Node_State
begin

text \<open>
  The messages a node sends: the \<^verbatim>\<open>Send\<close> functions of \<^verbatim>\<open>src/src/common/p2p.c\<close>.  Each builds its
  data in \<^verbatim>\<open>data[MAX_DATA_BYTES]\<close>, cleared first; a write outside it has no defined outcome.
\<close>

definition DATA_HDR_BYTES :: nat where [c_eval]: "DATA_HDR_BYTES = 1"
definition MAX_DATA_BYTES :: nat where
  [c_eval]: "MAX_DATA_BYTES = DATA_HDR_BYTES + BLOCKINFO_BYTES + MAX_BLOCK_BYTES"

datatype proto = SETUP_PROTO | BLOCK_PROTO | INITIAL_STATUS_PROTO | ADVERTISE_PROTO | CONNECT_PROTO
  | DEPART_PROTO | DETACH_PROTO | ACCEPT_PROTO | UNACCEPT_PROTO | REQ_LIST_PROTO | RES_LIST_PROTO
  | ID_PROTO | KEEPALIVE_PROTO | KEEPALIVERES_PROTO

primrec proto_code :: "proto \<Rightarrow> u8" where
  "proto_code SETUP_PROTO = 0" | "proto_code BLOCK_PROTO = 1" | "proto_code INITIAL_STATUS_PROTO = 2"
| "proto_code ADVERTISE_PROTO = 3" | "proto_code CONNECT_PROTO = 4" | "proto_code DEPART_PROTO = 5"
| "proto_code DETACH_PROTO = 6" | "proto_code ACCEPT_PROTO = 7" | "proto_code UNACCEPT_PROTO = 8"
| "proto_code REQ_LIST_PROTO = 9" | "proto_code RES_LIST_PROTO = 10" | "proto_code ID_PROTO = 11"
| "proto_code KEEPALIVE_PROTO = 12" | "proto_code KEEPALIVERES_PROTO = 13"

text \<open>The buffer after \<^verbatim>\<open>bzero\<close> and the protocol byte.\<close>

definition data_buf :: "proto \<Rightarrow> bytes" where
  "data_buf p = proto_code p # replicate (MAX_DATA_BYTES - 1) 0"

section \<open>The code\<close>

definition SendSetup :: "node \<Rightarrow> node option" where
  "SendSetup s = do {
     me \<leftarrow> idx (NODES_STATUS s) MY_ID;
     data \<leftarrow> wrn (data_buf SETUP_PROTO) DATA_HDR_BYTES (mem32 (htonl (p_ipaddr me)));
     if 0 < node_id me then do {
       data \<leftarrow> wrn data (DATA_HDR_BYTES + 4) (mem16 (htons (node_id me)));
       data \<leftarrow> wrn data (DATA_HDR_BYTES + 6) (mem32 (htonl (ipaddr me)));
       SendPacket data (of_nat (DATA_HDR_BYTES + 10)) PARENT_ID s
     } else SendPacket data (of_nat (DATA_HDR_BYTES + 4)) PARENT_ID s
   }"

text \<open>\<open>ip\<close> and \<open>p\<close> are the source address and port of the packet received, in network order.\<close>

definition SendID :: "u32 \<Rightarrow> u16 \<Rightarrow> node \<Rightarrow> node option" where
  "SendID ip p s = (let s = s\<lparr>CURRENT_NODE_ID := CURRENT_NODE_ID s + 1\<rparr> in do {
     s \<leftarrow> renew_dst ip (ntohs p) TMP_ID s;
     data \<leftarrow> wrn (data_buf ID_PROTO) DATA_HDR_BYTES (mem16 (htons (CURRENT_NODE_ID s)));
     data \<leftarrow> wrn data (DATA_HDR_BYTES + 2) (mem32 ip);
     SendPacket data (of_nat (DATA_HDR_BYTES + 6)) TMP_ID s
   })"

text \<open>The connected slots except \<open>skip\<close>, copied one after the other from \<open>base\<close> on.\<close>

fun copy_connected ::
    "node_status list \<Rightarrow> u8 \<Rightarrow> int \<Rightarrow> nat \<Rightarrow> nat list \<Rightarrow> bytes \<Rightarrow> nat \<Rightarrow> (bytes \<times> nat) option" where
  "copy_connected ns c skip base [] data count = Some (data, count)"
| "copy_connected ns c skip base (i # ks) data count =
     (if int i = skip then copy_connected ns c skip base ks data count
      else if connected c i then do {
        n \<leftarrow> idx ns (int i);
        data \<leftarrow> CopyNodeStatusToBytes data (base + NODE_STATUS_BYTES * count) n;
        copy_connected ns c skip base ks data (count + 1)
      } else copy_connected ns c skip base ks data count)"

definition timecode_bytes :: "u64 \<Rightarrow> bytes" where
  "timecode_bytes t = map (\<lambda>i. ucast (drop_bit (8 * i) t AND 0xff)) [0..<8]"

definition SendInitialStatus :: "int \<Rightarrow> node \<Rightarrow> node option" where
  "SendInitialStatus dst_id s = do {
     data \<leftarrow> wrn (data_buf INITIAL_STATUS_PROTO) DATA_HDR_BYTES (timecode_bytes (TIMECODE_OFFSET s));
     let status_num = (if connected (CONNECTED_NODES s) (nat PARENT_ID)
       then CURRENT_CHILD_NUM s + 1 + 1 + 1 else CURRENT_CHILD_NUM s + 1 + 1);
     new \<leftarrow> idx (NODES_STATUS s) dst_id;
     data \<leftarrow> CopyNodeStatusToBytes data (DATA_HDR_BYTES + 8) new;
     me \<leftarrow> idx (NODES_STATUS s) MY_ID;
     data \<leftarrow> CopyNodeStatusToBytes data (DATA_HDR_BYTES + 8 + NODE_STATUS_BYTES) me;
     (data, _) \<leftarrow> copy_connected (NODES_STATUS s) (CONNECTED_NODES s) dst_id (DATA_HDR_BYTES + 8)
       [0..<MAX_NODE_NUM - 1] data 2;
     SendPacket data (of_int (int DATA_HDR_BYTES + int NODE_STATUS_BYTES * status_num + 8)) dst_id s
   }"

definition SendAdvertise :: "int \<Rightarrow> int \<Rightarrow> node \<Rightarrow> node option" where
  "SendAdvertise dst_id ad_id s = do {
     let status_num = CURRENT_CHILD_NUM s + 1;
     ad \<leftarrow> idx (NODES_STATUS s) ad_id;
     data \<leftarrow> CopyNodeStatusToBytes (data_buf ADVERTISE_PROTO) DATA_HDR_BYTES ad;
     (data, count) \<leftarrow> (if ad_id \<noteq> MY_ID then do {
         me \<leftarrow> idx (NODES_STATUS s) MY_ID;
         data \<leftarrow> CopyNodeStatusToBytes data (DATA_HDR_BYTES + NODE_STATUS_BYTES) me;
         Some (data, 2)
       } else Some (data, 1));
     (data, _) \<leftarrow> copy_connected (NODES_STATUS s) (CONNECTED_NODES s) ad_id DATA_HDR_BYTES
       [0..<MAX_NODE_NUM - 1] data count;
     SendPacket data (of_int (int DATA_HDR_BYTES + int NODE_STATUS_BYTES * status_num)) dst_id s
   }"

text \<open>\<^verbatim>\<open>SendConnect\<close> and \<^verbatim>\<open>SendDepart\<close> send this node's status, whatever \<open>dst_id\<close>.\<close>

definition SendConnect :: "int \<Rightarrow> node \<Rightarrow> node option" where
  "SendConnect dst_id s = do {
     me \<leftarrow> idx (NODES_STATUS s) MY_ID;
     data \<leftarrow> CopyNodeStatusToBytes (data_buf CONNECT_PROTO) DATA_HDR_BYTES me;
     SendPacket data (of_nat (DATA_HDR_BYTES + NODE_STATUS_BYTES)) TMP_ID s
   }"

definition SendDepart :: "node \<Rightarrow> node option" where
  "SendDepart s = do {
     me \<leftarrow> idx (NODES_STATUS s) MY_ID;
     data \<leftarrow> CopyNodeStatusToBytes (data_buf DEPART_PROTO) DATA_HDR_BYTES me;
     s \<leftarrow> SendPacket data (of_nat (DATA_HDR_BYTES + NODE_STATUS_BYTES)) PARENT_ID s;
     Some (s\<lparr>DEPART_NUM := DEPART_NUM s + 1\<rparr>)
   }"

definition SendDetach :: "int \<Rightarrow> u16 \<Rightarrow> node \<Rightarrow> node option" where
  "SendDetach dst_id cs s = do {
     data \<leftarrow> wrn (data_buf DETACH_PROTO) DATA_HDR_BYTES (mem16 cs);
     s \<leftarrow> SendPacket data (of_nat (DATA_HDR_BYTES + 2)) dst_id s;
     Some (s\<lparr>DETACH_NUM := DETACH_NUM s + 1\<rparr>)
   }"

definition SendAccept :: "int \<Rightarrow> node \<Rightarrow> node option" where
  "SendAccept dst_id s = do {
     me \<leftarrow> idx (NODES_STATUS s) MY_ID;
     data \<leftarrow> CopyNodeStatusToBytes (data_buf ACCEPT_PROTO) DATA_HDR_BYTES me;
     data \<leftarrow> wrn data (DATA_HDR_BYTES + NODE_STATUS_BYTES) (timecode_bytes (TIMECODE_OFFSET s));
     SendPacket data (of_nat (DATA_HDR_BYTES + NODE_STATUS_BYTES + 8)) dst_id s
   }"

text \<open>The four messages that carry only this node's id.\<close>

definition send_my_id :: "proto \<Rightarrow> int \<Rightarrow> node \<Rightarrow> node option" where
  "send_my_id p dst_id s = do {
     me \<leftarrow> idx (NODES_STATUS s) MY_ID;
     data \<leftarrow> wrn (data_buf p) DATA_HDR_BYTES (mem16 (htons (node_id me)));
     SendPacket data (of_nat (DATA_HDR_BYTES + 2)) dst_id s
   }"

definition SendUnaccept :: "int \<Rightarrow> node \<Rightarrow> node option" where
  "SendUnaccept = send_my_id UNACCEPT_PROTO"
definition SendKeepAlive :: "int \<Rightarrow> node \<Rightarrow> node option" where
  "SendKeepAlive = send_my_id KEEPALIVE_PROTO"
definition SendKeepAliveRes :: "int \<Rightarrow> node \<Rightarrow> node option" where
  "SendKeepAliveRes = send_my_id KEEPALIVERES_PROTO"
definition SendReqList :: "int \<Rightarrow> node \<Rightarrow> node option" where
  "SendReqList = send_my_id REQ_LIST_PROTO"

text \<open>The second loop of \<^verbatim>\<open>SendResList\<close>, over the indices of the list.\<close>

fun copy_list ::
    "node_info list \<Rightarrow> u16 \<Rightarrow> int list \<Rightarrow> bytes \<Rightarrow> nat \<Rightarrow> int \<Rightarrow> (bytes \<times> int) option" where
  "copy_list l dst [] data count status_num = Some (data, status_num)"
| "copy_list l dst (i # ks) data count status_num = do {
     n \<leftarrow> GetListIndex l i 0;
     if node_id n = dst then copy_list l dst ks data count (status_num - 1)
     else do {
       data \<leftarrow> CopyNodeStatusToBytes data (DATA_HDR_BYTES + NODE_STATUS_BYTES * count) n;
       copy_list l dst ks data (count + 1) status_num
     }
   }"

definition SendResList :: "int \<Rightarrow> node \<Rightarrow> node option" where
  "SendResList dst_id s = do {
     let list_num = ListSize (NODES_LIST s);
     let status_num = CURRENT_CHILD_NUM s - 1 + list_num;
     (data, count) \<leftarrow> copy_connected (NODES_STATUS s) (CONNECTED_NODES s) dst_id DATA_HDR_BYTES
       [0..<MAX_CHILD_NUM] (data_buf RES_LIST_PROTO) 0;
     dst \<leftarrow> idx (NODES_STATUS s) dst_id;
     (data, status_num) \<leftarrow> copy_list (NODES_LIST s) (node_id dst) [0..list_num - 1] data count status_num;
     SendPacket data (of_int (int DATA_HDR_BYTES + int NODE_STATUS_BYTES * status_num)) dst_id s
   }"

definition SendEndStatus :: "int \<Rightarrow> node \<Rightarrow> node option" where
  "SendEndStatus dst_id s = do {
     data \<leftarrow> wrn (data_buf BLOCK_PROTO) DATA_HDR_BYTES (replicate BLOCKINFO_BYTES 0xff);
     SendPacket data (of_nat (BLOCKINFO_BYTES + DATA_HDR_BYTES)) dst_id s
   }"

definition SendWebMHeader :: "int \<Rightarrow> node \<Rightarrow> node option" where
  "SendWebMHeader dst_id s = do {
     h \<leftarrow> WEBM_HEADER_data s;
     xs \<leftarrow> rdn h 0 (unat (WEBM_HEADER_total_bytes s));
     data \<leftarrow> wrn (data_buf BLOCK_PROTO) (BLOCKINFO_BYTES + DATA_HDR_BYTES) xs;
     SendPacket data (WEBM_HEADER_total_bytes s + of_nat (BLOCKINFO_BYTES + DATA_HDR_BYTES)) dst_id s
   }"

end
