(* ===== verification/Handlers.thy ===== *)
theory Handlers
  imports Messages
begin

text \<open>
  What a node does with each message: the \<^verbatim>\<open>Node\<close> functions of \<^verbatim>\<open>src/src/common/p2p.c\<close>.  \<open>data\<close>
  is the memory of the received packet from the data on (the rest of the 1514-byte buffer, with
  whatever an earlier packet left behind the end of this one), \<open>n\<close> the number of data bytes.
\<close>

text \<open>
  \<^verbatim>\<open>(data[i]) << 8*i\<close> added to a \<^verbatim>\<open>u64\<close>: the byte is promoted to \<^verbatim>\<open>int\<close>, so the result is a signed
  32-bit value.  From \<open>i = 4\<close> on the shift count is out of range, which the C standard leaves
  undefined; it is taken modulo 32, as the shift instruction of the x86 does.
\<close>

definition shl_int :: "u8 \<Rightarrow> nat \<Rightarrow> u64" where
  "shl_int b k = scast (push_bit (k mod 32) (ucast b :: u32))"

fun add_timecode :: "bytes \<Rightarrow> nat \<Rightarrow> nat list \<Rightarrow> u64 \<Rightarrow> u64 option" where
  "add_timecode data p [] t = Some t"
| "add_timecode data p (i # ks) t = do {
     b \<leftarrow> rd data (p + i);
     add_timecode data p ks (t + shl_int b (8 * i))
   }"

section \<open>Joining\<close>

text \<open>
  The branch of \<^verbatim>\<open>NodeSetup\<close> that takes the child in: the block the child starts from is the first
  of the last complete cluster.
\<close>

definition setup_child :: "bytes \<Rightarrow> u32 \<Rightarrow> u16 \<Rightarrow> int \<Rightarrow> node \<Rightarrow> node option" where
  "setup_child data ip node_port child_id s = do {
     s \<leftarrow> renew_dst ip node_port child_id s;
     c \<leftarrow> CURRENT_CLUSTER s;
     slot \<leftarrow> idx (CURRENT_CHILD_BLOCK s) child_id;
     b \<leftarrow> slot;
     let b = RenewBlock (b\<lparr>info := (info b)\<lparr>cluster_seq := ucast (cl_seq (cl_prev c))\<rparr>\<rparr>);
     let b = b\<lparr>prev := (prev b)\<lparr>cluster_seq := cluster_seq (prev b) - 1\<rparr>\<rparr>;
     blocks \<leftarrow> upd (CURRENT_CHILD_BLOCK s) child_id (Some b);
     let s = s\<lparr>CURRENT_CHILD_BLOCK := blocks\<rparr>;
     child \<leftarrow> idx (NODES_STATUS s) child_id;
     me \<leftarrow> idx (NODES_STATUS s) MY_ID;
     p_ip \<leftarrow> rdn data 0 4;
     let child = (copy_info child (prev b))\<lparr>layer := layer me + 1, port := node_port,
       p_ipaddr := ntohl (load32 p_ip)\<rparr>;
     child \<leftarrow> (if node_id me = 0
       then Some (child\<lparr>node_id := CURRENT_NODE_ID s, ipaddr := ntohl ip\<rparr>)
       else do {
         i \<leftarrow> rdn data 4 2;
         g \<leftarrow> rdn data 6 4;
         Some (child\<lparr>node_id := ntohs (load16 i), ipaddr := ntohl (load32 g)\<rparr>)
       });
     ns \<leftarrow> upd (NODES_STATUS s) child_id child;
     s \<leftarrow> SendInitialStatus child_id (s\<lparr>NODES_STATUS := ns\<rparr>);
     s \<leftarrow> SendWebMHeader child_id s;
     s \<leftarrow> stamp_slot child_id s;
     Some (s\<lparr>CONNECTED_NODES := CONNECTED_NODES s + push_bit (nat child_id) 1,
       CURRENT_CHILD_NUM := CURRENT_CHILD_NUM s + 1\<rparr>)
   }"

text \<open>\<open>ip\<close> and \<open>p\<close> are the source address and port of the packet, in network order.\<close>

definition NodeSetup :: "bytes \<Rightarrow> u16 \<Rightarrow> u32 \<Rightarrow> u16 \<Rightarrow> node \<Rightarrow> node option" where
  "NodeSetup data n ip p s =
     (let node_port = ntohs p;
          (rnd_child_id, s) = GenerateRndID 0 (CURRENT_CHILD_NUM s + 1) s
      in if rnd_child_id \<noteq> MY_ID then do {
           s \<leftarrow> renew_dst ip node_port TMP_ID s;
           SendAdvertise TMP_ID rnd_child_id s
         }
         else if CURRENT_CACHE s < DEFAULT_CACHE then do {
           s \<leftarrow> renew_dst ip node_port TMP_ID s;
           SendAdvertise TMP_ID MY_ID s
         }
         else if CheckChildNum s \<noteq> -1 then setup_child data ip node_port (CheckChildNum s) s
         else do {
           s \<leftarrow> renew_dst ip node_port TMP_ID s;
           let (rnd_child_id, s) = GenerateRndID 1 (CURRENT_CHILD_NUM s) s;
           SendAdvertise TMP_ID rnd_child_id s
         })"

definition NodeID :: "bytes \<Rightarrow> node \<Rightarrow> node option" where
  "NodeID data s = do {
     i \<leftarrow> rdn data 0 2;
     me \<leftarrow> idx (NODES_STATUS s) MY_ID;
     g \<leftarrow> rdn data 2 4;
     ns \<leftarrow> upd (NODES_STATUS s) MY_ID
       (me\<lparr>node_id := ntohs (load16 i), ipaddr := ntohl (load32 g)\<rparr>);
     Some (s\<lparr>NODES_STATUS := ns\<rparr>)
   }"

text \<open>
  The loop that stores a list of statuses: entries \<open>ks\<close> of the array at \<open>base\<close>.  Each is decoded
  into one local structure, all of whose copied fields are overwritten.
\<close>

fun learn_nodes :: "bytes \<Rightarrow> nat \<Rightarrow> nat list \<Rightarrow> node_info list \<Rightarrow> node_info list option" where
  "learn_nodes data base [] l = Some l"
| "learn_nodes data base (i # ks) l = do {
     n \<leftarrow> CopyBytesToNodeStatus node_info0 (drop (base + NODE_STATUS_BYTES * i) data);
     learn_nodes data base ks (if IsListContains l (node_id n) then l else ListPush l n)
   }"

text \<open>The number of elements an \<^verbatim>\<open>int\<close> count gives a loop \<^verbatim>\<open>for( i=a ; i<count ; i++ )\<close>.\<close>

definition upto_int :: "nat \<Rightarrow> int \<Rightarrow> nat list" where
  "upto_int a k = [a..<nat k]"

text \<open>\<^verbatim>\<open>(data_bytes - 8) / NODE_STATUS_BYTES\<close> in \<^verbatim>\<open>int\<close>, which rounds towards zero.\<close>

definition NodeInitialStatus :: "bytes \<Rightarrow> u16 \<Rightarrow> node \<Rightarrow> node option" where
  "NodeInitialStatus data n s = do {
     t \<leftarrow> add_timecode data 0 [0..<8] (NODE_TIMECODE_OFFSET s);
     let s = s\<lparr>NODE_TIMECODE_OFFSET := t\<rparr>;
     let status_num = (if 8 \<le> unat n then int (unat n - 8) div int NODE_STATUS_BYTES else 0);
     let list_num = status_num - 2;
     me \<leftarrow> idx (NODES_STATUS s) MY_ID;
     me \<leftarrow> CopyBytesToNodeStatus me (drop 8 data);
     ns \<leftarrow> upd (NODES_STATUS s) MY_ID me;
     let s = InitBlock_store (InitCluster (s\<lparr>NODES_STATUS := ns\<rparr>));
     b \<leftarrow> CURRENT_BLOCK s;
     let b = b\<lparr>info := (info b)\<lparr>cluster_seq := cluster_seq me\<rparr>,
               prev := (prev b)\<lparr>cluster_seq := cluster_seq me\<rparr>\<rparr>;
     let s = s\<lparr>CURRENT_BLOCK := Some b, IS_GET_TIMECODE_OFFSET := False\<rparr>;
     parent \<leftarrow> idx (NODES_STATUS s) PARENT_ID;
     parent \<leftarrow> CopyBytesToNodeStatus parent (drop (NODE_STATUS_BYTES + 8) data);
     ns \<leftarrow> upd (NODES_STATUS s) PARENT_ID parent;
     let s = s\<lparr>NODES_STATUS := ns,
       CONNECTED_NODES := CONNECTED_NODES s + push_bit (nat PARENT_ID) 1\<rparr>;
     l \<leftarrow> learn_nodes data (8 + 2 * NODE_STATUS_BYTES) (upto_int 0 list_num) (NODES_LIST s);
     let s = s\<lparr>NODES_LIST := l\<rparr>;
     let (t, s) = stamp s;
     let (u, s) = stamp (s\<lparr>LISTUPDATE_TIMESTAMP := t\<rparr>);
     s \<leftarrow> stamp_slot PARENT_ID (s\<lparr>DEPART_TIMESTAMP := u\<rparr>);
     Some (s\<lparr>IS_SETUP := False\<rparr>)
   }"

definition NodeAdvertise :: "bytes \<Rightarrow> u16 \<Rightarrow> node \<Rightarrow> node option" where
  "NodeAdvertise data n s = do {
     let status_num = unat n div NODE_STATUS_BYTES;
     ad \<leftarrow> CopyBytesToNodeStatus node_info0 data;
     l \<leftarrow> learn_nodes data 0 [1..<status_num] (NODES_LIST s);
     let s = s\<lparr>NODES_LIST := l\<rparr>;
     ip \<leftarrow> GtoPIP ad s;
     s \<leftarrow> renew_dst (htonl ip) (port ad) PARENT_ID s;
     let (t, s) = stamp s;
     SendSetup (s\<lparr>SETUP_TIMESTAMP := t\<rparr>)
   }"

section \<open>Changing the parent\<close>

definition NodeConnect :: "bytes \<Rightarrow> node \<Rightarrow> node option" where
  "NodeConnect data s = do {
     nd \<leftarrow> CopyBytesToNodeStatus node_info0 data;
     let ip = htonl (ipaddr nd);
     if CURRENT_CACHE s < DEFAULT_CACHE then do {
       s \<leftarrow> renew_dst ip (port nd) TMP_ID s;
       SendUnaccept TMP_ID s
     }
     else if CheckChildNum s \<noteq> -1 then do {
       let child_id = CheckChildNum s;
       dup \<leftarrow> IsDuplicatedChild (node_id nd) s;
       if dup then Some s
       else do {
         child \<leftarrow> idx (NODES_STATUS s) child_id;
         child \<leftarrow> CopyBytesToNodeStatus child data;
         s \<leftarrow> renew_dst ip (port nd) child_id s;
         slot \<leftarrow> idx (CURRENT_CHILD_BLOCK s) child_id;
         b \<leftarrow> slot;
         let b = RenewBlock (b\<lparr>info := (info b)\<lparr>cluster_seq := cluster_seq child\<rparr>\<rparr>);
         blocks \<leftarrow> upd (CURRENT_CHILD_BLOCK s) child_id (Some b);
         me \<leftarrow> idx (NODES_STATUS s) MY_ID;
         ns \<leftarrow> upd (NODES_STATUS s) child_id ((copy_info child (prev b))\<lparr>layer := layer me + 1\<rparr>);
         s \<leftarrow> SendAccept child_id (s\<lparr>CURRENT_CHILD_BLOCK := blocks, NODES_STATUS := ns\<rparr>);
         s \<leftarrow> stamp_slot child_id s;
         Some (s\<lparr>CONNECTED_NODES := CONNECTED_NODES s + push_bit (nat child_id) 1,
           CURRENT_CHILD_NUM := CURRENT_CHILD_NUM s + 1\<rparr>)
       }
     }
     else do {
       s \<leftarrow> renew_dst ip (port nd) TMP_ID s;
       SendUnaccept TMP_ID s
     }
   }"

text \<open>
  The loop of \<^verbatim>\<open>NodeDepart\<close> over the children; \<open>InitNodeStatus\<close> gets a copy of the structure and
  clears nothing.  The cluster number of the last match goes into the answer.
\<close>

fun depart_loop :: "u16 \<Rightarrow> nat list \<Rightarrow> u16 \<Rightarrow> node \<Rightarrow> (u16 \<times> node) option" where
  "depart_loop depart_id [] cs s = Some (cs, s)"
| "depart_loop depart_id (i # ks) cs s = do {
     n \<leftarrow> idx (NODES_STATUS s) (int i);
     if node_id n = depart_id then do {
       let s = s\<lparr>CURRENT_CHILD_NUM := CURRENT_CHILD_NUM s - 1,
         CONNECTED_NODES := CONNECTED_NODES s - push_bit i 1\<rparr>;
       slot \<leftarrow> idx (CURRENT_CHILD_BLOCK s) (int i);
       b \<leftarrow> slot;
       depart_loop depart_id ks (htons (cluster_seq (prev b))) s
     }
     else depart_loop depart_id ks cs s
   }"

definition NodeDepart :: "bytes \<Rightarrow> node \<Rightarrow> node option" where
  "NodeDepart data s = do {
     nd \<leftarrow> CopyBytesToNodeStatus node_info0 data;
     ip \<leftarrow> GtoPIP nd s;
     (cs, s) \<leftarrow> depart_loop (node_id nd) [0..<MAX_CHILD_NUM] (STACK_U16 s) s;
     s \<leftarrow> renew_dst (htonl ip) (port nd) TMP_ID s;
     SendDetach TMP_ID cs s
   }"

definition NodeDetach :: "bytes \<Rightarrow> node \<Rightarrow> node option" where
  "NodeDetach data s = do {
     raw \<leftarrow> rdn data 0 2;
     let cs = ntohs (load16 raw);
     let (t, s) = stamp (s\<lparr>IS_BEGIN_STREAMING := False,
       CONNECTED_NODES := CONNECTED_NODES s - push_bit (nat PARENT_ID) 1\<rparr>);
     let s = s\<lparr>DEPART_TIMESTAMP := t\<rparr>;
     me \<leftarrow> idx (NODES_STATUS s) MY_ID;
     ns \<leftarrow> upd (NODES_STATUS s) MY_ID (me\<lparr>cluster_seq := cs\<rparr>);
     let s = s\<lparr>NODES_STATUS := ns\<rparr>;
     (prior_node, _) \<leftarrow> find_prior s;
     ip \<leftarrow> GtoPIP prior_node s;
     let (t, s) = stamp s;
     parent \<leftarrow> idx (NODES_STATUS s) PARENT_ID;
     ns \<leftarrow> upd (NODES_STATUS s) PARENT_ID (parent\<lparr>node_id := node_id prior_node\<rparr>);
     s \<leftarrow> renew_dst (htonl ip) (port prior_node) TMP_ID (s\<lparr>RETRY_TIMESTAMP := t, NODES_STATUS := ns\<rparr>);
     SendConnect TMP_ID s
   }"

definition NodeAccept :: "bytes \<Rightarrow> node \<Rightarrow> node option" where
  "NodeAccept data s = do {
     s \<leftarrow> stamp_slot PARENT_ID (s\<lparr>IS_RETRY := False\<rparr>);
     parent \<leftarrow> idx (NODES_STATUS s) PARENT_ID;
     parent \<leftarrow> CopyBytesToNodeStatus parent data;
     ns \<leftarrow> upd (NODES_STATUS s) PARENT_ID parent;
     t \<leftarrow> add_timecode data NODE_STATUS_BYTES [0..<8] 0;
     me \<leftarrow> idx ns MY_ID;
     ns \<leftarrow> upd ns MY_ID (me\<lparr>layer := layer parent + 1\<rparr>);
     let s = s\<lparr>NODES_STATUS := ns, NODE_TIMECODE_OFFSET := t, EXCEPT_LIST := []\<rparr>;
     Some (if \<not> connected (CONNECTED_NODES s) (nat PARENT_ID)
       then s\<lparr>CONNECTED_NODES := CONNECTED_NODES s + push_bit (nat PARENT_ID) 1\<rparr> else s)
   }"

text \<open>The node that refused is added to the exceptions and another parent is asked.\<close>

definition NodeUnaccept :: "bytes \<Rightarrow> node \<Rightarrow> node option" where
  "NodeUnaccept data s = do {
     raw \<leftarrow> rdn data 0 2;
     let except_id = ntohs (load16 raw);
     me \<leftarrow> idx (NODES_STATUS s) MY_ID;
     let s = s\<lparr>EXCEPT_LIST := ExceptListPush (node_id me) (EXCEPT_LIST s) except_id\<rparr>;
     (prior_node, origin) \<leftarrow> find_prior s;
     let s = (if origin then s\<lparr>EXCEPT_LIST := []\<rparr> else s);
     ip \<leftarrow> GtoPIP prior_node s;
     s \<leftarrow> renew_dst (htonl ip) (port prior_node) TMP_ID s;
     SendConnect TMP_ID s
   }"

definition NodeRetry :: "node \<Rightarrow> node option" where
  "NodeRetry s = do {
     let (t, s) = stamp (s\<lparr>IS_RETRY := True\<rparr>);
     let s = s\<lparr>RETRY_TIMESTAMP := t\<rparr>;
     parent \<leftarrow> idx (NODES_STATUS s) PARENT_ID;
     me \<leftarrow> idx (NODES_STATUS s) MY_ID;
     let s = s\<lparr>EXCEPT_LIST := ExceptListPush (node_id me) (EXCEPT_LIST s) (node_id parent)\<rparr>;
     (prior_node, origin) \<leftarrow> find_prior s;
     let s = (if origin then s\<lparr>EXCEPT_LIST := []\<rparr> else s);
     ip \<leftarrow> GtoPIP prior_node s;
     c \<leftarrow> CURRENT_CLUSTER s;
     ns \<leftarrow> upd (NODES_STATUS s) MY_ID (me\<lparr>cluster_seq := ucast (cl_seq (cl c))\<rparr>);
     s \<leftarrow> renew_dst (htonl ip) (port prior_node) TMP_ID (s\<lparr>NODES_STATUS := ns\<rparr>);
     SendConnect TMP_ID s
   }"

section \<open>Keep-alive and lists\<close>

text \<open>The last connected slot whose node has this id, or \<open>-1\<close>.\<close>

fun find_slot :: "node_status list \<Rightarrow> u8 \<Rightarrow> u16 \<Rightarrow> int \<Rightarrow> nat list \<Rightarrow> int option" where
  "find_slot ns c i dst [] = Some dst"
| "find_slot ns c i dst (k # ks) =
     (if connected c k then do {
        n \<leftarrow> idx ns (int k);
        find_slot ns c i (if node_id n = i then int k else dst) ks
      } else find_slot ns c i dst ks)"

definition NodeKeepAlive :: "bytes \<Rightarrow> node \<Rightarrow> node option" where
  "NodeKeepAlive data s = do {
     raw \<leftarrow> rdn data 0 2;
     dst_id \<leftarrow> find_slot (NODES_STATUS s) (CONNECTED_NODES s) (ntohs (load16 raw)) (-1) [0..<MAX_NODE_NUM];
     if dst_id = -1 then Some s else SendKeepAliveRes dst_id s
   }"

fun stamp_slots :: "u16 \<Rightarrow> nat list \<Rightarrow> node \<Rightarrow> node option" where
  "stamp_slots i [] s = Some s"
| "stamp_slots i (k # ks) s =
     (if connected (CONNECTED_NODES s) k then do {
        n \<leftarrow> idx (NODES_STATUS s) (int k);
        s \<leftarrow> (if node_id n = i then stamp_slot (int k) s else Some s);
        stamp_slots i ks s
      } else stamp_slots i ks s)"

definition NodeKeepAliveRes :: "bytes \<Rightarrow> node \<Rightarrow> node option" where
  "NodeKeepAliveRes data s = do {
     raw \<leftarrow> rdn data 0 2;
     stamp_slots (ntohs (load16 raw)) [0..<MAX_NODE_NUM] s
   }"

definition NodeReqList :: "bytes \<Rightarrow> node \<Rightarrow> node option" where
  "NodeReqList data s = do {
     raw \<leftarrow> rdn data 0 2;
     dst_id \<leftarrow> find_slot (NODES_STATUS s) (CONNECTED_NODES s) (ntohs (load16 raw)) (-1) [0..<MAX_NODE_NUM];
     if dst_id = -1 then Some s else SendResList dst_id s
   }"

fun merge_nodes :: "bytes \<Rightarrow> nat list \<Rightarrow> node_info list \<Rightarrow> node_info list option" where
  "merge_nodes data [] l = Some l"
| "merge_nodes data (i # ks) l = do {
     n \<leftarrow> CopyBytesToNodeStatus node_info0 (drop (NODE_STATUS_BYTES * i) data);
     merge_nodes data ks (if IsListContains l (node_id n) then ListUpdate l n else ListPush l n)
   }"

definition NodeResList :: "bytes \<Rightarrow> u16 \<Rightarrow> node \<Rightarrow> node option" where
  "NodeResList data n s = do {
     l \<leftarrow> merge_nodes data [0..<unat n div NODE_STATUS_BYTES] (NODES_LIST s);
     Some (s\<lparr>NODES_LIST := l\<rparr>)
   }"

end
