(* ===== verification/Slots.thy ===== *)
theory Slots
  imports Handlers
begin

text \<open>
  The table of slots: the bit mask \<^verbatim>\<open>CONNECTED_NODES\<close> and the counter \<^verbatim>\<open>CURRENT_CHILD_NUM\<close>, the
  interface its users rely on, the invariant that ties the two together, and the messages that keep
  and that break it.
\<close>

section \<open>The interface\<close>

locale child_slots =
  fixes occ :: "'s \<Rightarrow> nat \<Rightarrow> bool"
    and cnt :: "'s \<Rightarrow> int"
    and claim :: "nat \<Rightarrow> 's \<Rightarrow> 's"
    and release :: "nat \<Rightarrow> 's \<Rightarrow> 's"
    and ok :: "'s \<Rightarrow> bool"
  assumes cnt_occ: "ok s \<Longrightarrow> cnt s = (if occ s 0 then 1 else 0) + (if occ s 1 then 1 else 0)"
    and ok_claim: "ok s \<Longrightarrow> i < 2 \<Longrightarrow> \<not> occ s i \<Longrightarrow> ok (claim i s)"
    and occ_claim: "ok s \<Longrightarrow> i < 2 \<Longrightarrow> \<not> occ s i \<Longrightarrow> j < 3 \<Longrightarrow> occ (claim i s) j \<longleftrightarrow> j = i \<or> occ s j"
    and ok_release: "ok s \<Longrightarrow> i < 2 \<Longrightarrow> occ s i \<Longrightarrow> ok (release i s)"
    and occ_release: "ok s \<Longrightarrow> i < 2 \<Longrightarrow> occ s i \<Longrightarrow> j < 3 \<Longrightarrow> occ (release i s) j \<longleftrightarrow> j \<noteq> i \<and> occ s j"
begin

lemma cnt_range: "ok s \<Longrightarrow> 0 \<le> cnt s \<and> cnt s \<le> 2"
  by (simp add: cnt_occ)

lemma full_iff: "ok s \<Longrightarrow> cnt s < 2 \<longleftrightarrow> (\<exists>i < 2. \<not> occ s i)"
proof -
  assume "ok s"
  moreover have "(\<exists>i < 2. \<not> occ s i) \<longleftrightarrow> \<not> occ s 0 \<or> \<not> occ s 1"
    by (auto simp: less_2_cases_iff)
  ultimately show ?thesis by (simp add: cnt_occ)
qed

lemma cnt_claim: "ok s \<Longrightarrow> i < 2 \<Longrightarrow> \<not> occ s i \<Longrightarrow> cnt (claim i s) = cnt s + 1"
  using cnt_occ [OF ok_claim, of s i] by (auto simp: cnt_occ occ_claim less_2_cases_iff)

lemma cnt_release: "ok s \<Longrightarrow> i < 2 \<Longrightarrow> occ s i \<Longrightarrow> cnt (release i s) = cnt s - 1"
  using cnt_occ [OF ok_release, of s i] by (auto simp: cnt_occ occ_release less_2_cases_iff)

lemma release_claim:
  assumes "ok s" "i < 2" "\<not> occ s i" "j < 3"
  shows "occ (release i (claim i s)) j = occ s j"
proof -
  have "ok (claim i s)" "occ (claim i s) i" using assms ok_claim occ_claim [of s i i] by auto
  from occ_release [OF this(1) assms(2) this(2) assms(4)] occ_claim [OF assms] assms(3)
  show ?thesis by auto
qed

end

text \<open>The model's table is the pair of the mask and the counter.\<close>

type_synonym conn = "u8 \<times> int"

definition conn_claim :: "nat \<Rightarrow> conn \<Rightarrow> conn" where
  "conn_claim i = (\<lambda>(c, n). (c + push_bit i 1, n + 1))"

definition conn_release :: "nat \<Rightarrow> conn \<Rightarrow> conn" where
  "conn_release i = (\<lambda>(c, n). (c - push_bit i 1, n - 1))"

definition conn_ok :: "conn \<Rightarrow> bool" where
  "conn_ok = (\<lambda>(c, n). c < 8 \<and> n = (if connected c 0 then 1 else 0) + (if connected c 1 then 1 else 0))"

lemma u8_lt_8: "(c :: u8) < 8 \<Longrightarrow> c \<in> {0, 1, 2, 3, 4, 5, 6, 7}"
proof -
  assume "c < 8"
  then have "unat c < 8" by (simp add: word_less_nat_alt)
  then have "unat c \<in> {0, 1, 2, 3, 4, 5, 6, 7}" by auto
  then have "(of_nat (unat c) :: u8) \<in> of_nat ` {0, 1, 2, 3, 4, 5, 6, 7}" by (rule imageI)
  then show ?thesis by simp
qed

lemma connected_bit: "connected c i \<longleftrightarrow> bit c i"
  by (simp add: connected_def bit_iff_and_drop_bit_eq_1 and_one_eq one_and_eq mod_2_eq_odd)

interpretation conn: child_slots "connected \<circ> fst" snd conn_claim conn_release conn_ok
  by unfold_locales
    (auto simp: conn_ok_def conn_claim_def conn_release_def connected_bit less_2_cases_iff
      numeral_3_eq_3 less_Suc_eq dest!: u8_lt_8)

section \<open>The invariant\<close>

definition conn_of :: "node \<Rightarrow> conn" where
  "conn_of s = (CONNECTED_NODES s, CURRENT_CHILD_NUM s)"

definition slots_ok :: "node \<Rightarrow> bool" where
  "slots_ok s \<longleftrightarrow> conn_ok (conn_of s) \<and> length (NODES_STATUS s) = 4 \<and> length (CURRENT_CHILD_BLOCK s) = 2"

definition same_slots :: "node \<Rightarrow> node \<Rightarrow> bool" where
  "same_slots s s' \<longleftrightarrow> conn_of s' = conn_of s \<and> length (NODES_STATUS s') = length (NODES_STATUS s) \<and>
     length (CURRENT_CHILD_BLOCK s') = length (CURRENT_CHILD_BLOCK s)"

named_theorems slot_frame \<open>operations that leave the slot table alone\<close>

lemma same_slots_ok: "same_slots s s' \<Longrightarrow> slots_ok s \<Longrightarrow> slots_ok s'"
  by (simp add: same_slots_def slots_ok_def)

lemma same_slots_trans: "same_slots r s \<Longrightarrow> same_slots s t \<Longrightarrow> same_slots r t"
  by (simp add: same_slots_def)

lemmas slot_defs = bind_eq_Some_conv Let_def same_slots_def conn_of_def upd_Some

lemma SendPacket_slots [slot_frame]: "SendPacket d n k s = Some s' \<Longrightarrow> same_slots s s'"
  by (auto simp: SendPacket_def slot_defs)

lemma renew_dst_slots [slot_frame]: "renew_dst ip p k s = Some s' \<Longrightarrow> same_slots s s'"
  by (auto simp: renew_dst_def slot_defs)

lemma stamp_slots_frame: "stamp s = (t, s') \<Longrightarrow> same_slots s s'"
  by (auto simp: stamp_def slot_defs)

lemma stamp_slot_slots [slot_frame]: "stamp_slot i s = Some s' \<Longrightarrow> same_slots s s'"
  by (auto simp: stamp_slot_def stamp_def slot_defs)

lemma send_slots [slot_frame]:
  "SendSetup s = Some s' \<Longrightarrow> same_slots s s'"
  "SendInitialStatus k s = Some s' \<Longrightarrow> same_slots s s'"
  "SendAdvertise k a s = Some s' \<Longrightarrow> same_slots s s'"
  "SendConnect k s = Some s' \<Longrightarrow> same_slots s s'"
  "SendAccept k s = Some s' \<Longrightarrow> same_slots s s'"
  "send_my_id p k s = Some s' \<Longrightarrow> same_slots s s'"
  "SendResList k s = Some s' \<Longrightarrow> same_slots s s'"
  "SendEndStatus k s = Some s' \<Longrightarrow> same_slots s s'"
  "SendWebMHeader k s = Some s' \<Longrightarrow> same_slots s s'"
  by (auto simp: SendSetup_def SendInitialStatus_def SendAdvertise_def SendConnect_def SendAccept_def
      send_my_id_def SendResList_def SendEndStatus_def SendWebMHeader_def bind_eq_Some_conv Let_def
      dest: SendPacket_slots split: if_splits)

lemma SendDepart_slots [slot_frame]: "SendDepart s = Some s' \<Longrightarrow> same_slots s s'"
  by (auto simp: SendDepart_def slot_defs dest!: SendPacket_slots)

lemma SendDetach_slots [slot_frame]: "SendDetach k c s = Some s' \<Longrightarrow> same_slots s s'"
  by (auto simp: SendDetach_def slot_defs dest!: SendPacket_slots)

lemma SendID_slots [slot_frame]: "SendID ip p s = Some s' \<Longrightarrow> same_slots s s'"
  by (auto simp: SendID_def slot_defs dest!: SendPacket_slots renew_dst_slots)

lemma GenerateRndID_slots: "GenerateRndID a b s = (i, s') \<Longrightarrow> same_slots s s'"
  by (auto simp: GenerateRndID_def slot_defs split: if_splits)

lemma handler_slots [slot_frame]:
  "NodeID d s = Some s' \<Longrightarrow> same_slots s s'"
  "NodeAdvertise d n s = Some s' \<Longrightarrow> same_slots s s'"
  "NodeUnaccept d s = Some s' \<Longrightarrow> same_slots s s'"
  "NodeRetry s = Some s' \<Longrightarrow> same_slots s s'"
  "NodeKeepAlive d s = Some s' \<Longrightarrow> same_slots s s'"
  "NodeReqList d s = Some s' \<Longrightarrow> same_slots s s'"
  "NodeResList d n s = Some s' \<Longrightarrow> same_slots s s'"
       apply (auto simp: NodeID_def slot_defs)[1]
      apply (auto simp: NodeAdvertise_def slot_defs stamp_def dest!: renew_dst_slots send_slots)[1]
     apply (auto simp: NodeUnaccept_def slot_defs dest!: renew_dst_slots send_slots split: if_splits)[1]
    apply (auto simp: NodeRetry_def slot_defs stamp_def dest!: renew_dst_slots send_slots split: if_splits)[1]
   apply (auto simp: NodeKeepAlive_def SendKeepAliveRes_def slot_defs dest!: send_slots split: if_splits)[1]
  apply (auto simp: NodeReqList_def slot_defs dest!: send_slots split: if_splits)[1]
  apply (auto simp: NodeResList_def slot_defs)[1]
  done

lemma stamp_slots_slots: "stamp_slots i ks s = Some s' \<Longrightarrow> same_slots s s'"
proof (induction ks arbitrary: s)
  case Nil
  then show ?case by (simp add: same_slots_def)
next
  case (Cons k ks)
  then show ?case
    by (auto simp: bind_eq_Some_conv split: if_splits intro: same_slots_trans dest: stamp_slot_slots)
qed

lemma NodeKeepAliveRes_slots [slot_frame]: "NodeKeepAliveRes d s = Some s' \<Longrightarrow> same_slots s s'"
  by (auto simp: NodeKeepAliveRes_def bind_eq_Some_conv dest: stamp_slots_slots)

section \<open>Choosing a slot\<close>

lemma slots_01: "[0..<MAX_CHILD_NUM] = [0, 1]"
  by (simp add: MAX_CHILD_NUM_def upt_rec)

lemma free_slot_2: "free_slot c [0, 1] = (if \<not> connected c 0 then 0 else if \<not> connected c 1 then 1 else -1)"
  by simp

text \<open>
  \<^verbatim>\<open>CheckChildNum\<close> finds a slot whenever there is one: it answers -1 exactly when both child
  slots are taken, and otherwise the first free one.
\<close>

lemma CheckChildNum_free:
  assumes "slots_ok s"
  shows "CheckChildNum s = (if \<not> connected (CONNECTED_NODES s) 0 then 0
    else if \<not> connected (CONNECTED_NODES s) 1 then 1 else -1)"
proof -
  have ok: "conn_ok (conn_of s)" using assms by (simp add: slots_ok_def)
  have "CURRENT_CHILD_NUM s < 2 \<longleftrightarrow>
      \<not> connected (CONNECTED_NODES s) 0 \<or> \<not> connected (CONNECTED_NODES s) 1"
    using conn.full_iff [OF ok] by (auto simp: conn_of_def less_2_cases_iff)
  moreover have "CheckChildNum s =
      (if CURRENT_CHILD_NUM s < 2 then free_slot (CONNECTED_NODES s) [0, 1] else -1)"
    unfolding CheckChildNum_def slots_01 by (simp add: MAX_CHILD_NUM_def)
  ultimately show ?thesis by auto
qed

definition node0 :: node where
  "node0 = store.extend (store0 []) \<lparr>ADDR = addressing0, NODES_STATUS = replicate 4 node_status0,
     NODES_LIST = [], EXCEPT_LIST = [], CURRENT_CHILD_NUM = 0, CONNECTED_NODES = 0, IS_SETUP = True,
     IS_BEGIN_STREAMING = False, IS_BEGIN_PLAYING = False, IS_RETRY = False, CURRENT_NODE_ID = 0,
     CURRENT_CACHE = 200, TOTAL_BUFFER = 0, PLAYED_BUFFER = 0, GATEWAY_MAC = replicate 6 3,
     IS_GATEWAY_MAC_GET = True, DETACH_NUM = 0, DEPART_NUM = 0,
     START_TIMESTAMP = \<lparr>tv_sec = 0, tv_usec = 0\<rparr>, TIMESTAMP = \<lparr>tv_sec = 0, tv_usec = 0\<rparr>,
     SETUP_TIMESTAMP = \<lparr>tv_sec = 0, tv_usec = 0\<rparr>, LISTUPDATE_TIMESTAMP = \<lparr>tv_sec = 0, tv_usec = 0\<rparr>,
     DEPART_TIMESTAMP = \<lparr>tv_sec = 0, tv_usec = 0\<rparr>, RETRY_TIMESTAMP = \<lparr>tv_sec = 0, tv_usec = 0\<rparr>,
     PLAYED_TIMESTAMP = \<lparr>tv_sec = 0, tv_usec = 0\<rparr>, CLOCK = (\<lambda>k. \<lparr>tv_sec = int k, tv_usec = 0\<rparr>),
     TICK = 0, RAND = (\<lambda>k. k), RAND_N = 0, STACK_U16 = 0, WIRE = []\<rparr>"

lemma node0_sel:
  "ADDR node0 = addressing0" "NODES_STATUS node0 = replicate 4 node_status0" "NODES_LIST node0 = []"
  "EXCEPT_LIST node0 = []" "CURRENT_CHILD_NUM node0 = 0" "CONNECTED_NODES node0 = 0"
  "CURRENT_CACHE node0 = 200" "GATEWAY_MAC node0 = replicate 6 3" "WIRE node0 = []"
  "CURRENT_CHILD_BLOCK node0 = [None, None]" "RAND node0 k = k" "RAND_N node0 = 0"
  "STACK_U16 node0 = 0" "TIMECODE_OFFSET node0 = 0" "CURRENT_NODE_ID node0 = 0"
  "IS_BEGIN_PLAYING node0 = False" "IS_BEGIN_STREAMING node0 = False" "IS_RETRY node0 = False"
  "START_TIMESTAMP node0 = \<lparr>tv_sec = 0, tv_usec = 0\<rparr>" "LISTUPDATE_TIMESTAMP node0 = \<lparr>tv_sec = 0, tv_usec = 0\<rparr>"
  "RETRY_TIMESTAMP node0 = \<lparr>tv_sec = 0, tv_usec = 0\<rparr>" "TOTAL_BUFFER node0 = 0" "PLAYED_BUFFER node0 = 0"
  by (simp_all add: node0_def store0_def webm0_def store.defs webm.defs)

lemma slots_ok_node0: "slots_ok node0"
  by (simp add: slots_ok_def conn_of_def conn_ok_def node0_sel connected_bit)

lemma GenerateRndID_slot:
  assumes "slots_ok s"
  shows "fst (GenerateRndID 0 (CURRENT_CHILD_NUM s + 1) s) \<in> insert MY_ID (int ` {i. i < 2 \<and> connected (CONNECTED_NODES s) i}) \<and>
    (0 < CURRENT_CHILD_NUM s \<longrightarrow>
      fst (GenerateRndID 1 (CURRENT_CHILD_NUM s) s) \<in> int ` {i. i < 2 \<and> connected (CONNECTED_NODES s) i})"
proof -
  define n where "n = CURRENT_CHILD_NUM s"
  define r where "r = int (RAND s (RAND_N s))"
  have n: "n = (if connected (CONNECTED_NODES s) 0 then 1 else 0) + (if connected (CONNECTED_NODES s) 1 then 1 else 0)"
    using assms by (simp add: slots_ok_def conn_ok_def conn_of_def n_def)
  have loop: "rnd_loop (CONNECTED_NODES s) k 0 [0, 1] \<in> int ` {i. i < 2 \<and> connected (CONNECTED_NODES s) i}"
    if "1 \<le> k" "k \<le> n" for k
    using that n by (cases "connected (CONNECTED_NODES s) 0"; cases "connected (CONNECTED_NODES s) 1")
      (auto simp: Let_def image_iff less_2_cases_iff)
  have a: "r mod (n + 1) < n + 1" "0 \<le> r mod (n + 1)" using n by (auto split: if_splits)
  have b: "0 < n \<Longrightarrow> r mod n < n" "0 < n \<Longrightarrow> 0 \<le> r mod n" by simp_all
  have "n + 1 \<noteq> 0" "\<bar>n + 1\<bar> = n + 1" using n by auto
  then have "fst (GenerateRndID 0 (n + 1) s) =
      (if r mod (n + 1) = 0 then MY_ID else rnd_loop (CONNECTED_NODES s) (r mod (n + 1)) 0 [0, 1])"
    by (simp add: GenerateRndID_def slots_01 r_def Let_def)
  moreover have "fst (GenerateRndID 1 n s) = rnd_loop (CONNECTED_NODES s) (r mod n + 1) 0 [0, 1]" if "0 < n"
  proof -
    have "r mod n + 1 \<noteq> 0" using b that by linarith
    then show ?thesis using that by (simp add: GenerateRndID_def slots_01 r_def Let_def)
  qed
  moreover have "r mod n + 1 \<le> n" if "0 < n" using pos_mod_bound [OF that, of r] by linarith
  ultimately have "fst (GenerateRndID 0 (n + 1) s) \<in> insert MY_ID (int ` {i. i < 2 \<and> connected (CONNECTED_NODES s) i})"
    "0 < n \<Longrightarrow> fst (GenerateRndID 1 n s) \<in> int ` {i. i < 2 \<and> connected (CONNECTED_NODES s) i}"
    using loop [of "r mod (n + 1)"] loop [of "r mod n + 1"] a b by (simp_all del: rnd_loop.simps)
  then show ?thesis unfolding n_def by blast
qed

text \<open>
  The random redirection never leaves the table: while the counter agrees with the mask,
  \<^verbatim>\<open>GenerateRndID( 0 , CURRENT_CHILD_NUM + 1 )\<close> answers this node or a slot with a child, and
  \<^verbatim>\<open>GenerateRndID( 1 , CURRENT_CHILD_NUM )\<close>, drawn when all slots are taken, a slot with a child;
  never the -1 that would index \<^verbatim>\<open>NODES_STATUS\<close> outside its bounds.
\<close>

lemma GenerateRndID_valid:
  assumes "slots_ok s"
  shows "fst (GenerateRndID 0 (CURRENT_CHILD_NUM s + 1) s) \<in> insert MY_ID (int ` {i. i < 2 \<and> connected (CONNECTED_NODES s) i}) \<and>
    (0 < CURRENT_CHILD_NUM s \<longrightarrow>
      fst (GenerateRndID 1 (CURRENT_CHILD_NUM s) s) \<in> int ` {i. i < 2 \<and> connected (CONNECTED_NODES s) i})"
  using GenerateRndID_slot [OF assms] .

end
