(* ===== verification/Stream.thy ===== *)
theory Stream
  imports Messages
begin

text \<open>
  Sending the stream: \<^verbatim>\<open>ReadBlock\<close>, \<^verbatim>\<open>SendCacheBlock\<close> and \<^verbatim>\<open>SendMulStream\<close> of
  \<^verbatim>\<open>src/src/common/p2p.c\<close> and the loops over blocks and clusters of
  \<^verbatim>\<open>src/src/originsource/main.c\<close>, lines 292 to 327.
\<close>

section \<open>The code\<close>

text \<open>
  The buffer of \<^verbatim>\<open>ReadBlock\<close> is not cleared: the block is cut from the bytes that were read, and
  looking at any byte behind them has no defined outcome.
\<close>

definition ReadBlock :: "Block \<Rightarrow> node \<Rightarrow> (int \<times> Block \<times> node) option" where
  "ReadBlock block s = do {
     (data, s) \<leftarrow> ImportWebM (replicate MAX_DATA_BYTES 0) MAX_BLOCK_BYTES s;
     (block, st) \<leftarrow> GetNextBlockByBytes block (of_nat MAX_BLOCK_BYTES)
       (take (unat (CURRENT_READ_BYTES s)) data);
     Some (st, block, s\<lparr>TOTAL_BLOCK_NUM := TOTAL_BLOCK_NUM s + 1\<rparr>)
   }"

definition SendCacheBlock :: "Block \<Rightarrow> int \<Rightarrow> node \<Rightarrow> (int \<times> Block \<times> node) option" where
  "SendCacheBlock block dst_id s = do {
     (offset, s) \<leftarrow> SeekABSForNextBlock block s;
     (body, s) \<leftarrow> SearchWebM (drop (BLOCKINFO_BYTES + DATA_HDR_BYTES) (data_buf BLOCK_PROTO))
       MAX_BLOCK_BYTES offset s;
     (block, st) \<leftarrow> GetNextBlockByBytes block (of_nat MAX_BLOCK_BYTES) body;
     data \<leftarrow> CopyBlockInfoToBytes (take (BLOCKINFO_BYTES + DATA_HDR_BYTES) (data_buf BLOCK_PROTO) @ body)
       DATA_HDR_BYTES (info block);
     s \<leftarrow> SendPacket data (bytes (info block) + of_nat (BLOCKINFO_BYTES + DATA_HDR_BYTES)) dst_id s;
     Some (st, block, s)
   }"

fun mul_loop :: "nat list \<Rightarrow> int \<Rightarrow> node \<Rightarrow> (int \<times> node) option" where
  "mul_loop [] count s = Some (count, s)"
| "mul_loop (i # ks) count s =
     (if connected (CONNECTED_NODES s) i then do {
        slot \<leftarrow> idx (CURRENT_CHILD_BLOCK s) (int i);
        b \<leftarrow> slot;
        old \<leftarrow> IsOldBlockSeq (prev b) s;
        if old then do {
          (st, b, s) \<leftarrow> SendCacheBlock b (int i) s;
          let b = (if st = CLUSTER_END then RenewBlock b else ShiftToPreBlock b);
          blocks \<leftarrow> upd (CURRENT_CHILD_BLOCK s) (int i) (Some b);
          mul_loop ks count (s\<lparr>CURRENT_CHILD_BLOCK := blocks\<rparr>)
        } else mul_loop ks (count + 1) s
      } else mul_loop ks count s)"

definition SendMulStream :: "node \<Rightarrow> (int \<times> node) option" where
  "SendMulStream s =
     (let (offset, s) = UpdateOffsetWebM FposR s in do {
        (count, s) \<leftarrow> mul_loop [0..<MAX_CHILD_NUM] 0 s;
        Some (if count = CURRENT_CHILD_NUM s then 0 else 1, SeekABSWebM offset FposR s)
      })"

text \<open>The loop of the origin over the blocks of a cluster; it ends at the end of the cluster.\<close>

partial_function (option) send_cluster :: "node \<Rightarrow> node option" where
  "send_cluster s = do {
     b \<leftarrow> CURRENT_BLOCK s;
     (st, b, s) \<leftarrow> ReadBlock b s;
     let s = s\<lparr>CURRENT_BLOCK := Some b, LATEST_BLOCK_SEQ := seq (info b)\<rparr>;
     if st = CLUSTER_END then do {
       c \<leftarrow> CURRENT_CLUSTER s;
       let s = SeekForNextBlock b s;
       Some (s\<lparr>CURRENT_BLOCK := Some (RenewBlock b), CURRENT_CLUSTER := Some (ShiftToPreCluster c)\<rparr>)
     }
     else do {
       (_, s) \<leftarrow> SendMulStream s;
       let s = SeekForNextBlock b s;
       send_cluster (s\<lparr>CURRENT_BLOCK := Some (ShiftToPreBlock b)\<rparr>)
     }
   }"

end
