(* ===== verification/Timer.thy ===== *)
theory Timer
  imports Handlers
begin

text \<open>
  The timer thread: \<^verbatim>\<open>CalPlayedBuffer\<close> and one round of the loop of \<^verbatim>\<open>TimeProcess\<close>
  (\<^verbatim>\<open>src/src/common/p2p.c\<close>, lines 2455 to 2705).  The loop has no end of its own; the model is its
  body, a step of the node.
\<close>

section \<open>The code\<close>

definition TIMEPROCESS_INTARVAL :: timeval where "TIMEPROCESS_INTARVAL = \<lparr>tv_sec = 3, tv_usec = 5000\<rparr>"
definition KEEPALIVE_TLV_INTARVAL :: timeval where "KEEPALIVE_TLV_INTARVAL = \<lparr>tv_sec = 5, tv_usec = 0\<rparr>"
definition LISTUPDATE_TLV_INTARVAL :: timeval where "LISTUPDATE_TLV_INTARVAL = \<lparr>tv_sec = 5, tv_usec = 0\<rparr>"
definition DEPART_INTARVAL :: timeval where "DEPART_INTARVAL = \<lparr>tv_sec = 5, tv_usec = 0\<rparr>"
definition PLAYED_INTARVAL :: timeval where "PLAYED_INTARVAL = \<lparr>tv_sec = 1, tv_usec = 0\<rparr>"

definition CalPlayedBuffer :: "node \<Rightarrow> node option" where
  "CalPlayedBuffer s = do {
     me \<leftarrow> idx (NODES_STATUS s) MY_ID;
     if node_id me = ORIGIN_ID then Some s
     else
       (let s = s\<lparr>TOTAL_BUFFER := TOTAL_BLOCK_NUM s\<rparr>
        in if IS_BEGIN_PLAYING s then
             (let (dt, s) = diff_time (PLAYED_TIMESTAMP s) s
              in if IsExceedTime dt PLAYED_INTARVAL then
                   (let (t, s) = stamp s
                    in Some (s\<lparr>PLAYED_TIMESTAMP := t, PLAYED_BUFFER := PLAYED_BUFFER s + BUFFER_DT_SEC\<rparr>))
                 else Some s)
           else Some s)
   }"

fun keepalive_all :: "nat list \<Rightarrow> node \<Rightarrow> node option" where
  "keepalive_all [] s = Some s"
| "keepalive_all (i # ks) s =
     (if connected (CONNECTED_NODES s) i then do {
        s \<leftarrow> SendKeepAlive (int i) s;
        keepalive_all ks s
      } else keepalive_all ks s)"

definition time_keepalive :: "node \<Rightarrow> node option" where
  "time_keepalive s =
     (let (dt, s) = diff_time (TIMESTAMP s) s
      in if IsExceedTime dt TIMEPROCESS_INTARVAL then
           (let (t, s) = stamp s in keepalive_all [0..<MAX_NODE_NUM] (s\<lparr>TIMESTAMP := t\<rparr>))
         else Some s)"

definition time_setup :: "node \<Rightarrow> node option" where
  "time_setup s =
     (if IS_SETUP s then
        (let (dt, s) = diff_time (SETUP_TIMESTAMP s) s
         in if IsExceedTime dt KEEPALIVE_TLV_INTARVAL then
              (let (t, s) = stamp s in SendSetup (s\<lparr>SETUP_TIMESTAMP := t\<rparr>))
            else Some s)
      else Some s)"

text \<open>A silent neighbour is dropped: its bit is cleared and the number of children decremented.\<close>

fun time_expire :: "nat list \<Rightarrow> node \<Rightarrow> node option" where
  "time_expire [] s = Some s"
| "time_expire (i # ks) s =
     (if connected (CONNECTED_NODES s) i then do {
        n \<leftarrow> idx (NODES_STATUS s) (int i);
        if tv_sec (timestamp n) = 0 \<and> tv_usec (timestamp n) = 0 then time_expire ks s
        else do {
          let (dt, s) = diff_time (timestamp n) s;
          if IsExceedTime dt KEEPALIVE_TLV_INTARVAL then do {
            let s = s\<lparr>CONNECTED_NODES := CONNECTED_NODES s - push_bit i 1,
              CURRENT_CHILD_NUM := CURRENT_CHILD_NUM s - 1\<rparr>;
            s \<leftarrow> (if int i = PARENT_ID then NodeRetry s else Some s);
            time_expire ks s
          } else time_expire ks s
        }
      } else time_expire ks s)"

fun request_lists :: "node_info list \<Rightarrow> node \<Rightarrow> node option" where
  "request_lists [] s = Some s"
| "request_lists (n # ns) s = do {
     ip \<leftarrow> GtoPIP n s;
     s \<leftarrow> renew_dst (htonl ip) (port n) TMP_ID s;
     s \<leftarrow> SendReqList TMP_ID s;
     request_lists ns s
   }"

definition time_lists :: "node \<Rightarrow> node option" where
  "time_lists s =
     (let (dt, s) = diff_time (LISTUPDATE_TIMESTAMP s) s
      in if IsExceedTime dt LISTUPDATE_TLV_INTARVAL \<and> connected (CONNECTED_NODES s) (nat PARENT_ID) then
           (let (t, s) = stamp s in do {
              s \<leftarrow> SendReqList PARENT_ID (s\<lparr>LISTUPDATE_TIMESTAMP := t\<rparr>);
              request_lists (NODES_LIST s) s
            })
         else Some s)"

definition time_retry :: "node \<Rightarrow> node option" where
  "time_retry s =
     (let (dt, s) = diff_time (RETRY_TIMESTAMP s) s
      in if IS_RETRY s \<and> IsExceedTime dt KEEPALIVE_TLV_INTARVAL then NodeRetry s else Some s)"

definition time_cache :: "node \<Rightarrow> node option" where
  "time_cache s = do {
     s \<leftarrow> CalPlayedBuffer s;
     let s = s\<lparr>CURRENT_CACHE := sint (TOTAL_BUFFER s - PLAYED_BUFFER s)\<rparr>;
     let s = (if CURRENT_CACHE s = DEFAULT_CACHE
       then (let (t, s) = stamp s
             in s\<lparr>IS_BEGIN_STREAMING := True, IS_BEGIN_PLAYING := True, PLAYED_TIMESTAMP := t\<rparr>)
       else s);
     if CURRENT_CACHE s < CACHE_TLV \<and> IS_BEGIN_STREAMING s then
       (let (dt, s) = diff_time (DEPART_TIMESTAMP s) s
        in if IsExceedTime dt DEPART_INTARVAL then
             (let (t, s) = stamp s; s = s\<lparr>DEPART_TIMESTAMP := t\<rparr>
              in if connected (CONNECTED_NODES s) (nat PARENT_ID) then SendDepart s else Some s)
           else Some s)
     else Some s
   }"

definition TimeProcess_round :: "node \<Rightarrow> node option" where
  "TimeProcess_round s = do {
     s \<leftarrow> time_keepalive s;
     s \<leftarrow> time_setup s;
     s \<leftarrow> time_expire [0..<MAX_NODE_NUM] s;
     s \<leftarrow> time_lists s;
     s \<leftarrow> time_retry s;
     time_cache s
   }"

end
