(* ===== verification/Dispatch.thy ===== *)
theory Dispatch
  imports Handlers Stream
begin

text \<open>
  What a node does with a frame: the bodies of the loops of \<^verbatim>\<open>Receive\<close> in
  \<^verbatim>\<open>src/src/peer/main.c\<close> and \<^verbatim>\<open>src/src/originsource/main.c\<close>.  \<open>packet\<close> is the whole buffer of
  1514 bytes after \<^verbatim>\<open>read\<close>: the frame and, behind it, what was in the buffer before.
\<close>

definition BROADCAST_MAC :: bytes where "BROADCAST_MAC = replicate 6 0xff"
definition ETH_P_ARP :: u16 where [c_eval]: "ETH_P_ARP = 0x0806"
definition OS_PORT :: u16 where [c_eval]: "OS_PORT = 12345"

section \<open>The code\<close>

definition receive_arp :: "bytes \<Rightarrow> node \<Rightarrow> node option" where
  "receive_arp packet s = do {
     dhost \<leftarrow> rdn packet 0 6;
     shost \<leftarrow> rdn packet 6 6;
     Some (if dhost \<noteq> BROADCAST_MAC \<and> \<not> IS_GATEWAY_MAC_GET s
       then s\<lparr>GATEWAY_MAC := shost, IS_GATEWAY_MAC_GET := True\<rparr> else s)
   }"

definition ret :: "node option \<Rightarrow> (node, node) run option" where
  "ret r = do { s \<leftarrow> r; Some (Ret s) }"

text \<open>
  \<open>len\<close> is \<^verbatim>\<open>htons(udphdr->len) - UDP_HDR_BYTES - DATA_HDR_BYTES\<close>, an \<^verbatim>\<open>int\<close> that becomes a \<^verbatim>\<open>u16\<close>
  when it is passed on.
\<close>

definition dispatch_peer :: "u8 \<Rightarrow> bytes \<Rightarrow> int \<Rightarrow> u32 \<Rightarrow> u16 \<Rightarrow> node \<Rightarrow> (node, node) run option" where
  "dispatch_peer p data len ip src s =
     (if p = proto_code SETUP_PROTO then ret (NodeSetup data (of_int len) ip src s)
      else if p = proto_code ID_PROTO then ret (NodeID data s)
      else if p = proto_code INITIAL_STATUS_PROTO then ret (NodeInitialStatus data (of_int len) s)
      else if p = proto_code ADVERTISE_PROTO then ret (NodeAdvertise data (of_int len) s)
      else if p = proto_code BLOCK_PROTO then AssembleBlock data (of_int len) s
      else if p = proto_code CONNECT_PROTO then ret (NodeConnect data s)
      else if p = proto_code DEPART_PROTO then ret (NodeDepart data s)
      else if p = proto_code DETACH_PROTO then ret (NodeDetach data s)
      else if p = proto_code REQ_LIST_PROTO then ret (NodeReqList data s)
      else if p = proto_code RES_LIST_PROTO then ret (NodeResList data (of_int len) s)
      else if p = proto_code ACCEPT_PROTO then ret (NodeAccept data s)
      else if p = proto_code UNACCEPT_PROTO then ret (NodeUnaccept data s)
      else if p = proto_code KEEPALIVE_PROTO then ret (NodeKeepAlive data s)
      else if p = proto_code KEEPALIVERES_PROTO then ret (NodeKeepAliveRes data s)
      else Some (Ret s))"

definition dispatch_origin :: "u8 \<Rightarrow> bytes \<Rightarrow> int \<Rightarrow> u32 \<Rightarrow> u16 \<Rightarrow> node \<Rightarrow> (node, node) run option" where
  "dispatch_origin p data len ip src s =
     (if p = proto_code SETUP_PROTO then ret (do {
        s \<leftarrow> (if len = 4 then SendID ip src s else Some s);
        NodeSetup data (of_int len) ip src s
      })
      else if p = proto_code INITIAL_STATUS_PROTO then ret (NodeInitialStatus data (of_int len) s)
      else if p = proto_code ADVERTISE_PROTO then ret (NodeAdvertise data (of_int len) s)
      else if p = proto_code BLOCK_PROTO then Some (Ret s)
      else if p = proto_code CONNECT_PROTO then ret (NodeConnect data s)
      else if p = proto_code DEPART_PROTO then ret (NodeDepart data s)
      else if p = proto_code DETACH_PROTO then ret (NodeDetach data s)
      else if p = proto_code REQ_LIST_PROTO then ret (NodeReqList data s)
      else if p = proto_code RES_LIST_PROTO then Some (Ret s)
      else if p = proto_code ACCEPT_PROTO then Some (Ret s)
      else if p = proto_code UNACCEPT_PROTO then Some (Ret s)
      else if p = proto_code KEEPALIVE_PROTO then ret (NodeKeepAlive data s)
      else if p = proto_code KEEPALIVERES_PROTO then ret (NodeKeepAliveRes data s)
      else Some (Ret s))"

text \<open>The frame is for this node when the IP address and the UDP port are its own.\<close>

definition receive_frame ::
    "(u8 \<Rightarrow> bytes \<Rightarrow> int \<Rightarrow> u32 \<Rightarrow> u16 \<Rightarrow> node \<Rightarrow> (node, node) run option) \<Rightarrow> u16 \<Rightarrow>
     bytes \<Rightarrow> node \<Rightarrow> (node, node) run option" where
  "receive_frame dispatch my_port packet s = do {
     ether_type \<leftarrow> rdn packet 12 2;
     if load16 ether_type = ntohs ETH_P_ARP then ret (receive_arp packet s)
     else if load16 ether_type = ntohs ETHERTYPE_IP then do {
       saddr \<leftarrow> rdn packet 26 4;
       daddr \<leftarrow> rdn packet 30 4;
       source \<leftarrow> rdn packet 34 2;
       dest \<leftarrow> rdn packet 36 2;
       len \<leftarrow> rdn packet 38 2;
       p \<leftarrow> rd packet 42;
       if load32 daddr = SRC_IP (ADDR s) \<and> ntohs (load16 dest) = my_port
       then dispatch p (drop 43 packet) (int (unat (ntohs (load16 len))) - 8 - 1)
              (load32 saddr) (load16 source) s
       else Some (Ret s)
     }
     else Some (Ret s)
   }"

definition receive_origin :: "bytes \<Rightarrow> node \<Rightarrow> (node, node) run option" where
  "receive_origin packet s = receive_frame dispatch_origin OS_PORT packet s"

definition receive_peer :: "bytes \<Rightarrow> node \<Rightarrow> (node, node) run option" where
  "receive_peer packet s = do {
     r \<leftarrow> receive_frame dispatch_peer (SRC_PORT (ADDR s)) packet s;
     cont r (\<lambda>s. if IS_BEGIN_PLAYING s then do {
         (_, s) \<leftarrow> SendMulStream s;
         Some (Ret s)
       } else Some (Ret s))
   }"

end
