(* ===== verification/Sending.thy ===== *)
theory Sending
  imports Slots Stream
begin

text \<open>
  Well-formed nodes send: in a node whose tables have their sizes, every \<^verbatim>\<open>Send\<close> function stays in
  its buffer and puts exactly one frame on the wire, with the data spelled out here.
\<close>

section \<open>One frame more\<close>

definition addr_ok :: "'a addressing_scheme \<Rightarrow> bool" where
  "addr_ok a \<longleftrightarrow> length (SRC_MAC a) = 6 \<and> (\<forall>m \<in> set (DST_MAC a). length m = 6)"

text \<open>\<open>s'\<close> is the state after one more frame, for slot \<open>k\<close>, that carries \<open>d\<close>.\<close>

definition sends :: "node \<Rightarrow> node \<Rightarrow> int \<Rightarrow> bytes \<Rightarrow> bool" where
  "sends s s' k d \<longleftrightarrow> (\<exists>f dmac dip dport. WIRE s' = WIRE s @ [f] \<and> length dmac = 6 \<and>
     length (SRC_MAC (ADDR s')) = 6 \<and> idx (DST_IP (ADDR s')) k = Some dip \<and>
     idx (DST_PORT (ADDR s')) k = Some dport \<and> frame_ok (ADDR s') dmac dip dport d f)"

lemma SendPacket_sends:
  assumes "SendPacket data n k s = Some s'" and "addr_ok (ADDR s)" and "unat n \<le> 1472" "unat n \<le> length data"
  shows "sends s s' k (take (unat n) data) \<and> s' = s\<lparr>WIRE := WIRE s'\<rparr>"
proof -
  from assms(1) obtain f where f: "SendPacket_frame data n k (ADDR s) = Some f" "s' = s\<lparr>WIRE := WIRE s @ [f]\<rparr>"
    by (auto simp: SendPacket_def bind_eq_Some_conv)
  then obtain dmac dip dport where i: "idx (DST_MAC (ADDR s)) k = Some dmac" "idx (DST_IP (ADDR s)) k = Some dip"
    "idx (DST_PORT (ADDR s)) k = Some dport"
    by (auto simp: SendPacket_frame_def PacketGenerate_def bind_eq_Some_conv)
  with assms(2) have l: "length dmac = 6" "length (SRC_MAC (ADDR s)) = 6"
    by (auto simp: addr_ok_def idx_Some)
  from SendPacket_frame_exists [OF i l assms(3,4)] f i l show ?thesis by (auto simp: sends_def)
qed

lemma wrn_tail: "wrn (A @ Z) p xs = Some d \<Longrightarrow> p = length A \<Longrightarrow>
    d = A @ xs @ drop (length xs) Z \<and> length xs \<le> length Z"
  by (auto simp: wrn_def split: if_splits)

lemma wrn_mid_fit: "p = length A \<Longrightarrow> length xs \<le> length Z \<Longrightarrow>
    wrn (A @ Z) p xs = Some (A @ xs @ drop (length xs) Z)"
  by (simp add: wrn_def)

lemma copy_connected_result:
  assumes "copy_connected ns c skip base ks data count = Some (data', count')"
    and "\<forall>k \<in> set ks. k < length ns" and "data = A @ Z" "length A = base + 30 * count"
  shows "\<exists>Z'. data' = A @ concat (map (\<lambda>k. node_wire (ns ! k)) (filter (\<lambda>k. int k \<noteq> skip \<and> connected c k) ks)) @ Z' \<and>
    count' = count + length (filter (\<lambda>k. int k \<noteq> skip \<and> connected c k) ks) \<and> length data' = length data"
  using assms
proof (induction ks arbitrary: data count A Z)
  case Nil
  then show ?case by auto
next
  case (Cons k ks)
  show ?case
  proof (cases "int k \<noteq> skip \<and> connected c k")
    case False
    then show ?thesis using Cons.prems Cons.IH [of data count A Z] by (auto split: if_splits)
  next
    case True
    with Cons.prems obtain d1 where d1: "wrn data (base + 30 * count) (node_wire (ns ! k)) = Some d1"
      "copy_connected ns c skip base ks d1 (count + 1) = Some (data', count')"
      by (auto simp: idx_def bind_eq_Some_conv CopyNodeStatusToBytes_wire)
    have e: "d1 = (A @ node_wire (ns ! k)) @ drop 30 Z" "length d1 = length data"
      using wrn_tail [OF d1(1) [unfolded Cons.prems(3)] Cons.prems(4) [symmetric]] length_wrn [OF d1(1)] by simp_all
    with Cons.IH [OF d1(2), of "A @ node_wire (ns ! k)" "drop 30 Z"] Cons.prems(2,4) True show ?thesis by auto
  qed
qed

lemma copy_list_result:
  assumes "copy_list l dst (map int ks) data count st = Some (data', st')"
    and "\<forall>k \<in> set ks. k < length l" and "data = A @ Z" "length A = 1 + 30 * count"
  shows "\<exists>Z'. data' = A @ concat (map node_wire (filter (\<lambda>n. node_id n \<noteq> dst) (map ((!) l) ks))) @ Z' \<and>
    st' = st - int (length ks) + int (length (filter (\<lambda>n. node_id n \<noteq> dst) (map ((!) l) ks))) \<and>
    length data' = length data"
  using assms
proof (induction ks arbitrary: data count st A Z)
  case Nil
  then show ?case by auto
next
  case (Cons k ks)
  have g: "GetListIndex l (int k) 0 = Some (l ! k)"
    using GetListIndex_idx [of l 0 "int k"] Cons.prems(2) by (simp add: idx_def)
  show ?case
  proof (cases "node_id (l ! k) = dst")
    case True
    then show ?thesis using Cons.prems g Cons.IH [of data count "st - 1" A Z] by auto
  next
    case False
    with Cons.prems g obtain d1 where d1: "wrn data (1 + 30 * count) (node_wire (l ! k)) = Some d1"
      "copy_list l dst (map int ks) d1 (count + 1) st = Some (data', st')"
      by (auto simp: bind_eq_Some_conv CopyNodeStatusToBytes_wire DATA_HDR_BYTES_def)
    have e: "d1 = (A @ node_wire (l ! k)) @ drop 30 Z" "length d1 = length data"
      using wrn_tail [OF d1(1) [unfolded Cons.prems(3)] Cons.prems(4) [symmetric]] length_wrn [OF d1(1)] by simp_all
    with Cons.IH [OF d1(2), of "A @ node_wire (l ! k)" "drop 30 Z"] Cons.prems(2,4) False show ?thesis by auto
  qed
qed

lemma upto_int_upt: "[0..int n - 1] = map int [0..<n]"
  by (induction n) (simp_all add: upto_rec2)

section \<open>Well-formed nodes\<close>

definition node_wf :: "node \<Rightarrow> bool" where
  "node_wf s \<longleftrightarrow> length (NODES_STATUS s) = 4 \<and> length (CURRENT_CHILD_BLOCK s) = 2 \<and>
     length (DST_IP (ADDR s)) = 4 \<and> length (DST_MAC (ADDR s)) = 4 \<and> length (DST_PORT (ADDR s)) = 4 \<and>
     addr_ok (ADDR s) \<and> length (GATEWAY_MAC s) = 6"

definition slot_ix :: "int \<Rightarrow> bool" where
  "slot_ix k \<longleftrightarrow> 0 \<le> k \<and> k < 4"

lemma slot_ix_simps [simp]: "slot_ix PARENT_ID" "slot_ix TMP_ID" "slot_ix MY_ID"
  by (simp_all add: slot_ix_def PARENT_ID_def TMP_ID_def MY_ID_def)

lemma wf_idx:
  assumes "node_wf s" "slot_ix k"
  shows "idx (NODES_STATUS s) k = Some (NODES_STATUS s ! nat k)"
    and "idx (DST_IP (ADDR s)) k = Some (DST_IP (ADDR s) ! nat k)"
    and "idx (DST_MAC (ADDR s)) k = Some (DST_MAC (ADDR s) ! nat k)"
    and "idx (DST_PORT (ADDR s)) k = Some (DST_PORT (ADDR s) ! nat k)"
    and "length (DST_MAC (ADDR s) ! nat k) = 6"
  using assms by (auto simp: node_wf_def slot_ix_def idx_def addr_ok_def)

text \<open>\<open>s'\<close> is \<open>s\<close> with one more frame, which carries \<open>d\<close> to slot \<open>k\<close>.\<close>

definition posts :: "node \<Rightarrow> int \<Rightarrow> bytes \<Rightarrow> node \<Rightarrow> bool" where
  "posts s k d s' \<longleftrightarrow> sends s s' k d \<and> s' = s\<lparr>WIRE := WIRE s'\<rparr>"

lemma posts_sel:
  assumes "posts s k d s'"
  shows "ADDR s' = ADDR s" "NODES_STATUS s' = NODES_STATUS s" "NODES_LIST s' = NODES_LIST s"
    "CONNECTED_NODES s' = CONNECTED_NODES s" "CURRENT_CHILD_NUM s' = CURRENT_CHILD_NUM s"
    "CURRENT_CHILD_BLOCK s' = CURRENT_CHILD_BLOCK s" "GATEWAY_MAC s' = GATEWAY_MAC s"
    "length (WIRE s') = Suc (length (WIRE s))" "node_wf s' = node_wf s"
    "WEBM_HEADER_data s' = WEBM_HEADER_data s" "WEBM_HEADER_total_bytes s' = WEBM_HEADER_total_bytes s"
    "CURRENT_CLUSTER s' = CURRENT_CLUSTER s" "TIMECODE_OFFSET s' = TIMECODE_OFFSET s"
    "CURRENT_NODE_ID s' = CURRENT_NODE_ID s"
proof -
  have e: "s' = s\<lparr>WIRE := WIRE s'\<rparr>" using assms by (simp add: posts_def)
  show "ADDR s' = ADDR s" "NODES_STATUS s' = NODES_STATUS s" "NODES_LIST s' = NODES_LIST s"
    "CONNECTED_NODES s' = CONNECTED_NODES s" "CURRENT_CHILD_NUM s' = CURRENT_CHILD_NUM s"
    "CURRENT_CHILD_BLOCK s' = CURRENT_CHILD_BLOCK s" "GATEWAY_MAC s' = GATEWAY_MAC s"
    "node_wf s' = node_wf s" "WEBM_HEADER_data s' = WEBM_HEADER_data s"
    "WEBM_HEADER_total_bytes s' = WEBM_HEADER_total_bytes s" "CURRENT_CLUSTER s' = CURRENT_CLUSTER s"
    "TIMECODE_OFFSET s' = TIMECODE_OFFSET s" "CURRENT_NODE_ID s' = CURRENT_NODE_ID s"
    by (subst e, simp add: node_wf_def)+
  show "length (WIRE s') = Suc (length (WIRE s))" using assms by (auto simp: posts_def sends_def)
qed

lemma SendPacket_posts:
  assumes "node_wf s" "slot_ix k" and "unat n \<le> 1472" "unat n \<le> length data"
  shows "\<exists>s'. SendPacket data n k s = Some s' \<and> posts s k (take (unat n) data) s'"
proof -
  have a: "addr_ok (ADDR s)" "length (SRC_MAC (ADDR s)) = 6" using assms(1) by (auto simp: node_wf_def addr_ok_def)
  from SendPacket_frame_exists [OF wf_idx(3,2,4,5) [OF assms(1,2)] a(2) assms(3,4)] obtain f where
    "SendPacket_frame data n k (ADDR s) = Some f" by blast
  then have "SendPacket data n k s = Some (s\<lparr>WIRE := WIRE s @ [f]\<rparr>)" by (simp add: SendPacket_def)
  with SendPacket_sends [OF this a(1) assms(3,4)] show ?thesis by (auto simp: posts_def)
qed

text \<open>The buffer: a write of up to 1018 bytes behind the protocol byte.\<close>

lemma data_buf_split: "length xs \<le> 1018 \<Longrightarrow>
    data_buf p = [proto_code p] @ replicate (length xs) 0 @ replicate (1018 - length xs) 0"
  by (simp add: data_buf_def MAX_DATA_BYTES_def DATA_HDR_BYTES_def MAX_BLOCK_BYTES_def flip: replicate_add)

lemma wrn_data_buf:
  assumes "length xs \<le> 1018"
  shows "wrn (data_buf p) DATA_HDR_BYTES xs = Some (proto_code p # xs @ replicate (1018 - length xs) 0)"
  unfolding data_buf_split [OF assms] by (simp add: wrn_def DATA_HDR_BYTES_def)

lemma SendPacket_data_posts:
  assumes "node_wf s" "slot_ix k" and "length xs \<le> 1018" and "unat n = Suc (length xs)"
  shows "\<exists>s'. SendPacket (proto_code p # xs @ Z) n k s = Some s' \<and> posts s k (proto_code p # xs) s'"
  using SendPacket_posts [OF assms(1,2), of n "proto_code p # xs @ Z"] assms(3,4) by simp

section \<open>The messages\<close>

lemma send_my_id_posts:
  assumes "node_wf s" "slot_ix k"
  shows "\<exists>s'. send_my_id p k s = Some s' \<and>
    posts s k (proto_code p # be_bytes 2 (unat (node_id (NODES_STATUS s ! 3)))) s'"
proof -
  let ?x = "be_bytes 2 (unat (node_id (NODES_STATUS s ! 3)))"
  have me: "idx (NODES_STATUS s) MY_ID = Some (NODES_STATUS s ! 3)"
    using wf_idx(1) [OF assms(1), of MY_ID] by (simp add: MY_ID_def slot_ix_def)
  have w: "wrn (data_buf p) DATA_HDR_BYTES ?x = Some (proto_code p # ?x @ replicate 1016 0)"
    by (subst wrn_data_buf) simp_all
  show ?thesis
    using SendPacket_data_posts [OF assms, of ?x "of_nat (DATA_HDR_BYTES + 2)" p "replicate 1016 0"] me w
    by (simp add: send_my_id_def mem16_htons DATA_HDR_BYTES_def)
qed

lemma SendConnect_posts:
  assumes "node_wf s"
  shows "\<exists>s'. SendConnect k s = Some s' \<and>
    posts s TMP_ID (proto_code CONNECT_PROTO # node_wire (NODES_STATUS s ! 3)) s'"
proof -
  let ?x = "node_wire (NODES_STATUS s ! 3)"
  have me: "idx (NODES_STATUS s) MY_ID = Some (NODES_STATUS s ! 3)"
    using wf_idx(1) [OF assms, of MY_ID] by (simp add: MY_ID_def slot_ix_def)
  have w: "wrn (data_buf CONNECT_PROTO) DATA_HDR_BYTES ?x =
      Some (proto_code CONNECT_PROTO # ?x @ replicate 988 0)"
    by (subst wrn_data_buf) simp_all
  show ?thesis
    using SendPacket_data_posts [OF assms, of TMP_ID ?x "of_nat (DATA_HDR_BYTES + NODE_STATUS_BYTES)"
        CONNECT_PROTO "replicate 988 0"] me w
    by (simp add: SendConnect_def CopyNodeStatusToBytes_wire DATA_HDR_BYTES_def del: proto_code.simps)
qed

lemma SendDepart_posts:
  assumes "node_wf s"
  shows "\<exists>s' s1. SendDepart s = Some s' \<and> s' = s1\<lparr>DEPART_NUM := DEPART_NUM s1 + 1\<rparr> \<and>
    posts s PARENT_ID (proto_code DEPART_PROTO # node_wire (NODES_STATUS s ! 3)) s1"
proof -
  let ?x = "node_wire (NODES_STATUS s ! 3)"
  have me: "idx (NODES_STATUS s) MY_ID = Some (NODES_STATUS s ! 3)"
    using wf_idx(1) [OF assms, of MY_ID] by (simp add: MY_ID_def slot_ix_def)
  have w: "wrn (data_buf DEPART_PROTO) DATA_HDR_BYTES ?x =
      Some (proto_code DEPART_PROTO # ?x @ replicate 988 0)"
    by (subst wrn_data_buf) simp_all
  show ?thesis
    using SendPacket_data_posts [OF assms, of PARENT_ID ?x "of_nat (DATA_HDR_BYTES + NODE_STATUS_BYTES)"
        DEPART_PROTO "replicate 988 0"] me w
    by (auto simp: SendDepart_def CopyNodeStatusToBytes_wire DATA_HDR_BYTES_def simp del: proto_code.simps)
qed

lemma SendDetach_posts:
  assumes "node_wf s" "slot_ix k"
  shows "\<exists>s' s1. SendDetach k cs s = Some s' \<and> s' = s1\<lparr>DETACH_NUM := DETACH_NUM s1 + 1\<rparr> \<and>
    posts s k (proto_code DETACH_PROTO # mem16 cs) s1"
proof -
  have w: "wrn (data_buf DETACH_PROTO) DATA_HDR_BYTES (mem16 cs) =
      Some (proto_code DETACH_PROTO # mem16 cs @ replicate 1016 0)"
    by (subst wrn_data_buf) simp_all
  show ?thesis
    using SendPacket_data_posts [OF assms, of "mem16 cs" "of_nat (DATA_HDR_BYTES + 2)" DETACH_PROTO "replicate 1016 0"] w
    by (auto simp: SendDetach_def DATA_HDR_BYTES_def simp del: proto_code.simps)
qed

lemma length_timecode_bytes [simp]: "length (timecode_bytes t) = 8"
  by (simp add: timecode_bytes_def)

lemma me_idx: "node_wf s \<Longrightarrow> idx (NODES_STATUS s) MY_ID = Some (NODES_STATUS s ! 3)"
  using wf_idx(1) [of s MY_ID] by (simp add: MY_ID_def slot_ix_def)

text \<open>A node without an id sends four bytes in its setup request, a node with one ten.\<close>

definition setup_payload :: "node_status \<Rightarrow> bytes" where
  "setup_payload me = be_bytes 4 (unat (p_ipaddr me)) @
     (if 0 < node_id me then be_bytes 2 (unat (node_id me)) @ be_bytes 4 (unat (ipaddr me)) else [])"

lemma SendSetup_posts:
  assumes "node_wf s"
  shows "\<exists>s'. SendSetup s = Some s' \<and>
    posts s PARENT_ID (proto_code SETUP_PROTO # setup_payload (NODES_STATUS s ! 3)) s'"
proof -
  let ?me = "NODES_STATUS s ! 3"
  let ?x = "setup_payload ?me"
  have w4: "wrn (data_buf SETUP_PROTO) DATA_HDR_BYTES (be_bytes 4 (unat (p_ipaddr ?me))) =
      Some (proto_code SETUP_PROTO # be_bytes 4 (unat (p_ipaddr ?me)) @ replicate 1014 0)"
    by (subst wrn_data_buf) simp_all
  show ?thesis
  proof (cases "0 < node_id ?me")
    case False
    then show ?thesis
      using SendPacket_data_posts [OF assms, of PARENT_ID ?x "of_nat (DATA_HDR_BYTES + 4)" SETUP_PROTO "replicate 1014 0"]
        me_idx [OF assms] w4
      by (simp add: SendSetup_def setup_payload_def mem32_htonl DATA_HDR_BYTES_def del: proto_code.simps)
  next
    case True
    have w: "wrn (data_buf SETUP_PROTO) DATA_HDR_BYTES ?x =
        Some (proto_code SETUP_PROTO # ?x @ replicate 1008 0)"
      by (subst wrn_data_buf) (simp_all add: setup_payload_def True)
    have "(do { d \<leftarrow> wrn (data_buf SETUP_PROTO) DATA_HDR_BYTES (be_bytes 4 (unat (p_ipaddr ?me)));
        d \<leftarrow> wrn d (DATA_HDR_BYTES + 4) (be_bytes 2 (unat (node_id ?me)));
        d \<leftarrow> wrn d (DATA_HDR_BYTES + 6) (be_bytes 4 (unat (ipaddr ?me)));
        SendPacket d (of_nat (DATA_HDR_BYTES + 10)) PARENT_ID s }) =
      SendPacket (proto_code SETUP_PROTO # ?x @ replicate 1008 0) (of_nat (DATA_HDR_BYTES + 10)) PARENT_ID s"
      using w True by (simp add: mem_simps setup_payload_def del: proto_code.simps)
    then show ?thesis
      using SendPacket_data_posts [OF assms, of PARENT_ID ?x "of_nat (DATA_HDR_BYTES + 10)" SETUP_PROTO "replicate 1008 0"]
        me_idx [OF assms] True
      by (simp add: SendSetup_def mem32_htonl mem16_htons DATA_HDR_BYTES_def setup_payload_def del: proto_code.simps)
  qed
qed

lemma SendAccept_posts:
  assumes "node_wf s" "slot_ix k"
  shows "\<exists>s'. SendAccept k s = Some s' \<and> posts s k (proto_code ACCEPT_PROTO #
    node_wire (NODES_STATUS s ! 3) @ timecode_bytes (TIMECODE_OFFSET s)) s'"
proof -
  let ?x = "node_wire (NODES_STATUS s ! 3) @ timecode_bytes (TIMECODE_OFFSET s)"
  have w: "(do { d \<leftarrow> wrn (data_buf ACCEPT_PROTO) DATA_HDR_BYTES (node_wire (NODES_STATUS s ! 3));
      wrn d (DATA_HDR_BYTES + 30) (timecode_bytes (TIMECODE_OFFSET s)) }) =
      Some (proto_code ACCEPT_PROTO # ?x @ replicate 980 0)"
    by (subst wrn_append, simp, subst wrn_data_buf) simp_all
  show ?thesis
    using SendPacket_data_posts [OF assms, of ?x "of_nat (DATA_HDR_BYTES + NODE_STATUS_BYTES + 8)" ACCEPT_PROTO "replicate 980 0"]
      me_idx [OF assms(1)] w
    by (auto simp: SendAccept_def CopyNodeStatusToBytes_wire DATA_HDR_BYTES_def bind_eq_Some_conv
        simp del: proto_code.simps)
qed

lemma SendWebMHeader_posts:
  assumes "node_wf s" "slot_ix k" and "WEBM_HEADER_data s = Some h"
    and "unat (WEBM_HEADER_total_bytes s) \<le> length h" "unat (WEBM_HEADER_total_bytes s) \<le> 1000"
  shows "\<exists>s'. SendWebMHeader k s = Some s' \<and> posts s k (proto_code BLOCK_PROTO # replicate 18 0 @
    take (unat (WEBM_HEADER_total_bytes s)) h) s'"
proof -
  define m where "m = unat (WEBM_HEADER_total_bytes s)"
  define xs where "xs = take m h"
  have l: "length xs = m" "m \<le> 1000" using assms by (simp_all add: xs_def m_def)
  have b: "data_buf BLOCK_PROTO = (proto_code BLOCK_PROTO # replicate 18 0) @ replicate 1000 0"
    by (simp add: data_buf_def MAX_DATA_BYTES_def DATA_HDR_BYTES_def MAX_BLOCK_BYTES_def flip: replicate_add)
  have w: "wrn (data_buf BLOCK_PROTO) (BLOCKINFO_BYTES + DATA_HDR_BYTES) xs =
      Some (proto_code BLOCK_PROTO # (replicate 18 0 @ xs) @ replicate (1000 - m) 0)"
    unfolding b using l by (subst wrn_mid_fit) (simp_all add: DATA_HDR_BYTES_def)
  have n: "unat (WEBM_HEADER_total_bytes s + of_nat (BLOCKINFO_BYTES + DATA_HDR_BYTES)) =
      Suc (length (replicate 18 (0 :: u8) @ xs))"
    using l by (simp add: DATA_HDR_BYTES_def unat_word_ariths m_def)
  have r: "rdn h 0 m = Some xs" using assms by (simp add: rdn_def m_def xs_def)
  show ?thesis
    using SendPacket_data_posts [OF assms(1,2) _ n, of BLOCK_PROTO "replicate (1000 - m) 0"] l w r assms(3)
    by (simp add: SendWebMHeader_def m_def [symmetric] xs_def [symmetric] del: proto_code.simps)
qed

lemma SendEndStatus_posts:
  assumes "node_wf s" "slot_ix k"
  shows "\<exists>s'. SendEndStatus k s = Some s' \<and> posts s k (proto_code BLOCK_PROTO # BLOCKINFO_END) s'"
proof -
  have w: "wrn (data_buf BLOCK_PROTO) DATA_HDR_BYTES BLOCKINFO_END =
      Some (proto_code BLOCK_PROTO # BLOCKINFO_END @ replicate 1000 0)"
    by (subst wrn_data_buf) (simp_all add: BLOCKINFO_END_def)
  show ?thesis
    using SendPacket_data_posts [OF assms, of BLOCKINFO_END "of_nat (BLOCKINFO_BYTES + DATA_HDR_BYTES)" BLOCK_PROTO "replicate 1000 0"] w
    by (simp add: SendEndStatus_def DATA_HDR_BYTES_def BLOCKINFO_END_def del: proto_code.simps)
qed

section \<open>Arrays of statuses in a message\<close>

text \<open>The connected slots but one, and the copy into a buffer that has room for them.\<close>

definition others :: "u8 \<Rightarrow> int \<Rightarrow> nat list \<Rightarrow> nat list" where
  "others c skip ks = filter (\<lambda>k. int k \<noteq> skip \<and> connected c k) ks"

lemma copy_connected_defined:
  assumes "\<forall>k \<in> set ks. k < length ns" and "base + 30 * (count + length ks) \<le> length data"
  shows "\<exists>r. copy_connected ns c skip base ks data count = Some r"
  using assms
proof (induction ks arbitrary: data count)
  case Nil
  then show ?case by simp
next
  case (Cons k ks)
  show ?case
  proof (cases "int k \<noteq> skip \<and> connected c k")
    case False
    with Cons show ?thesis by auto
  next
    case True
    have "\<exists>d. wrn data (base + 30 * count) (node_wire (ns ! k)) = Some d"
      using Cons.prems(2) by (simp add: wrn_defined_iff)
    then obtain d where d: "wrn data (base + 30 * count) (node_wire (ns ! k)) = Some d" ..
    have "\<exists>r. copy_connected ns c skip base ks d (count + 1) = Some r"
      using Cons.prems length_wrn [OF d] by (intro Cons.IH) simp_all
    with True d Cons.prems(1) show ?thesis by (auto simp: idx_def CopyNodeStatusToBytes_wire)
  qed
qed

lemma copy_connected_array:
  assumes "\<forall>k \<in> set ks. k < length ns" and "length A = base + 30 * count" and "30 * length ks \<le> length Z"
  shows "\<exists>Z'. copy_connected ns c skip base ks (A @ Z) count = Some (A @ concat (map (\<lambda>k. node_wire (ns ! k))
      (others c skip ks)) @ Z', count + length (others c skip ks)) \<and>
    length Z' + 30 * length (others c skip ks) = length Z"
proof -
  have "base + 30 * (count + length ks) \<le> length (A @ Z)" using assms(2,3) by simp
  from copy_connected_defined [OF assms(1) this, of c skip] obtain d n where
    r: "copy_connected ns c skip base ks (A @ Z) count = Some (d, n)" by auto
  from copy_connected_result [OF r assms(1) refl assms(2)] obtain Z' where
    z: "d = A @ concat (map (\<lambda>k. node_wire (ns ! k)) (others c skip ks)) @ Z'"
      "n = count + length (others c skip ks)" "length d = length (A @ Z)"
    by (auto simp: others_def)
  have "length (concat (map (\<lambda>k. node_wire (ns ! k)) ks')) = 30 * length ks'" for ks' by (induction ks') simp_all
  with r z show ?thesis by auto
qed

lemma data_buf_append:
  assumes "length A = m" "m \<le> 1018"
  shows "data_buf p = [proto_code p] @ replicate m 0 @ replicate (1018 - m) 0"
  using assms data_buf_split [of A p] by simp

lemma length_wires [simp]: "length (concat (map node_wire ns)) = 30 * length ns"
  by (induction ns) simp_all

text \<open>The statuses of the slots \<open>ks\<close>.\<close>

definition wires :: "node \<Rightarrow> nat list \<Rightarrow> bytes" where
  "wires s ks = concat (map (\<lambda>k. node_wire (NODES_STATUS s ! k)) ks)"

lemma length_wires_slots [simp]: "length (wires s ks) = 30 * length ks"
  by (induction ks) (simp_all add: wires_def)

lemma wires_append [simp]: "wires s (ks @ ls) = wires s ks @ wires s ls"
  by (simp add: wires_def)

lemma wires_Cons: "wires s (k # ks) = node_wire (NODES_STATUS s ! k) @ wires s ks"
  by (simp add: wires_def)

lemma SendInitialStatus_posts:
  assumes "node_wf s" "slot_ix k"
    and n: "(if connected (CONNECTED_NODES s) 2 then CURRENT_CHILD_NUM s + 3 else CURRENT_CHILD_NUM s + 2) =
      int (2 + length (others (CONNECTED_NODES s) k [0, 1, 2]))"
  shows "\<exists>s'. SendInitialStatus k s = Some s' \<and> posts s k (proto_code INITIAL_STATUS_PROTO #
    timecode_bytes (TIMECODE_OFFSET s) @ wires s (nat k # 3 # others (CONNECTED_NODES s) k [0, 1, 2])) s'"
proof -
  let ?o = "others (CONNECTED_NODES s) k [0, 1, 2]"
  define T where "T = timecode_bytes (TIMECODE_OFFSET s)"
  define A where "A = proto_code INITIAL_STATUS_PROTO # T @ wires s [nat k, 3]"
  have lo: "length ?o \<le> 3"
    using length_filter_le [of "\<lambda>j. int j \<noteq> k \<and> connected (CONNECTED_NODES s) j" "[0, 1, 2 :: nat]"]
    by (simp add: others_def)
  have u: "[0..<MAX_NODE_NUM - 1] = [0, 1, 2]" by (simp add: MAX_NODE_NUM_def upt_rec)
  have b: "data_buf INITIAL_STATUS_PROTO = [proto_code INITIAL_STATUS_PROTO] @ replicate 1018 0"
    using data_buf_append [of "[] :: bytes" 0] by simp
  have w1: "wrn (data_buf INITIAL_STATUS_PROTO) DATA_HDR_BYTES T =
      Some ((proto_code INITIAL_STATUS_PROTO # T) @ replicate 1010 0)"
    unfolding b by (subst wrn_mid_fit) (simp_all add: DATA_HDR_BYTES_def T_def)
  have w2: "wrn ((proto_code INITIAL_STATUS_PROTO # T) @ replicate 1010 0) (DATA_HDR_BYTES + 8)
      (node_wire (NODES_STATUS s ! nat k)) =
      Some ((proto_code INITIAL_STATUS_PROTO # T @ wires s [nat k]) @ replicate 980 0)"
    by (subst wrn_mid_fit) (simp_all add: DATA_HDR_BYTES_def T_def wires_def)
  have w3: "wrn ((proto_code INITIAL_STATUS_PROTO # T @ wires s [nat k]) @ replicate 980 0)
      (DATA_HDR_BYTES + 8 + NODE_STATUS_BYTES) (node_wire (NODES_STATUS s ! 3)) = Some (A @ replicate 950 0)"
    by (subst wrn_mid_fit) (simp_all add: DATA_HDR_BYTES_def T_def wires_def A_def)
  have lA: "length A = DATA_HDR_BYTES + 8 + 30 * 2" by (simp add: A_def T_def DATA_HDR_BYTES_def)
  have ns: "\<forall>j \<in> set [0, 1, 2]. j < length (NODES_STATUS s)" using assms(1) by (simp add: node_wf_def)
  obtain Z where w4: "copy_connected (NODES_STATUS s) (CONNECTED_NODES s) k (DATA_HDR_BYTES + 8) [0, 1, 2]
      (A @ replicate 950 0) 2 = Some (A @ wires s ?o @ Z, 2 + length ?o)"
    using copy_connected_array [OF ns lA, of "replicate 950 0" "CONNECTED_NODES s" k] by (auto simp: wires_def)
  let ?x = "T @ wires s (nat k # 3 # ?o)"
  have p: "A @ wires s ?o @ Z = proto_code INITIAL_STATUS_PROTO # ?x @ Z" by (simp add: A_def wires_Cons wires_def [of s "[]"])
  have m: "unat (of_int (int DATA_HDR_BYTES + int NODE_STATUS_BYTES * int (2 + length ?o) + 8) :: u16) = Suc (length ?x)"
  proof -
    have "int DATA_HDR_BYTES + int NODE_STATUS_BYTES * int (2 + length ?o) + 8 = int (Suc (length ?x))"
      by (simp add: DATA_HDR_BYTES_def T_def)
    then show ?thesis using lo by (simp only: of_int_of_nat_eq) (simp add: unat_of_nat T_def del: of_nat_Suc of_nat_add of_nat_mult)
  qed
  have lx: "length ?x \<le> 1018" using lo by (simp add: T_def)
  have q: "(if connected (CONNECTED_NODES s) (nat PARENT_ID) then CURRENT_CHILD_NUM s + 1 + 1 + 1
      else CURRENT_CHILD_NUM s + 1 + 1) = int (2 + length ?o)"
    using n by (simp add: PARENT_ID_def split: if_splits)
  from SendPacket_data_posts [OF assms(1,2) lx m] show ?thesis
    unfolding SendInitialStatus_def Let_def u T_def [symmetric] w1 Option.bind.bind_lunit
      wf_idx(1) [OF assms(1,2)] CopyNodeStatusToBytes_wire w2 me_idx [OF assms(1)] w3 w4 prod.case p q .
qed

text \<open>The list of known nodes without the one the message goes to.\<close>

definition without :: "u16 \<Rightarrow> node_info list \<Rightarrow> node_info list" where
  "without i l = filter (\<lambda>n. node_id n \<noteq> i) l"

lemma copy_list_defined:
  assumes "\<forall>k \<in> set ks. k < length l" and "1 + 30 * (count + length ks) \<le> length data"
  shows "\<exists>r. copy_list l dst (map int ks) data count st = Some r"
  using assms
proof (induction ks arbitrary: data count st)
  case Nil
  then show ?case by simp
next
  case (Cons k ks)
  have g: "GetListIndex l (int k) 0 = Some (l ! k)"
    using GetListIndex_idx [of l 0 "int k"] Cons.prems(1) by (simp add: idx_def)
  have "\<exists>d. wrn data (DATA_HDR_BYTES + NODE_STATUS_BYTES * count) (node_wire (l ! k)) = Some d"
    using Cons.prems(2) by (simp add: wrn_defined_iff DATA_HDR_BYTES_def)
  then obtain d where d: "wrn data (DATA_HDR_BYTES + NODE_STATUS_BYTES * count) (node_wire (l ! k)) = Some d" ..
  have "\<exists>r. copy_list l dst (map int ks) d (count + 1) st = Some r"
    "\<exists>r. copy_list l dst (map int ks) data count (st - 1) = Some r"
    using Cons.prems length_wrn [OF d] by (intro Cons.IH; simp)+
  with g d show ?case by (auto simp: CopyNodeStatusToBytes_wire)
qed

lemma map_nth_upt: "map ((!) l) [0..<length l] = l"
  by (rule map_nth)

lemma copy_list_array:
  assumes "length A = 1 + 30 * count" and "30 * length l \<le> length Z"
  shows "\<exists>Z'. copy_list l dst [0..ListSize l - 1] (A @ Z) count st =
      Some (A @ concat (map node_wire (without dst l)) @ Z', st - int (length l) + int (length (without dst l)))"
proof -
  have ks: "[0..ListSize l - 1] = map int [0..<length l]" by (simp only: ListSize_length upto_int_upt)
  have "1 + 30 * (count + length [0..<length l]) \<le> length (A @ Z)" using assms by simp
  from copy_list_defined [OF _ this] obtain d st' where
    r: "copy_list l dst (map int [0..<length l]) (A @ Z) count st = Some (d, st')" by force
  from copy_list_result [OF r _ refl assms(1)] r show ?thesis
    by (auto simp: ks map_nth_upt without_def)
qed

text \<open>
  The answer to a request for the list: the other children and the known nodes, without the node
  that asked.
\<close>

lemma SendResList_posts:
  assumes "node_wf s" "slot_ix k"
    and L: "L = wires s (others (CONNECTED_NODES s) k [0, 1]) @
      concat (map node_wire (without (node_id (NODES_STATUS s ! nat k)) (NODES_LIST s)))"
    and n: "CURRENT_CHILD_NUM s - 1 = int (length (others (CONNECTED_NODES s) k [0, 1]))"
    and room: "length (NODES_LIST s) \<le> 31"
  shows "\<exists>s'. SendResList k s = Some s' \<and> posts s k (proto_code RES_LIST_PROTO # L) s'"
proof -
  let ?o = "others (CONNECTED_NODES s) k [0, 1]"
  let ?l = "NODES_LIST s" and ?d = "node_id (NODES_STATUS s ! nat k)"
  have lo: "length ?o \<le> 2"
    using length_filter_le [of "\<lambda>j. int j \<noteq> k \<and> connected (CONNECTED_NODES s) j" "[0, 1 :: nat]"]
    by (simp add: others_def)
  have lw: "length (without ?d ?l) \<le> length ?l" by (simp add: without_def)
  have b: "data_buf RES_LIST_PROTO = [proto_code RES_LIST_PROTO] @ replicate 1018 0"
    using data_buf_append [of "[] :: bytes" 0] by simp
  have l1: "length [proto_code RES_LIST_PROTO] = DATA_HDR_BYTES + 30 * 0" by (simp add: DATA_HDR_BYTES_def)
  have ns: "\<forall>j \<in> set [0, 1]. j < length (NODES_STATUS s)" using assms(1) by (simp add: node_wf_def)
  obtain Z where w1: "copy_connected (NODES_STATUS s) (CONNECTED_NODES s) k DATA_HDR_BYTES [0, 1]
      (data_buf RES_LIST_PROTO) 0 = Some ([proto_code RES_LIST_PROTO] @ wires s ?o @ Z, 0 + length ?o)"
    and lZ: "length Z + 30 * length ?o = 1018"
    using copy_connected_array [OF ns l1, of "replicate 1018 0" "CONNECTED_NODES s" k] unfolding b
    by (auto simp: wires_def)
  define A where "A = [proto_code RES_LIST_PROTO] @ wires s ?o"
  have lA: "length A = 1 + 30 * (0 + length ?o)" by (simp add: A_def)
  have lZ': "30 * length ?l \<le> length Z" using lZ lo room by linarith
  define st where "st = CURRENT_CHILD_NUM s - 1 + ListSize ?l"
  obtain Z' where w2: "copy_list ?l ?d [0..ListSize ?l - 1] (A @ Z) (0 + length ?o) st =
      Some (A @ concat (map node_wire (without ?d ?l)) @ Z', st - int (length ?l) + int (length (without ?d ?l)))"
    using copy_list_array [OF lA lZ'] by blast
  have stn: "st - int (length ?l) + int (length (without ?d ?l)) = int (length ?o + length (without ?d ?l))"
    using n by (simp add: st_def ListSize_length)
  have lx: "length L \<le> 1018" using lo lw room by (simp add: L)
  have m: "unat (of_int (int DATA_HDR_BYTES + int NODE_STATUS_BYTES *
      int (length ?o + length (without ?d ?l))) :: u16) = Suc (length L)"
  proof -
    have "int DATA_HDR_BYTES + int NODE_STATUS_BYTES * int (length ?o + length (without ?d ?l)) = int (Suc (length L))"
      by (simp add: DATA_HDR_BYTES_def L)
    then show ?thesis using lx by (simp only: of_int_of_nat_eq) (simp add: unat_of_nat del: of_nat_Suc of_nat_add of_nat_mult)
  qed
  have p: "A @ concat (map node_wire (without ?d ?l)) @ Z' = proto_code RES_LIST_PROTO # L @ Z'"
    by (simp add: A_def L)
  have A': "[proto_code RES_LIST_PROTO] @ wires s ?o @ Z = A @ Z" by (simp add: A_def)
  from SendPacket_data_posts [OF assms(1,2) lx m] show ?thesis
    unfolding SendResList_def Let_def slots_01 w1 Option.bind.bind_lunit prod.case wf_idx(1) [OF assms(1,2)]
      A' st_def [symmetric] w2 stn p .
qed

text \<open>
  An advertisement: the advertised node, this node and the other children; the parent is copied
  last, but the number of statuses leaves it out.
\<close>

definition ad_slots :: "u8 \<Rightarrow> int \<Rightarrow> nat list" where
  "ad_slots c a = (if a \<noteq> MY_ID then [nat a, 3] else [3]) @ others c a [0, 1]"

lemma SendAdvertise_posts:
  assumes "node_wf s" "slot_ix k" "slot_ix a"
    and n: "CURRENT_CHILD_NUM s + 1 = int (length (ad_slots (CONNECTED_NODES s) a))"
  shows "\<exists>s'. SendAdvertise k a s = Some s' \<and>
    posts s k (proto_code ADVERTISE_PROTO # wires s (ad_slots (CONNECTED_NODES s) a)) s'"
proof -
  let ?c = "CONNECTED_NODES s"
  let ?o = "others ?c a [0, 1, 2]" and ?h = "if a \<noteq> MY_ID then [nat a, 3] else [3]"
  let ?L = "wires s (ad_slots ?c a)"
  have u: "[0..<MAX_NODE_NUM - 1] = [0, 1, 2]" by (simp add: MAX_NODE_NUM_def upt_rec)
  have b: "data_buf ADVERTISE_PROTO = [proto_code ADVERTISE_PROTO] @ replicate 1018 0"
    using data_buf_append [of "[] :: bytes" 0] by simp
  have ns: "\<forall>j \<in> set [0, 1, 2]. j < length (NODES_STATUS s)" using assms(1) by (simp add: node_wf_def)
  define A where "A = proto_code ADVERTISE_PROTO # wires s ?h"
  have lA: "length A = DATA_HDR_BYTES + 30 * length ?h" by (simp add: A_def DATA_HDR_BYTES_def)
  have w1: "wrn (data_buf ADVERTISE_PROTO) DATA_HDR_BYTES (node_wire (NODES_STATUS s ! nat a)) =
      Some ((proto_code ADVERTISE_PROTO # node_wire (NODES_STATUS s ! nat a)) @ replicate 988 0)"
    unfolding b by (subst wrn_mid_fit) (simp_all add: DATA_HDR_BYTES_def)
  have w2: "wrn ((proto_code ADVERTISE_PROTO # node_wire (NODES_STATUS s ! nat a)) @ replicate 988 0)
      (DATA_HDR_BYTES + NODE_STATUS_BYTES) (node_wire (NODES_STATUS s ! 3)) =
      Some ((proto_code ADVERTISE_PROTO # node_wire (NODES_STATUS s ! nat a) @ node_wire (NODES_STATUS s ! 3)) @ replicate 958 0)"
    by (subst wrn_mid_fit) (simp_all add: DATA_HDR_BYTES_def)
  have "\<exists>m. (if a \<noteq> MY_ID then do {
         me \<leftarrow> idx (NODES_STATUS s) MY_ID;
         data \<leftarrow> wrn ((proto_code ADVERTISE_PROTO # node_wire (NODES_STATUS s ! nat a)) @ replicate 988 0)
           (DATA_HDR_BYTES + NODE_STATUS_BYTES) (node_wire me);
         Some (data, 2)
       } else Some ((proto_code ADVERTISE_PROTO # node_wire (NODES_STATUS s ! nat a)) @ replicate 988 0, 1)) =
      Some (A @ replicate m 0, length ?h) \<and> 958 \<le> m"
    unfolding me_idx [OF assms(1)] Option.bind.bind_lunit w2
    by (auto simp: A_def wires_def MY_ID_def)
  then obtain m where w3: "(if a \<noteq> MY_ID then do {
         me \<leftarrow> idx (NODES_STATUS s) MY_ID;
         data \<leftarrow> wrn ((proto_code ADVERTISE_PROTO # node_wire (NODES_STATUS s ! nat a)) @ replicate 988 0)
           (DATA_HDR_BYTES + NODE_STATUS_BYTES) (node_wire me);
         Some (data, 2)
       } else Some ((proto_code ADVERTISE_PROTO # node_wire (NODES_STATUS s ! nat a)) @ replicate 988 0, 1)) =
      Some (A @ replicate m 0, length ?h)" "958 \<le> m" by blast
  obtain Z where w4: "copy_connected (NODES_STATUS s) ?c a DATA_HDR_BYTES [0, 1, 2] (A @ replicate m 0) (length ?h) =
      Some (A @ wires s ?o @ Z, length ?h + length ?o)"
    using copy_connected_array [OF ns lA, of "replicate m 0" ?c a] w3(2) by (auto simp: wires_def)
  have o: "?o = others ?c a [0, 1] @ others ?c a [2]" by (simp add: others_def)
  then have p: "A @ wires s ?o @ Z = proto_code ADVERTISE_PROTO # ?L @ (wires s (others ?c a [2]) @ Z)"
    by (simp add: A_def ad_slots_def)
  have lo: "length (others ?c a [0, 1]) \<le> 2"
    using length_filter_le [of "\<lambda>j. int j \<noteq> a \<and> connected ?c j" "[0, 1 :: nat]"] by (simp add: others_def)
  then have lx: "length ?L \<le> 1018" by (auto simp: ad_slots_def)
  have mm: "unat (of_int (int DATA_HDR_BYTES + int NODE_STATUS_BYTES * (CURRENT_CHILD_NUM s + 1)) :: u16) = Suc (length ?L)"
  proof -
    have "int DATA_HDR_BYTES + int NODE_STATUS_BYTES * (CURRENT_CHILD_NUM s + 1) = int (Suc (length ?L))"
      unfolding n by (simp add: DATA_HDR_BYTES_def)
    then show ?thesis using lx by (simp only: of_int_of_nat_eq) (simp add: unat_of_nat del: of_nat_Suc of_nat_add of_nat_mult)
  qed
  from SendPacket_data_posts [OF assms(1,2) lx mm] show ?thesis
    unfolding SendAdvertise_def Let_def u wf_idx(1) [OF assms(1,3)] CopyNodeStatusToBytes_wire w1
      Option.bind.bind_lunit w3(1) prod.case w4 p .
qed

section \<open>Addressing a message\<close>

lemma renew_dst_total:
  assumes "node_wf s" "slot_ix k"
  shows "\<exists>a. renew_dst ip p k s = Some (s\<lparr>ADDR := a\<rparr>) \<and> node_wf (s\<lparr>ADDR := a\<rparr>) \<and>
    DST_IP a ! nat k = ip \<and> DST_PORT a ! nat k = p \<and> SRC_IP a = SRC_IP (ADDR s) \<and> SRC_PORT a = SRC_PORT (ADDR s) \<and>
    SRC_MAC a = SRC_MAC (ADDR s)"
proof -
  have k: "0 \<le> k" "k < 4" "nat k < 4" using assms(2) by (auto simp: slot_ix_def)
  define A where "A = (ADDR s)\<lparr>DST_IP := (DST_IP (ADDR s))[nat k := ip],
    DST_MAC := (DST_MAC (ADDR s))[nat k := GATEWAY_MAC s], DST_PORT := (DST_PORT (ADDR s))[nat k := p]\<rparr>"
  have "set ((DST_MAC (ADDR s))[nat k := GATEWAY_MAC s]) \<subseteq> insert (GATEWAY_MAC s) (set (DST_MAC (ADDR s)))"
    by (rule set_update_subset_insert)
  with assms(1) k have "renew_dst ip p k s = Some (s\<lparr>ADDR := A\<rparr>)" "node_wf (s\<lparr>ADDR := A\<rparr>)"
    by (auto simp: A_def renew_dst_def RenewDstIPandMAC_def upd_def node_wf_def addr_ok_def)
  moreover have "DST_IP A ! nat k = ip" "DST_PORT A ! nat k = p"
    using assms(1) k by (simp_all add: A_def node_wf_def)
  ultimately show ?thesis by (intro exI [of _ A]) (simp add: A_def)
qed

lemma SendID_posts:
  assumes "node_wf s"
  shows "\<exists>a s'. SendID ip p s = Some s' \<and> DST_IP a ! 3 = ip \<and> DST_PORT a ! 3 = ntohs p \<and>
    SRC_IP a = SRC_IP (ADDR s) \<and> SRC_PORT a = SRC_PORT (ADDR s) \<and>
    node_wf (s\<lparr>CURRENT_NODE_ID := CURRENT_NODE_ID s + 1, ADDR := a\<rparr>) \<and>
    posts (s\<lparr>CURRENT_NODE_ID := CURRENT_NODE_ID s + 1, ADDR := a\<rparr>) TMP_ID
      (proto_code ID_PROTO # be_bytes 2 (unat (CURRENT_NODE_ID s + 1)) @ mem32 ip) s'"
proof -
  let ?s = "s\<lparr>CURRENT_NODE_ID := CURRENT_NODE_ID s + 1\<rparr>"
  let ?x = "be_bytes 2 (unat (CURRENT_NODE_ID s + 1)) @ mem32 ip"
  have "node_wf ?s" using assms by (simp add: node_wf_def)
  from renew_dst_total [OF this, of TMP_ID ip "ntohs p"] obtain a where
    a: "renew_dst ip (ntohs p) TMP_ID ?s = Some (?s\<lparr>ADDR := a\<rparr>)" "node_wf (?s\<lparr>ADDR := a\<rparr>)"
      "DST_IP a ! 3 = ip" "DST_PORT a ! 3 = ntohs p" "SRC_IP a = SRC_IP (ADDR s)" "SRC_PORT a = SRC_PORT (ADDR s)"
    by (auto simp: TMP_ID_def slot_ix_def)
  have l: "length (mem32 ip) = 4" by simp
  have w: "(do { d \<leftarrow> wrn (data_buf ID_PROTO) DATA_HDR_BYTES (be_bytes 2 (unat (CURRENT_NODE_ID s + 1)));
      wrn d (DATA_HDR_BYTES + 2) (mem32 ip) }) = Some (proto_code ID_PROTO # ?x @ replicate 1012 0)"
    by (subst wrn_append, simp, subst wrn_data_buf) simp_all
  from SendPacket_data_posts [OF a(2), of TMP_ID ?x "of_nat (DATA_HDR_BYTES + 6)" ID_PROTO "replicate 1012 0"]
  obtain s' where s': "SendPacket (proto_code ID_PROTO # ?x @ replicate 1012 0) (of_nat (DATA_HDR_BYTES + 6)) TMP_ID
      (?s\<lparr>ADDR := a\<rparr>) = Some s'" "posts (?s\<lparr>ADDR := a\<rparr>) TMP_ID (proto_code ID_PROTO # ?x) s'"
    by (auto simp: DATA_HDR_BYTES_def simp del: proto_code.simps)
  have "SendID ip p s = Some s'"
    using a(1) s'(1) w unfolding SendID_def Let_def
    by (simp add: mem16_htons bind_eq_Some_conv del: proto_code.simps) blast
  with s'(2) a(2-6) show ?thesis by auto
qed

end
