(* ===== verification/Defined.thy ===== *)
theory Defined
  imports Sending Dispatch
begin

text \<open>
  Which messages a node survives: in a well-formed node every handler has a defined outcome - no
  table is left, no buffer overrun, no null pointer followed - with the exceptions stated here.
\<close>

section \<open>A node that is ready\<close>

text \<open>
  The tables have their sizes, the slot table is consistent, the children's blocks and the current
  cluster exist, and the header of the file, once it is there, fits a packet.
\<close>

definition ready :: "node \<Rightarrow> bool" where
  "ready s \<longleftrightarrow> node_wf s \<and> slots_ok s \<and> None \<notin> set (CURRENT_CHILD_BLOCK s) \<and>
     CURRENT_CLUSTER s \<noteq> None \<and> (\<exists>h. WEBM_HEADER_data s = Some h \<and>
       unat (WEBM_HEADER_total_bytes s) \<le> length h \<and> unat (WEBM_HEADER_total_bytes s) \<le> 1000)"

lemma ready_sel:
  assumes "ready s"
  shows "node_wf s" "slots_ok s" "length (NODES_STATUS s) = 4" "length (CURRENT_CHILD_BLOCK s) = 2"
  using assms by (auto simp: ready_def node_wf_def)

lemma ready_block:
  assumes "ready s" and "i < 2"
  obtains b where "idx (CURRENT_CHILD_BLOCK s) (int i) = Some (Some b)"
proof -
  have "CURRENT_CHILD_BLOCK s ! i \<in> set (CURRENT_CHILD_BLOCK s)" using ready_sel(4) [OF assms(1)] assms(2) by simp
  with assms obtain b where "CURRENT_CHILD_BLOCK s ! i = Some b" by (cases "CURRENT_CHILD_BLOCK s ! i") (auto simp: ready_def)
  with assms(2) ready_sel(4) [OF assms(1)] show thesis by (intro that) (auto simp: idx_def)
qed

lemma status_defined: "30 \<le> length data \<Longrightarrow> \<exists>n. CopyBytesToNodeStatus n0 data = Some n"
  using CopyBytesToNodeStatus_None [of n0 data] by auto

lemma GtoPIP_defined: "node_wf s \<Longrightarrow> \<exists>ip. GtoPIP nd s = Some ip"
  by (simp add: GtoPIP_def me_idx)

lemma stamp_slot_defined:
  assumes "length (NODES_STATUS s) = 4" "slot_ix k"
  shows "\<exists>s'. stamp_slot k s = Some s'"
proof -
  have "0 \<le> k" "nat k < length (NODES_STATUS s)" using assms by (auto simp: slot_ix_def)
  then show ?thesis by (auto simp: stamp_slot_def stamp_def idx_def upd_def)
qed

lemma idx_defined: "0 \<le> k \<Longrightarrow> k < int (length xs) \<Longrightarrow> idx xs k = Some (xs ! nat k)"
  by (simp add: idx_def)

lemma upd_defined: "0 \<le> k \<Longrightarrow> k < int (length xs) \<Longrightarrow> upd xs k x = Some (xs[nat k := x])"
  by (simp add: upd_def)

section \<open>The slot table fits the messages\<close>

lemma ad_slots_count:
  assumes "slots_ok s" and "a = MY_ID \<or> (\<exists>i < 2. a = int i \<and> connected (CONNECTED_NODES s) i)"
  shows "CURRENT_CHILD_NUM s + 1 = int (length (ad_slots (CONNECTED_NODES s) a))"
  using assms by (auto simp: slots_ok_def conn_ok_def conn_of_def ad_slots_def others_def MY_ID_def less_2_cases_iff)

lemma initial_count:
  assumes "slots_ok s" and "i < 2" "\<not> connected (CONNECTED_NODES s) i"
  shows "(if connected (CONNECTED_NODES s) 2 then CURRENT_CHILD_NUM s + 3 else CURRENT_CHILD_NUM s + 2) =
    int (2 + length (others (CONNECTED_NODES s) (int i) [0, 1, 2]))"
  using assms by (auto simp: slots_ok_def conn_ok_def conn_of_def others_def less_2_cases_iff)

lemma ad_slot_ix: "a = MY_ID \<or> (\<exists>i < 2. a = int i \<and> P i) \<Longrightarrow> slot_ix a"
  by (auto simp: slot_ix_def MY_ID_def)

section \<open>The handlers\<close>

lemma learn_nodes_defined:
  assumes "\<forall>k \<in> set ks. base + 30 * (k + 1) \<le> length data"
  shows "\<exists>r. learn_nodes data base ks l = Some r"
  using assms
proof (induction ks arbitrary: l)
  case Nil
  then show ?case by simp
next
  case (Cons k ks)
  have "30 \<le> length (drop (base + NODE_STATUS_BYTES * k) data)" using Cons.prems by auto
  from status_defined [OF this] obtain n where
    "CopyBytesToNodeStatus node_info0 (drop (base + NODE_STATUS_BYTES * k) data) = Some n" by blast
  with Cons.IH Cons.prems show ?case by simp
qed

lemma merge_nodes_defined:
  assumes "\<forall>k \<in> set ks. 30 * (k + 1) \<le> length data"
  shows "\<exists>r. merge_nodes data ks l = Some r"
  using assms
proof (induction ks arbitrary: l)
  case Nil
  then show ?case by simp
next
  case (Cons k ks)
  have "30 \<le> length (drop (NODE_STATUS_BYTES * k) data)" using Cons.prems by auto
  from status_defined [OF this] obtain n where
    "CopyBytesToNodeStatus node_info0 (drop (NODE_STATUS_BYTES * k) data) = Some n" by blast
  with Cons.IH Cons.prems show ?case by simp
qed

lemma add_timecode_defined:
  "\<forall>k \<in> set ks. p + k < length data \<Longrightarrow> \<exists>t'. add_timecode data p ks t = Some t'"
  by (induction ks arbitrary: t) (auto simp: rd_def)

lemma NodeResList_defined: "unat n \<le> length data \<Longrightarrow> \<exists>s'. NodeResList data n s = Some s'"
proof -
  assume n: "unat n \<le> length data"
  have "\<forall>k \<in> set [0..<unat n div 30]. 30 * (k + 1) \<le> length data" using n by auto
  from merge_nodes_defined [OF this, of "NODES_LIST s"] show ?thesis by (auto simp: NodeResList_def)
qed

lemma NodeID_defined: "node_wf s \<Longrightarrow> 6 \<le> length data \<Longrightarrow> \<exists>s'. NodeID data s = Some s'"
  using me_idx [of s] by (auto simp: NodeID_def rdn_def upd_def MY_ID_def node_wf_def)

lemma list_entries_fit:
  assumes "unat n \<le> length data"
    and "k \<in> set (upto_int a ((if 8 \<le> unat n then int (unat n - 8) div int NODE_STATUS_BYTES else 0) - 2))"
  shows "8 + 2 * NODE_STATUS_BYTES + 30 * (k + 1) \<le> length data"
proof -
  have k: "int k < (if 8 \<le> unat n then int (unat n - 8) div 30 else 0) - 2"
    using assms(2) unfolding upto_int_def by (auto simp: zless_nat_conj nat_less_iff split: if_splits)
  then have n: "8 \<le> unat n" by (simp split: if_splits)
  with k have "int (k + 3) \<le> int (unat n - 8) div 30" by simp
  also have "\<dots> = int ((unat n - 8) div 30)" by (simp only: zdiv_int of_nat_numeral)
  finally have "k + 3 \<le> (unat n - 8) div 30" by (simp only: of_nat_le_iff)
  then have "(k + 3) * 30 \<le> unat n - 8" by (simp add: less_eq_div_iff_mult_less_eq)
  with n assms(1) show ?thesis by simp
qed

lemma store_nodes [simp]:
  "NODES_STATUS (InitBlock_store (InitCluster s)) = NODES_STATUS s"
  "NODES_LIST (InitBlock_store (InitCluster s)) = NODES_LIST s"
  "CURRENT_BLOCK (InitBlock_store t) = Some InitBlock"
  by (simp_all add: InitCluster_def InitBlock_store_def Let_def)

lemma NodeInitialStatus_defined:
  assumes "length (NODES_STATUS s) = 4" and "unat n \<le> length data" and "68 \<le> length data"
  shows "\<exists>s'. NodeInitialStatus data n s = Some s'"
proof -
  have d: "30 \<le> length (drop 8 data)" "30 \<le> length (drop (NODE_STATUS_BYTES + 8) data)" using assms(3) by simp_all
  have l: "\<forall>k \<in> set (upto_int 0 ((if 8 \<le> unat n then int (unat n - 8) div int NODE_STATUS_BYTES else 0) - 2)).
      8 + 2 * NODE_STATUS_BYTES + 30 * (k + 1) \<le> length data"
    using list_entries_fit [OF assms(2)] by blast
  have t: "\<forall>k \<in> set [0..<8]. 0 + k < length data" using assms(3) by auto
  obtain tc where tc: "add_timecode data 0 [0..<8] (NODE_TIMECODE_OFFSET s) = Some tc"
    using add_timecode_defined [OF t] by blast
  have me: "idx (NODES_STATUS s) MY_ID = Some (NODES_STATUS s ! nat MY_ID)"
    by (rule idx_defined) (simp_all add: MY_ID_def assms(1))
  obtain m where m: "CopyBytesToNodeStatus (NODES_STATUS s ! nat MY_ID) (drop 8 data) = Some m"
    using status_defined [OF d(1)] by blast
  define ns where "ns = (NODES_STATUS s)[nat MY_ID := m]"
  have u1: "upd (NODES_STATUS s) MY_ID m = Some ns"
    unfolding ns_def by (rule upd_defined) (simp_all add: MY_ID_def assms(1))
  have pa: "idx ns PARENT_ID = Some (ns ! nat PARENT_ID)"
    by (rule idx_defined) (simp_all add: PARENT_ID_def assms(1) ns_def)
  obtain q where q: "CopyBytesToNodeStatus (ns ! nat PARENT_ID) (drop (NODE_STATUS_BYTES + 8) data) = Some q"
    using status_defined [OF d(2)] by blast
  have u2: "upd ns PARENT_ID q = Some (ns[nat PARENT_ID := q])"
    by (rule upd_defined) (simp_all add: PARENT_ID_def assms(1) ns_def)
  obtain r where r: "learn_nodes data (8 + 2 * NODE_STATUS_BYTES)
      (upto_int 0 ((if 8 \<le> unat n then int (unat n - 8) div int NODE_STATUS_BYTES else 0) - 2)) (NODES_LIST s) = Some r"
    using learn_nodes_defined [OF l] by blast
  have st: "\<exists>s'. do { s \<leftarrow> stamp_slot PARENT_ID v; Some (s\<lparr>IS_SETUP := False\<rparr>) } = Some s'"
    if "NODES_STATUS v = ns[nat PARENT_ID := q]" for v
    using stamp_slot_defined [of v PARENT_ID] by (auto simp: that ns_def assms(1))
  show ?thesis
    using r by (cases "8 \<le> unat n")
      (simp_all add: NodeInitialStatus_def Let_def stamp_def tc me m u1 pa q [simplified] u2, (rule st, simp)+)
qed

lemma NodeAccept_defined:
  assumes "length (NODES_STATUS s) = 4" and "38 \<le> length data"
  shows "\<exists>s'. NodeAccept data s = Some s'"
proof -
  obtain u where u: "stamp_slot PARENT_ID (s\<lparr>IS_RETRY := False\<rparr>) = Some u"
    using stamp_slot_defined [of "s\<lparr>IS_RETRY := False\<rparr>" PARENT_ID] assms(1) by auto
  then have lu: "length (NODES_STATUS u) = 4"
    using stamp_slot_slots [OF u] assms(1) by (simp add: same_slots_def)
  have pa: "idx (NODES_STATUS u) PARENT_ID = Some (NODES_STATUS u ! nat PARENT_ID)"
    by (rule idx_defined) (simp_all add: PARENT_ID_def lu)
  obtain q where q: "CopyBytesToNodeStatus (NODES_STATUS u ! nat PARENT_ID) data = Some q"
    using status_defined [of data] assms(2) by auto
  define ns where "ns = (NODES_STATUS u)[nat PARENT_ID := q]"
  have u1: "upd (NODES_STATUS u) PARENT_ID q = Some ns"
    unfolding ns_def by (rule upd_defined) (simp_all add: PARENT_ID_def lu)
  have t: "\<forall>k \<in> set [0..<8]. 30 + k < length data" using assms(2) by auto
  obtain tc where tc: "add_timecode data 30 [0..<8] 0 = Some tc" using add_timecode_defined [OF t] by blast
  have me: "idx ns MY_ID = Some (ns ! nat MY_ID)"
    by (rule idx_defined) (simp_all add: MY_ID_def lu ns_def)
  have u2: "upd ns MY_ID x = Some (ns[nat MY_ID := x])" for x
    by (rule upd_defined) (simp_all add: MY_ID_def lu ns_def)
  show ?thesis by (simp add: NodeAccept_def u pa q u1 tc me u2 Let_def)
qed

lemma NodeAdvertise_defined:
  assumes "node_wf s" and "30 \<le> length data" "unat n \<le> length data"
  shows "\<exists>s'. NodeAdvertise data n s = Some s'"
proof -
  obtain ad where ad: "CopyBytesToNodeStatus node_info0 data = Some ad" using status_defined [OF assms(2)] by blast
  have "\<forall>k \<in> set [1..<unat n div 30]. 0 + 30 * (k + 1) \<le> length data" using assms(3) by auto
  from learn_nodes_defined [OF this] obtain l where
    l: "learn_nodes data 0 [1..<unat n div 30] (NODES_LIST s) = Some l" by blast
  have wf: "node_wf (s\<lparr>NODES_LIST := l\<rparr>)" using assms(1) by (simp add: node_wf_def)
  obtain ip where ip: "GtoPIP ad (s\<lparr>NODES_LIST := l\<rparr>) = Some ip" using GtoPIP_defined [OF wf] by blast
  obtain a where a: "renew_dst (htonl ip) (port ad) PARENT_ID (s\<lparr>NODES_LIST := l\<rparr>) = Some (s\<lparr>NODES_LIST := l, ADDR := a\<rparr>)"
    "node_wf (s\<lparr>NODES_LIST := l, ADDR := a\<rparr>)"
    using renew_dst_total [OF wf, of PARENT_ID "htonl ip" "port ad"] by auto
  have "\<exists>s'. SendSetup v = Some s'" if "node_wf v" for v using SendSetup_posts [OF that] by blast
  moreover have "node_wf (s\<lparr>NODES_LIST := l, ADDR := a, TICK := t, SETUP_TIMESTAMP := u\<rparr>)" for t u
    using a(2) by (simp add: node_wf_def)
  ultimately show ?thesis by (simp add: NodeAdvertise_def Let_def stamp_def ad l [simplified] ip a(1))
qed

lemma depart_loop_defined:
  assumes "length (NODES_STATUS s) = 4" and "\<forall>i \<in> set ks. \<exists>b. idx (CURRENT_CHILD_BLOCK s) (int i) = Some (Some b)"
    and "\<forall>i \<in> set ks. i < 4"
  shows "\<exists>r. depart_loop d ks cs s = Some r"
  using assms
proof (induction ks arbitrary: s cs)
  case Nil
  then show ?case by simp
next
  case (Cons i ks)
  have n: "idx (NODES_STATUS s) (int i) = Some (NODES_STATUS s ! i)" using Cons.prems by (simp add: idx_def)
  obtain b where b: "idx (CURRENT_CHILD_BLOCK s) (int i) = Some (Some b)" using Cons.prems(2) by auto
  have "\<exists>r. depart_loop d ks cs' s' = Some r" if "NODES_STATUS s' = NODES_STATUS s"
      "CURRENT_CHILD_BLOCK s' = CURRENT_CHILD_BLOCK s" for cs' s'
    using Cons.prems by (intro Cons.IH) (simp_all add: that)
  with n b show ?case by (simp add: Let_def)
qed

lemma depart_loop_frame:
  "depart_loop d ks cs s = Some (cs', s') \<Longrightarrow> ADDR s' = ADDR s \<and> GATEWAY_MAC s' = GATEWAY_MAC s \<and>
    NODES_STATUS s' = NODES_STATUS s \<and> CURRENT_CHILD_BLOCK s' = CURRENT_CHILD_BLOCK s"
proof (induction ks arbitrary: cs s)
  case Nil
  then show ?case by simp
next
  case (Cons i ks)
  then obtain n where n: "idx (NODES_STATUS s) (int i) = Some n" by (auto elim: bind_SomeE)
  show ?case
  proof (cases "node_id n = d")
    case False
    with Cons n show ?thesis by simp
  next
    case True
    with Cons.prems n obtain cs1 where "depart_loop d ks cs1 (s\<lparr>CURRENT_CHILD_NUM := CURRENT_CHILD_NUM s - 1,
        CONNECTED_NODES := CONNECTED_NODES s - push_bit i 1\<rparr>) = Some (cs', s')"
      by (auto simp: Let_def elim!: bind_SomeE)
    from Cons.IH [OF this] show ?thesis by simp
  qed
qed

lemma NodeDepart_defined:
  assumes "node_wf s" and "None \<notin> set (CURRENT_CHILD_BLOCK s)" and "30 \<le> length data"
  shows "\<exists>s'. NodeDepart data s = Some s'"
proof -
  obtain nd where nd: "CopyBytesToNodeStatus node_info0 data = Some nd" using status_defined [OF assms(3)] by blast
  obtain ip where ip: "GtoPIP nd s = Some ip" using GtoPIP_defined [OF assms(1)] by blast
  have l: "length (NODES_STATUS s) = 4" "length (CURRENT_CHILD_BLOCK s) = 2" using assms(1) by (simp_all add: node_wf_def)
  obtain b0 b1 where "CURRENT_CHILD_BLOCK s = [Some b0, Some b1]"
    using l(2) assms(2) by (auto simp: numeral_2_eq_2 length_Suc_conv) (metis option.exhaust)
  then have b: "\<forall>i \<in> set [0, 1]. \<exists>b. idx (CURRENT_CHILD_BLOCK s) (int i) = Some (Some b)"
    by (simp add: idx_def)
  obtain cs s1 where s1: "depart_loop (node_id nd) [0, 1] (STACK_U16 s) s = Some (cs, s1)"
    using depart_loop_defined [OF l(1) b] by force
  from depart_loop_frame [OF s1] assms(1) have "node_wf s1" by (simp add: node_wf_def)
  from renew_dst_total [OF this, of TMP_ID "htonl ip" "port nd"] obtain a where
    a: "renew_dst (htonl ip) (port nd) TMP_ID s1 = Some (s1\<lparr>ADDR := a\<rparr>)" "node_wf (s1\<lparr>ADDR := a\<rparr>)" by auto
  from SendDetach_posts [OF a(2), of TMP_ID cs] show ?thesis
    unfolding NodeDepart_def slots_01 nd ip s1 Option.bind.bind_lunit prod.case a(1) by simp blast
qed

lemma find_slot_range:
  assumes "find_slot ns c i dst ks = Some k"
  shows "k = dst \<or> (\<exists>j \<in> set ks. k = int j \<and> connected c j \<and> j < length ns)"
  using assms
proof (induction ks arbitrary: dst)
  case Nil
  then show ?case by simp
next
  case (Cons j ks)
  show ?case
  proof (cases "connected c j")
    case False
    with Cons show ?thesis by fastforce
  next
    case True
    with Cons.prems obtain n where n: "idx ns (int j) = Some n"
      "find_slot ns c i (if node_id n = i then int j else dst) ks = Some k" by (auto elim: bind_SomeE)
    then have j: "j < length ns" by (auto simp: idx_def split: if_splits)
    have "k = (if node_id n = i then int j else dst) \<or> (\<exists>l \<in> set ks. k = int l \<and> connected c l \<and> l < length ns)"
      using Cons.IH [OF n(2)] .
    then show ?thesis using True j by (auto split: if_splits)
  qed
qed

lemma find_slot_defined: "\<forall>k \<in> set ks. k < length ns \<Longrightarrow> \<exists>r. find_slot ns c i dst ks = Some r"
  by (induction ks arbitrary: dst) (auto simp: idx_def)

lemma NodeKeepAlive_defined:
  assumes "node_wf s" and "2 \<le> length data"
  shows "\<exists>s'. NodeKeepAlive data s = Some s'"
proof -
  have l: "length (NODES_STATUS s) = 4" using assms(1) by (simp add: node_wf_def)
  have "\<forall>k \<in> set [0..<MAX_NODE_NUM]. k < length (NODES_STATUS s)" by (auto simp: MAX_NODE_NUM_def l)
  from find_slot_defined [OF this] obtain k where
    k: "find_slot (NODES_STATUS s) (CONNECTED_NODES s) (ntohs (load16 (take 2 data))) (-1) [0..<MAX_NODE_NUM] = Some k"
    by blast
  show ?thesis
  proof (cases "k = -1")
    case True
    with k assms(2) show ?thesis by (simp add: NodeKeepAlive_def rdn_def)
  next
    case False
    with find_slot_range [OF k] have "slot_ix k" by (auto simp: slot_ix_def MAX_NODE_NUM_def)
    from send_my_id_posts [OF assms(1) this, of KEEPALIVERES_PROTO] k assms(2) False show ?thesis
      by (auto simp: NodeKeepAlive_def rdn_def SendKeepAliveRes_def)
  qed
qed

lemma stamp_slots_defined:
  "length (NODES_STATUS s) = 4 \<Longrightarrow> \<forall>k \<in> set ks. k < 4 \<Longrightarrow> \<exists>s'. stamp_slots i ks s = Some s'"
proof (induction ks arbitrary: s)
  case Nil
  then show ?case by simp
next
  case (Cons k ks)
  have n: "idx (NODES_STATUS s) (int k) = Some (NODES_STATUS s ! k)" using Cons.prems by (simp add: idx_def)
  have "slot_ix (int k)" using Cons.prems(2) by (simp add: slot_ix_def)
  from stamp_slot_defined [OF Cons.prems(1) this] obtain u where u: "stamp_slot (int k) s = Some u" ..
  have "length (NODES_STATUS u) = 4" using stamp_slot_slots [OF u] Cons.prems(1) by (simp add: same_slots_def)
  with Cons n u show ?case by simp
qed

lemma NodeKeepAliveRes_defined:
  assumes "length (NODES_STATUS s) = 4" and "2 \<le> length data"
  shows "\<exists>s'. NodeKeepAliveRes data s = Some s'"
  using stamp_slots_defined [OF assms(1), of "[0..<MAX_NODE_NUM]"] assms(2)
  by (simp add: NodeKeepAliveRes_def rdn_def MAX_NODE_NUM_def)

lemma GenerateRndID_range:
  assumes "slots_ok s" and "GenerateRndID 0 (CURRENT_CHILD_NUM s + 1) s = (r, s') \<or>
      0 < CURRENT_CHILD_NUM s \<and> GenerateRndID 1 (CURRENT_CHILD_NUM s) s = (r, s')"
  shows "r = MY_ID \<or> (\<exists>i < 2. r = int i \<and> connected (CONNECTED_NODES s) i)"
  using GenerateRndID_slot [OF assms(1)] assms(2) by (auto simp: image_iff)

text \<open>\<open>NodeSetup\<close>: the answer to a node that wants to join.\<close>

lemma advertise_defined:
  assumes "node_wf s" "slots_ok s" and "a = MY_ID \<or> (\<exists>i < 2. a = int i \<and> connected (CONNECTED_NODES s) i)"
  shows "\<exists>s'. do { u \<leftarrow> renew_dst ip q TMP_ID s; SendAdvertise TMP_ID a u } = Some s'"
proof -
  obtain b where b: "renew_dst ip q TMP_ID s = Some (s\<lparr>ADDR := b\<rparr>)" "node_wf (s\<lparr>ADDR := b\<rparr>)"
    using renew_dst_total [OF assms(1), of TMP_ID ip q] by auto
  have "CURRENT_CHILD_NUM (s\<lparr>ADDR := b\<rparr>) + 1 = int (length (ad_slots (CONNECTED_NODES (s\<lparr>ADDR := b\<rparr>)) a))"
    using ad_slots_count [OF assms(2,3)] by simp
  from SendAdvertise_posts [OF b(2) _ ad_slot_ix [OF assms(3)] this, of TMP_ID] show ?thesis
    unfolding b(1) Option.bind.bind_lunit by auto
qed

lemma node_wf_fields:
  "node_wf s \<Longrightarrow> length bl = 2 \<Longrightarrow> length ns = 4 \<Longrightarrow> node_wf (s\<lparr>CURRENT_CHILD_BLOCK := bl, NODES_STATUS := ns\<rparr>)"
  by (simp add: node_wf_def)

lemma setup_child_defined:
  assumes r: "ready s" and i: "i < 2" "\<not> connected (CONNECTED_NODES s) i" and d: "10 \<le> length data"
  shows "\<exists>s'. setup_child data ip q (int i) s = Some s'"
proof -
  have six: "slot_ix (int i)" using i(1) by (simp add: slot_ix_def)
  obtain a where a: "renew_dst ip q (int i) s = Some (s\<lparr>ADDR := a\<rparr>)" "node_wf (s\<lparr>ADDR := a\<rparr>)"
    using renew_dst_total [OF ready_sel(1) [OF r] six, of ip q] by auto
  obtain c where c: "CURRENT_CLUSTER s = Some c" using r by (auto simp: ready_def)
  obtain b where b: "idx (CURRENT_CHILD_BLOCK s) (int i) = Some (Some b)" using ready_block [OF r i(1)] .
  have ub: "upd (CURRENT_CHILD_BLOCK s) (int i) x = Some ((CURRENT_CHILD_BLOCK s)[i := x])" for x
    using upd_defined [of "int i" "CURRENT_CHILD_BLOCK s" x] i(1) ready_sel(4) [OF r] by simp
  have ni: "idx (NODES_STATUS s) (int i) = Some (NODES_STATUS s ! i)"
    using idx_defined [of "int i" "NODES_STATUS s"] i(1) ready_sel(3) [OF r] by simp
  have nm: "idx (NODES_STATUS s) MY_ID = Some (NODES_STATUS s ! 3)" using me_idx [OF ready_sel(1) [OF r]] .
  have un: "upd (NODES_STATUS s) (int i) x = Some ((NODES_STATUS s)[i := x])" for x
    using upd_defined [of "int i" "NODES_STATUS s" x] i(1) ready_sel(3) [OF r] by simp
  have pk: "rdn data 0 4 = Some (take 4 data)" "rdn data 4 2 = Some (take 2 (drop 4 data))"
    "rdn data 6 4 = Some (take 4 (drop 6 data))" using d by (simp_all add: rdn_def)
  obtain h where h: "WEBM_HEADER_data s = Some h" "unat (WEBM_HEADER_total_bytes s) \<le> length h"
    "unat (WEBM_HEADER_total_bytes s) \<le> 1000" using r by (auto simp: ready_def)
  have fin: "\<exists>s'. do { s \<leftarrow> SendInitialStatus (int i) (s\<lparr>ADDR := a, CURRENT_CHILD_BLOCK := bl, NODES_STATUS := ns\<rparr>);
      s \<leftarrow> SendWebMHeader (int i) s; s \<leftarrow> stamp_slot (int i) s; f s } = Some s'"
    if l: "length bl = 2" "length ns = 4" and f: "\<And>s. \<exists>s'. f s = Some s'" for bl ns f
  proof -
    let ?s = "s\<lparr>ADDR := a, CURRENT_CHILD_BLOCK := bl, NODES_STATUS := ns\<rparr>"
    have wf: "node_wf ?s" using node_wf_fields [OF a(2) l] by simp
    have n: "(if connected (CONNECTED_NODES ?s) 2 then CURRENT_CHILD_NUM ?s + 3 else CURRENT_CHILD_NUM ?s + 2) =
        int (2 + length (others (CONNECTED_NODES ?s) (int i) [0, 1, 2]))"
      using initial_count [OF ready_sel(2) [OF r] i] by (simp split: if_splits)
    obtain u d where u: "SendInitialStatus (int i) ?s = Some u" "posts ?s (int i) d u"
      using SendInitialStatus_posts [OF wf six n] by blast
    note e = posts_sel [OF u(2)]
    have "node_wf u" "WEBM_HEADER_data u = Some h" "unat (WEBM_HEADER_total_bytes u) \<le> length h"
      "unat (WEBM_HEADER_total_bytes u) \<le> 1000" using e wf h by simp_all
    from SendWebMHeader_posts [OF this(1) six this(2-4)] obtain v d' where
      v: "SendWebMHeader (int i) u = Some v" "posts u (int i) d' v" by blast
    have "length (NODES_STATUS v) = 4" using posts_sel(2) [OF v(2)] e(2) l by simp
    from stamp_slot_defined [OF this six] obtain w where "stamp_slot (int i) v = Some w" ..
    with u(1) v(1) f show ?thesis by simp
  qed
  have fin': "\<exists>s'. do { s \<leftarrow> SendInitialStatus (int i) (s\<lparr>ADDR := a, CURRENT_CHILD_BLOCK := (CURRENT_CHILD_BLOCK s)[i := x],
        NODES_STATUS := (NODES_STATUS s)[i := y]\<rparr>);
      s \<leftarrow> SendWebMHeader (int i) s; s \<leftarrow> stamp_slot (int i) s;
      Some (s\<lparr>CONNECTED_NODES := CONNECTED_NODES s + push_bit (nat (int i)) 1,
        CURRENT_CHILD_NUM := CURRENT_CHILD_NUM s + 1\<rparr>) } = Some s'" for x y
    by (rule fin) (simp_all add: ready_sel [OF r])
  show ?thesis
    using fin' by (cases "node_id (NODES_STATUS s ! 3) = 0")
      (simp_all add: setup_child_def a(1) c b ub ni nm un pk Let_def)
qed

lemma CheckChildNum_spec:
  "CheckChildNum s \<noteq> -1 \<Longrightarrow> \<exists>i < 2. CheckChildNum s = int i \<and> \<not> connected (CONNECTED_NODES s) i"
  unfolding CheckChildNum_def slots_01 by (auto split: if_splits)

lemma CheckChildNum_full:
  assumes "slots_ok s" "CheckChildNum s = -1"
  shows "0 < CURRENT_CHILD_NUM s"
  using assms unfolding CheckChildNum_def slots_01
  by (auto simp: slots_ok_def conn_ok_def conn_of_def MAX_CHILD_NUM_def split: if_splits)

lemma ready_rand: "ready (s\<lparr>RAND_N := k\<rparr>) = ready s"
  by (simp add: ready_def node_wf_def slots_ok_def conn_of_def)

lemma GenerateRndID_state: "GenerateRndID a b s = (r, s') \<Longrightarrow> \<exists>k. s' = s\<lparr>RAND_N := k\<rparr>"
proof -
  assume "GenerateRndID a b s = (r, s')"
  then have "s' = s \<or> s' = s\<lparr>RAND_N := RAND_N s + 1\<rparr>" by (auto simp: GenerateRndID_def Let_def split: if_splits)
  moreover have "s = s\<lparr>RAND_N := RAND_N s\<rparr>" by simp
  ultimately show ?thesis by blast
qed

lemma NodeSetup_defined:
  assumes r: "ready s" and d: "10 \<le> length data"
  shows "\<exists>s'. NodeSetup data n ip p s = Some s'"
proof -
  obtain i s1 where g: "GenerateRndID 0 (CURRENT_CHILD_NUM s + 1) s = (i, s1)" by force
  from GenerateRndID_state [OF g] r obtain k where "s1 = s\<lparr>RAND_N := k\<rparr>" by blast
  then have r1: "ready s1" "CONNECTED_NODES s1 = CONNECTED_NODES s" using r by (simp_all add: ready_rand)
  note wf = ready_sel(1,2) [OF r1(1)]
  have i: "i = MY_ID \<or> (\<exists>j < 2. i = int j \<and> connected (CONNECTED_NODES s1) j)"
    using GenerateRndID_range [OF ready_sel(2) [OF r]] g r1(2) by auto
  have full: "\<exists>s'. do { u \<leftarrow> renew_dst ip (ntohs p) TMP_ID s1;
      let (k, v) = GenerateRndID 1 (CURRENT_CHILD_NUM u) u; SendAdvertise TMP_ID k v } = Some s'"
    if "CheckChildNum s1 = -1"
  proof -
    obtain a where a: "renew_dst ip (ntohs p) TMP_ID s1 = Some (s1\<lparr>ADDR := a\<rparr>)" "node_wf (s1\<lparr>ADDR := a\<rparr>)"
      using renew_dst_total [OF wf(1), of TMP_ID ip "ntohs p"] by auto
    let ?u = "s1\<lparr>ADDR := a\<rparr>"
    obtain j v where v: "GenerateRndID 1 (CURRENT_CHILD_NUM ?u) ?u = (j, v)" by force
    have u: "slots_ok ?u" "0 < CURRENT_CHILD_NUM ?u"
      using wf(2) CheckChildNum_full [OF wf(2) that] by (simp_all add: slots_ok_def conn_of_def)
    from GenerateRndID_state [OF v] obtain m where m: "v = ?u\<lparr>RAND_N := m\<rparr>" ..
    have j: "j = MY_ID \<or> (\<exists>l < 2. j = int l \<and> connected (CONNECTED_NODES v) l)"
      using GenerateRndID_range [OF u(1)] v u(2) m by auto
    have w: "node_wf v" "slots_ok v" using a(2) u(1) by (simp_all add: m node_wf_def slots_ok_def conn_of_def)
    from SendAdvertise_posts [OF w(1) _ ad_slot_ix [OF j] ad_slots_count [OF w(2) j], of TMP_ID]
    show ?thesis unfolding a(1) Option.bind.bind_lunit v Let_def prod.case by auto
  qed
  have "\<exists>s'. setup_child data ip (ntohs p) (CheckChildNum s1) s1 = Some s'" if "CheckChildNum s1 \<noteq> -1"
    using CheckChildNum_spec [OF that] setup_child_defined [OF r1(1) _ _ d] by auto
  then show ?thesis
    unfolding NodeSetup_def Let_def g prod.case
    using full [unfolded Let_def] advertise_defined [OF wf i] advertise_defined [OF wf, of MY_ID] by simp
qed

lemma dup_loop_defined: "unat i < length ns \<Longrightarrow> \<exists>b. dup_loop ns c i d ks = Some b"
proof (induction ks arbitrary: d)
  case (Cons k ks)
  have "idx ns (int (unat i)) = Some (ns ! unat i)"
    using idx_defined [of "int (unat i)" ns] Cons.prems by (simp only: of_nat_less_iff of_nat_0_le_iff nat_int simp_thms)
  with Cons show ?case unfolding dup_loop.simps by simp
qed simp

lemma NodeConnect_defined:
  assumes r: "ready s" and d: "CopyBytesToNodeStatus node_info0 data = Some nd"
    and id: "unat (node_id nd) < 4 \<or> CONNECTED_NODES s AND 3 = 0"
  shows "\<exists>s'. NodeConnect data s = Some s'"
proof -
  note wf = ready_sel [OF r]
  have l: "30 \<le> length data" using d CopyBytesToNodeStatus_None [of node_info0 data] by auto
  have un: "\<exists>s'. do { u \<leftarrow> renew_dst ip q TMP_ID s; SendUnaccept TMP_ID u } = Some s'" for ip q
  proof -
    obtain a where a: "renew_dst ip q TMP_ID s = Some (s\<lparr>ADDR := a\<rparr>)" "node_wf (s\<lparr>ADDR := a\<rparr>)"
      using renew_dst_total [OF wf(1), of TMP_ID ip q] by auto
    from send_my_id_posts [OF a(2), of TMP_ID UNACCEPT_PROTO] show ?thesis
      unfolding a(1) Option.bind.bind_lunit SendUnaccept_def by auto
  qed
  show ?thesis
  proof (cases "CURRENT_CACHE s < DEFAULT_CACHE \<or> CheckChildNum s = -1")
    case True
    then show ?thesis using un by (auto simp: NodeConnect_def d Let_def)
  next
    case False
    then obtain i where i: "i < 2" "CheckChildNum s = int i" "\<not> connected (CONNECTED_NODES s) i"
      using CheckChildNum_spec [of s] by auto
    have "\<exists>dup. IsDuplicatedChild (node_id nd) s = Some dup"
    proof (cases "unat (node_id nd) < 4")
      case True
      then show ?thesis using dup_loop_defined [of "node_id nd" "NODES_STATUS s"] wf(3)
        by (simp add: IsDuplicatedChild_def)
    next
      case False
      with id have z: "CONNECTED_NODES s AND 3 = 0" by simp
      have "\<not> bit (CONNECTED_NODES s) j" if "j < 2" for j
      proof
        assume "bit (CONNECTED_NODES s) j"
        then have "bit (CONNECTED_NODES s AND 3) j" using that by (auto simp: bit_and_iff less_2_cases_iff)
        with z show False by simp
      qed
      then show ?thesis unfolding IsDuplicatedChild_def slots_01 by (simp add: connected_bit) blast
    qed
    then obtain dup where dup: "IsDuplicatedChild (node_id nd) s = Some dup" ..
    show ?thesis
    proof (cases dup)
      case True
      with False d dup show ?thesis by (simp add: NodeConnect_def Let_def)
    next
      case nd: False
      have six: "slot_ix (int i)" using i(1) by (simp add: slot_ix_def)
      have ni: "idx (NODES_STATUS s) (int i) = Some (NODES_STATUS s ! i)"
        using idx_defined [of "int i" "NODES_STATUS s"] i(1) wf(3) by simp
      obtain ch where ch: "CopyBytesToNodeStatus (NODES_STATUS s ! i) data = Some ch" using status_defined [OF l] by blast
      obtain b where b: "idx (CURRENT_CHILD_BLOCK s) (int i) = Some (Some b)" using ready_block [OF r i(1)] .
      have ub: "upd (CURRENT_CHILD_BLOCK s) (int i) x = Some ((CURRENT_CHILD_BLOCK s)[i := x])" for x
        using upd_defined [of "int i" "CURRENT_CHILD_BLOCK s" x] i(1) wf(4) by simp
      have un: "upd (NODES_STATUS s) (int i) x = Some ((NODES_STATUS s)[i := x])" for x
        using upd_defined [of "int i" "NODES_STATUS s" x] i(1) wf(3) by simp
      obtain a where a: "renew_dst (htonl (ipaddr nd)) (port nd) (int i) s = Some (s\<lparr>ADDR := a\<rparr>)" "node_wf (s\<lparr>ADDR := a\<rparr>)"
        using renew_dst_total [OF wf(1) six, of "htonl (ipaddr nd)" "port nd"] by auto
      have fin: "\<exists>s'. do { s \<leftarrow> SendAccept (int i) (s\<lparr>ADDR := a, CURRENT_CHILD_BLOCK := (CURRENT_CHILD_BLOCK s)[i := x],
            NODES_STATUS := (NODES_STATUS s)[i := y]\<rparr>); s \<leftarrow> stamp_slot (int i) s;
          Some (s\<lparr>CONNECTED_NODES := CONNECTED_NODES s + push_bit i 1,
            CURRENT_CHILD_NUM := CURRENT_CHILD_NUM s + 1\<rparr>) } = Some s'" for x y
      proof -
        have "node_wf (s\<lparr>ADDR := a, CURRENT_CHILD_BLOCK := (CURRENT_CHILD_BLOCK s)[i := x],
            NODES_STATUS := (NODES_STATUS s)[i := y]\<rparr>)"
          using node_wf_fields [OF a(2), of "(CURRENT_CHILD_BLOCK s)[i := x]" "(NODES_STATUS s)[i := y]"] wf(3,4) by simp
        from SendAccept_posts [OF this six] obtain u d' where u:
          "SendAccept (int i) (s\<lparr>ADDR := a, CURRENT_CHILD_BLOCK := (CURRENT_CHILD_BLOCK s)[i := x],
            NODES_STATUS := (NODES_STATUS s)[i := y]\<rparr>) = Some u"
          "posts (s\<lparr>ADDR := a, CURRENT_CHILD_BLOCK := (CURRENT_CHILD_BLOCK s)[i := x],
            NODES_STATUS := (NODES_STATUS s)[i := y]\<rparr>) (int i) d' u" by blast
        have "length (NODES_STATUS u) = 4" using posts_sel(2) [OF u(2)] wf(3) by simp
        from stamp_slot_defined [OF this six] u(1) show ?thesis by auto
      qed
      show ?thesis using False i(2) fin
        by (simp add: NodeConnect_def d dup nd ni ch a(1) b ub un me_idx [OF wf(1)] Let_def)
    qed
  qed
qed

section \<open>Messages are survived\<close>

text \<open>
  No message of these kinds takes a ready node out of its tables and buffers: whatever bytes the
  packet holds, and whatever was left behind it in the receive buffer, the handler ends with the node
  in a next state.
\<close>

lemma messages_defined:
  assumes "ready s" and "length data = 1471" "0 \<le> len" "len \<le> 1471"
    and "p \<in> proto_code ` {SETUP_PROTO, ID_PROTO, INITIAL_STATUS_PROTO, ADVERTISE_PROTO, DEPART_PROTO,
      ACCEPT_PROTO, RES_LIST_PROTO, KEEPALIVE_PROTO, KEEPALIVERES_PROTO}"
  shows "\<exists>s'. dispatch_peer p data len ip src s = Some (Ret s')"
proof -
  note wf = ready_sel [OF assms(1)]
  have "int (unat (of_int len :: u16)) = len" using assms(3,4) by (simp add: uint_word_of_int)
  then have n: "unat (of_int len :: u16) \<le> length data" using assms(2,4) by linarith
  have b: "None \<notin> set (CURRENT_CHILD_BLOCK s)" using assms(1) by (simp add: ready_def)
  have "\<exists>s'. NodeSetup data (of_int len) ip src s = Some s'" "\<exists>s'. NodeID data s = Some s'"
    "\<exists>s'. NodeInitialStatus data (of_int len) s = Some s'" "\<exists>s'. NodeAdvertise data (of_int len) s = Some s'"
    "\<exists>s'. NodeDepart data s = Some s'" "\<exists>s'. NodeAccept data s = Some s'"
    "\<exists>s'. NodeResList data (of_int len) s = Some s'" "\<exists>s'. NodeKeepAlive data s = Some s'"
    "\<exists>s'. NodeKeepAliveRes data s = Some s'"
    using NodeInitialStatus_defined [OF wf(3) n] NodeAdvertise_defined [OF wf(1) _ n] NodeResList_defined [OF n]
    by (simp_all add: NodeSetup_defined NodeID_defined NodeDepart_defined NodeAccept_defined
        NodeKeepAlive_defined NodeKeepAliveRes_defined assms(1,2) wf b)
  with assms(5) show ?thesis by (auto simp: dispatch_peer_def ret_def)
qed

definition node1 :: node where
  "node1 = node0\<lparr>CURRENT_CHILD_BLOCK := [Some \<lparr>info = block_info0, prev = block_info0\<rparr>,
     Some \<lparr>info = block_info0, prev = block_info0\<rparr>], WEBM_HEADER_data := Some [], WEBM_HEADER_total_bytes := 0,
     CURRENT_CLUSTER := Some \<lparr>cl = \<lparr>cl_info = Chank0, cl_pos = 0, cl_seq = 0, cl_option = 0\<rparr>,
       cl_prev = \<lparr>cl_info = Chank0, cl_pos = 0, cl_seq = 0, cl_option = 0\<rparr>\<rparr>\<rparr>"

lemma ready_node1: "ready node1"
  by (simp add: ready_def node_wf_def slots_ok_def conn_of_def conn_ok_def node1_def node0_sel connected_bit
      addr_ok_def addressing0_def)

text \<open>
  C17: A connection request is survived by a node that refuses it or has no child yet; a node that has
  a child already, is ready for another and is asked by a node whose id is 4 or more reads
  \<^verbatim>\<open>NODES_STATUS[id]\<close> outside its four entries while it looks for a duplicate.
\<close>

theorem connect_overruns_iff:
  assumes "ready s" and "CopyBytesToNodeStatus node_info0 data = Some nd"
  shows "NodeConnect data s = None \<longleftrightarrow> DEFAULT_CACHE \<le> CURRENT_CACHE s \<and> CURRENT_CHILD_NUM s = 1 \<and>
    4 \<le> unat (node_id nd)"
proof -
  note wf = ready_sel [OF assms(1)]
  have ok: "CURRENT_CHILD_NUM s = (if connected (CONNECTED_NODES s) 0 then 1 else 0) +
      (if connected (CONNECTED_NODES s) 1 then 1 else 0)"
    using wf(2) by (simp add: slots_ok_def conn_ok_def conn_of_def)
  have mask: "CONNECTED_NODES s AND 3 = 0 \<longleftrightarrow> CURRENT_CHILD_NUM s = 0"
  proof -
    have "CONNECTED_NODES s < 8" using wf(2) by (simp add: slots_ok_def conn_ok_def conn_of_def)
    from u8_lt_8 [OF this] ok show ?thesis by (elim insertE emptyE) (simp_all add: connected_bit)
  qed
  have cc: "CheckChildNum s = -1 \<longleftrightarrow> CURRENT_CHILD_NUM s = 2"
    unfolding CheckChildNum_def slots_01 using ok by (auto simp: MAX_CHILD_NUM_def)
  show ?thesis
  proof (cases "DEFAULT_CACHE \<le> CURRENT_CACHE s \<and> CURRENT_CHILD_NUM s = 1 \<and> 4 \<le> unat (node_id nd)")
    case True
    then have "idx (NODES_STATUS s) (int (unat (node_id nd))) = None" using wf(3)
      unfolding idx_def by (simp only: of_nat_less_iff of_nat_0_le_iff simp_thms) simp
    moreover have "connected (CONNECTED_NODES s) 0 \<or> connected (CONNECTED_NODES s) 1"
      using True ok by (auto split: if_splits)
    ultimately have "IsDuplicatedChild (node_id nd) s = None"
      unfolding IsDuplicatedChild_def slots_01 by (auto simp del: of_nat_unat)
    with True cc show ?thesis by (simp add: NodeConnect_def assms(2) Let_def)
  next
    case False
    show ?thesis
    proof (cases "unat (node_id nd) < 4 \<or> CONNECTED_NODES s AND 3 = 0")
      case True
      from NodeConnect_defined [OF assms True] False show ?thesis by auto
    next
      case f: False
      with mask ok False have r: "CURRENT_CACHE s < DEFAULT_CACHE \<or> CheckChildNum s = -1" unfolding cc
        by (auto split: if_splits)
      obtain a where a: "renew_dst (htonl (ipaddr nd)) (port nd) TMP_ID s = Some (s\<lparr>ADDR := a\<rparr>)" "node_wf (s\<lparr>ADDR := a\<rparr>)"
        using renew_dst_total [OF wf(1), of TMP_ID "htonl (ipaddr nd)" "port nd"] by auto
      from send_my_id_posts [OF a(2), of TMP_ID UNACCEPT_PROTO] r a(1) False show ?thesis
        by (auto simp: NodeConnect_def assms(2) Let_def SendUnaccept_def)
    qed
  qed
qed

theorem connect_overruns_iff_witness:
  "NodeConnect (node_wire (node_info0\<lparr>node_id := 5\<rparr>))
     (node1\<lparr>CURRENT_CHILD_NUM := 1, CONNECTED_NODES := 1\<rparr>) = None"
proof -
  have r: "ready (node1\<lparr>CURRENT_CHILD_NUM := 1, CONNECTED_NODES := 1\<rparr>)"
    using ready_node1 by (simp add: ready_def node_wf_def slots_ok_def conn_of_def conn_ok_def connected_bit)
  have d: "CopyBytesToNodeStatus node_info0 (node_wire (node_info0\<lparr>node_id := 5\<rparr>)) = Some (node_info0\<lparr>node_id := 5\<rparr>)"
    using CopyBytesToNodeStatus_wire [of node_info0 "node_info0\<lparr>node_id := 5\<rparr>" "[]"] by (simp add: copy_node_id)
  show ?thesis using connect_overruns_iff [OF r d] by (simp add: node1_def node0_sel DEFAULT_CACHE_def)
qed

end
