(* ===== verification/Receiving.thy ===== *)
theory Receiving
  imports Defined
begin

text \<open>
  A frame arrives: what one node's \<^verbatim>\<open>SendPacket\<close> put on the wire, followed by whatever was left in the
  receiver's buffer, is taken apart by \<^verbatim>\<open>Receive\<close> of the node it is for.
\<close>

section \<open>A frame arrives\<close>

lemma frame_head:
  assumes "frame_ok a dmac dip dport (p # d) f" and "length dmac = 6" "length (SRC_MAC a) = 6"
    and "length d \<le> 1471"
  shows "rd (f @ stale) 42 = Some p" "drop 43 (f @ stale) = d @ stale"
proof -
  have "length (p # d) \<le> 1472" using assms(4) by simp
  note F = frame_ok_fields [OF assms(1-3) this]
  have "f ! 42 = drop 42 f ! 0" using F(1) by simp
  then show "rd (f @ stale) 42 = Some p" using F(1,7) by (simp add: rd_def nth_append)
  have "drop 43 f = drop 1 (drop 42 f)" by simp
  then show "drop 43 (f @ stale) = d @ stale" using F(1,7) by simp
qed

lemma receive_sent_frame:
  assumes "frame_ok a dmac dip dport (p # d) f" and "length dmac = 6" "length (SRC_MAC a) = 6"
    and "length d \<le> 1471" and "SRC_IP (ADDR s) = dip" and "my_port = dport"
  shows "receive_frame dispatch my_port (f @ stale) s =
    dispatch p (d @ stale) (int (length d)) (SRC_IP a) (htons (SRC_PORT a)) s"
proof -
  have "length (p # d) \<le> 1472" using assms(4) by simp
  note F = frame_ok_fields [OF assms(1-3) this]
  have rd: "rdn (f @ stale) k m = Some (take m (drop k f))" if "k + m \<le> 43" for k m
    using that F(1) by (simp add: rdn_def)
  have t: "load16 (take 2 xs) = load16 xs" "load32 (take 4 xs) = load32 xs" for xs
    by (simp_all add: load16_def load32_def)
  have "htons (load16 [0x08, 0x00]) = 0x0800"
    using ntohs_load16 [of "[0x08, 0x00]"] by (simp add: be_val_Cons)
  then have l: "load16 [0x08, 0x00] = htons 0x0800" by (metis htons_htons)
  have "htons 0x0800 \<noteq> htons (0x0806 :: u16)" 
  proof
    assume "htons 0x0800 = htons (0x0806 :: u16)"
    then have "htons (htons 0x0800) = htons (htons (0x0806 :: u16))" by (rule arg_cong)
    then show False by simp
  qed
  with l have ty: "load16 [0x08, 0x00] = ntohs ETHERTYPE_IP" "load16 [0x08, 0x00] \<noteq> ntohs ETH_P_ARP"
    by (simp_all add: c_eval)
  note p = frame_head(1) [OF assms(1-4)] and d = frame_head(2) [OF assms(1-4)]
  have len: "int (unat (ntohs (load16 (drop 38 f)))) - 8 - 1 = int (length d)" using F(6) by simp
  have src: "load16 (drop 34 f) = htons (SRC_PORT a)" using F(8) by (metis htons_htons)
  show ?thesis
    using ty F(2) by (simp add: receive_frame_def rd t F(3-5) p d [simplified] len [simplified] src assms(5,6))
qed

text \<open>
  C21: A frame sent to this node's address and port is taken apart exactly: the handler of its
  protocol byte gets the data that were sent (and the stale rest of the buffer behind them), their
  length, and the sender's address and port.
\<close>

theorem receive_sent:
  assumes "frame_ok a dmac dip dport (p # d) f" and "length dmac = 6" "length (SRC_MAC a) = 6"
    and "length d \<le> 1471" and "SRC_IP (ADDR s) = dip" and "my_port = dport"
  shows "receive_frame dispatch my_port (f @ stale) s =
    dispatch p (d @ stale) (int (length d)) (SRC_IP a) (htons (SRC_PORT a)) s"
  using receive_sent_frame [OF assms] .

theorem receive_sent_witness:
  "\<exists>f. SendPacket_frame [11, 0, 7] 3 2 addressing0 = Some f \<and>
     receive_frame dispatch_peer 12345 (f @ [1]) (node0\<lparr>ADDR := addressing0\<lparr>SRC_IP := 0x0200a8c0\<rparr>\<rparr>) =
     dispatch_peer 11 [0, 7, 1] 2 0x0100a8c0 (htons 5000) (node0\<lparr>ADDR := addressing0\<lparr>SRC_IP := 0x0200a8c0\<rparr>\<rparr>)"
proof -
  obtain f where f: "SendPacket_frame [11, 0, 7] 3 2 addressing0 = Some f"
    "frame_ok addressing0 (replicate 6 2) 0x0200a8c0 12345 (11 # [0, 7]) f"
    using SendPacket_frame_exists [of addressing0 2 "replicate 6 2" "0x0200a8c0" 12345 3 "[11, 0, 7]"]
    by (auto simp: addressing0_def idx_def)
  show ?thesis
    using f(1) receive_sent [OF f(2), of "node0\<lparr>ADDR := addressing0\<lparr>SRC_IP := 0x0200a8c0\<rparr>\<rparr>" 12345 dispatch_peer "[1]"]
    by (simp add: addressing0_def)
qed

text \<open>The frame just sent, as the node it is for receives it.\<close>

lemma sends_receive:
  assumes "sends s s' k (p # d)" and "length d \<le> 1471"
    and "idx (DST_IP (ADDR s')) k = Some (SRC_IP (ADDR r))" "idx (DST_PORT (ADDR s')) k = Some my_port"
  shows "receive_frame dispatch my_port (last (WIRE s') @ stale) r =
    dispatch p (d @ stale) (int (length d)) (SRC_IP (ADDR s')) (htons (SRC_PORT (ADDR s'))) r"
  using assms receive_sent_frame by (fastforce simp: sends_def)

end
