(* ===== verification/Connections.thy ===== *)
theory Connections
  imports Receiving Timer
begin

text \<open>
  The slot table over the life of a node: what every message, the stream and the timer do to the
  mask and to the counter of children, and the invariant of the runs in which they agree.
\<close>

section \<open>Recording the stream leaves the table alone\<close>

definition keeps :: "'a store_scheme \<Rightarrow> 'a store_scheme \<Rightarrow> bool" where
  "keeps s t \<longleftrightarrow> store.more t = store.more s \<and> CURRENT_CHILD_BLOCK t = CURRENT_CHILD_BLOCK s"

lemma keeps_refl [simp]: "keeps s s"
  by (simp add: keeps_def)

lemma keeps_trans: "keeps r s \<Longrightarrow> keeps s t \<Longrightarrow> keeps r t"
  by (simp add: keeps_def)

lemma keeps_same_slots: "keeps s t \<Longrightarrow> same_slots s t"
  by (cases s; cases t) (simp add: keeps_def same_slots_def conn_of_def)

lemmas run_defs = bind_eq_Some_conv Let_def
lemmas file_defs = fwrite_def fread_def fsetpos_def UpdateOffsetWebM_def SeekABSWebM_def SeekRLTWebM_def
  OpenWebM_def UpdateWebM_def

text \<open>The same for a run, with the rules that follow the program text.\<close>

definition run_keeps :: "'a store_scheme \<Rightarrow> ('a store_scheme, 'a store_scheme) run option \<Rightarrow> bool" where
  "run_keeps s m \<longleftrightarrow> (\<forall>t. m = Some (Ret t) \<longrightarrow> keeps s t)"

lemma run_keepsD: "run_keeps s m \<Longrightarrow> m = Some (Ret t) \<Longrightarrow> keeps s t"
  by (simp add: run_keeps_def)

lemma run_keeps_Ret [intro]: "keeps s t \<Longrightarrow> run_keeps s (Some (Ret t))"
  by (simp add: run_keeps_def)

lemma run_keeps_Exit [intro]: "run_keeps s (Some (Exit t))"
  by (simp add: run_keeps_def)

lemma run_keeps_None [intro]: "run_keeps s None"
  by (simp add: run_keeps_def)

lemma run_keeps_bind: "(\<And>x. m = Some x \<Longrightarrow> run_keeps s (f x)) \<Longrightarrow> run_keeps s (Option.bind m f)"
  by (cases m) (simp_all add: run_keeps_def)

lemma run_keeps_cont:
  "run_keeps s m \<Longrightarrow> (\<And>u. keeps s u \<Longrightarrow> run_keeps s (f u)) \<Longrightarrow>
     run_keeps s (Option.bind m (\<lambda>r. cont r f))"
  by (auto simp: run_keeps_def run_defs)

lemma run_keeps_if: "(b \<Longrightarrow> run_keeps s m) \<Longrightarrow> (\<not> b \<Longrightarrow> run_keeps s m') \<Longrightarrow> run_keeps s (if b then m else m')"
  by simp

lemma run_keeps_from: "run_keeps u m \<Longrightarrow> keeps s u \<Longrightarrow> run_keeps s m"
  by (auto simp: run_keeps_def dest: keeps_trans)

lemma SeekABSWebM_keeps: "keeps s (SeekABSWebM p f s)"
  by (cases f) (simp_all add: file_defs keeps_def Let_def)

lemma UpdateOffsetWebM_keeps: "keeps s (snd (UpdateOffsetWebM f s))"
  by (cases f) (simp_all add: file_defs keeps_def Let_def)

lemma UpdateWebM_keeps [simp]:
  "store.more (UpdateWebM f s) = store.more s"
  "CURRENT_CHILD_BLOCK (UpdateWebM f s) = CURRENT_CHILD_BLOCK s"
  by (cases f; simp add: UpdateWebM_def file_defs Let_def)+

lemma ExportWebM_keeps: "run_keeps s (ExportWebM b n s)"
  by (auto simp: ExportWebM_def run_keeps_def run_defs file_defs keeps_def split: if_splits)

lemma WriteWebMHeader_keeps: "run_keeps s (WriteWebMHeader b n s)"
  unfolding WriteWebMHeader_def
  by (intro run_keeps_cont run_keeps_bind run_keeps_Ret ExportWebM_keeps) (simp add: keeps_def)

lemma RenewClusterForWrite_keeps: "run_keeps s (RenewClusterForWrite s)"
  unfolding RenewClusterForWrite_def
  by (intro run_keeps_bind run_keeps_from [OF ExportWebM_keeps]) (simp add: keeps_def)

lemma UpdateClusterDataBytesToWebM_keeps: "run_keeps s (UpdateClusterDataBytesToWebM c s)"
  unfolding UpdateClusterDataBytesToWebM_def Let_def case_prod_beta
  by (intro run_keeps_cont run_keeps_Ret run_keeps_from [OF ExportWebM_keeps])
    (simp_all add: keeps_trans [OF UpdateOffsetWebM_keeps SeekABSWebM_keeps],
     auto intro: keeps_trans SeekABSWebM_keeps)

lemma UpdateClusterToWebM_keeps: "run_keeps s (UpdateClusterToWebM is k s)"
  unfolding UpdateClusterToWebM_def Let_def
  by (intro run_keeps_if run_keeps_None run_keeps_bind run_keeps_from [OF UpdateClusterDataBytesToWebM_keeps])
    (simp add: keeps_def)

lemma InsertBlockToCluster_keeps: "run_keeps s (InsertBlockToCluster d n s)"
  unfolding InsertBlockToCluster_def
  apply (intro run_keeps_bind [where m = "CheckClusterSeq s"] run_keeps_cont run_keeps_if run_keeps_Ret keeps_refl
      run_keeps_from [OF ExportWebM_keeps] UpdateClusterToWebM_keeps)
   apply (rule run_keeps_bind)
   apply (intro run_keeps_cont run_keeps_Ret run_keeps_from [OF RenewClusterForWrite_keeps])
    apply (simp_all add: keeps_def)
  done

lemma assemble_flush_keeps: "run_keeps s (assemble_flush s)"
  unfolding assemble_flush_def
  by (intro run_keeps_if run_keeps_Ret run_keeps_cont UpdateClusterToWebM_keeps keeps_refl)
    (auto simp: keeps_def RenewBlockInfos_def)

lemma ChangeTimecode_keeps: "ChangeTimecode d s = Some (Ret (d', t)) \<Longrightarrow> keeps s t"
  unfolding ChangeTimecode_eq Let_def bind_eq_Some_conv
  by (-, elim exE conjE, split if_split_asm)
    (auto simp only: bind_eq_Some_conv option.inject run.inject prod.inject run.distinct, simp_all add: keeps_def)

lemma assemble_write_keeps: "run_keeps s (assemble_write d n i s)"
  unfolding assemble_write_def Let_def
  by (intro run_keeps_cont run_keeps_if run_keeps_bind run_keeps_None run_keeps_Ret
      run_keeps_from [OF InsertBlockToCluster_keeps])
    (simp_all add: keeps_def)

lemma timecode_then_write_keeps:
  assumes "keeps s u"
  shows "run_keeps s (do {
    r \<leftarrow> (if b then ChangeTimecode d u else Some (Ret (d, u)));
    cont r (\<lambda>(d', v). assemble_write (f d') n i v) })"
  using assms unfolding run_keeps_def
  by (auto simp: bind_eq_Some_conv split: if_splits
      intro: keeps_trans dest: ChangeTimecode_keeps run_keepsD [OF assemble_write_keeps])

lemma assemble_block_keeps: "run_keeps s (assemble_block d n s)"
  unfolding assemble_block_def Let_def
  by (intro run_keeps_bind [where m = "CopyBytesToBlockInfo _ d"] run_keeps_bind [where m = "IsOldBlockSeq _ s"]
      run_keeps_bind [where m = "CURRENT_BLOCK _"] timecode_then_write_keeps
      run_keeps_if run_keeps_Ret keeps_refl run_keeps_cont run_keeps_from [OF assemble_flush_keeps])
    (simp_all add: keeps_def)

lemma AssembleBlock_keeps: "run_keeps s (AssembleBlock d n s)"
  unfolding AssembleBlock_def assemble_start_def assemble_end_def Let_def
  by (intro run_keeps_bind [where m = "rdn d 0 _"] run_keeps_if run_keeps_cont run_keeps_Ret run_keeps_Exit
      WriteWebMHeader_keeps run_keeps_from [OF RenewClusterForWrite_keeps] UpdateClusterToWebM_keeps
      run_keeps_from [OF ExportWebM_keeps] assemble_block_keeps)
    (simp_all add: keeps_def)

section \<open>Every handler\<close>

text \<open>Counting the children of a mask, and clearing the bit of one that is set.\<close>

definition children :: "u8 \<Rightarrow> int" where
  "children c = (if connected c 0 then 1 else 0) + (if connected c 1 then 1 else 0)"

lemma slots_ok_children: "slots_ok s \<longleftrightarrow> CONNECTED_NODES s < 8 \<and> CURRENT_CHILD_NUM s = children (CONNECTED_NODES s) \<and>
    length (NODES_STATUS s) = 4 \<and> length (CURRENT_CHILD_BLOCK s) = 2"
  by (simp add: slots_ok_def conn_ok_def conn_of_def children_def)

lemma parent_bit:
  assumes "(c :: u8) < 8"
  shows "\<not> connected c 2 \<Longrightarrow> c + 4 < 8 \<and> children (c + 4) = children c"
    and "connected c 2 \<Longrightarrow> c - 4 < 8 \<and> children (c - 4) = children c"
  using u8_lt_8 [OF assms] by (auto simp: connected_bit children_def)

lemma claim_ok:
  assumes "slots_ok s" and "conn_of s' = conn_claim i (conn_of s)" "i < 2" "\<not> connected (CONNECTED_NODES s) i"
    and "length (NODES_STATUS s') = length (NODES_STATUS s)"
    and "length (CURRENT_CHILD_BLOCK s') = length (CURRENT_CHILD_BLOCK s)"
  shows "slots_ok s'"
  using assms conn.ok_claim [of "conn_of s" i] by (simp add: slots_ok_def conn_of_def)

text \<open>Taking a child in claims exactly the slot that was chosen.\<close>

definition claims :: "int \<Rightarrow> node \<Rightarrow> node \<Rightarrow> bool" where
  "claims i s s' \<longleftrightarrow> conn_of s' = conn_claim (nat i) (conn_of s) \<and>
     length (NODES_STATUS s') = length (NODES_STATUS s) \<and>
     length (CURRENT_CHILD_BLOCK s') = length (CURRENT_CHILD_BLOCK s)"

lemma setup_child_claims: "setup_child d ip p i s = Some s' \<Longrightarrow> claims i s s'"
  by (auto simp: setup_child_def bind_eq_Some_conv Let_def same_slots_def conn_of_def upd_Some claims_def conn_claim_def
      split: if_splits dest!: renew_dst_slots send_slots stamp_slot_slots)

lemma CheckChildNum_slot:
  assumes "slots_ok s" and "CheckChildNum s \<noteq> -1"
  shows "CheckChildNum s \<in> {0, 1} \<and> \<not> connected (CONNECTED_NODES s) (nat (CheckChildNum s))"
  using assms(2) unfolding CheckChildNum_def slots_01 by (auto split: if_splits)

lemma claims_ok:
  assumes "slots_ok s" and "claims (CheckChildNum s) s s'" and "CheckChildNum s \<noteq> -1"
  shows "slots_ok s'"
proof -
  have "nat (CheckChildNum s) < 2" "\<not> connected (CONNECTED_NODES s) (nat (CheckChildNum s))"
    using CheckChildNum_slot [OF assms(1,3)] by auto
  with assms(1,2) show ?thesis by (auto simp: claims_def intro: claim_ok)
qed

lemma GenerateRndID_same: "GenerateRndID a b s = (i, s') \<Longrightarrow>
    same_slots s s' \<and> CheckChildNum s' = CheckChildNum s \<and> CURRENT_CACHE s' = CURRENT_CACHE s"
  by (auto simp: GenerateRndID_def slot_defs CheckChildNum_def split: if_splits)

lemma NodeSetup_slots:
  assumes "NodeSetup d n ip p s = Some s'"
  shows "same_slots s s' \<or> CheckChildNum s \<noteq> -1 \<and> claims (CheckChildNum s) s s'"
proof -
  obtain r s1 where r: "GenerateRndID 0 (CURRENT_CHILD_NUM s + 1) s = (r, s1)" by force
  note g = GenerateRndID_same [OF r]
  have adv: "same_slots s1 s'" if "do { u \<leftarrow> renew_dst ip q TMP_ID s1; SendAdvertise TMP_ID k u } = Some s'" for q k
    using that by (auto simp: bind_eq_Some_conv dest!: renew_dst_slots send_slots intro: same_slots_trans)
  have rnd: "same_slots s1 s'" if "do { u \<leftarrow> renew_dst ip q TMP_ID s1;
      let (k, v) = GenerateRndID 1 (CURRENT_CHILD_NUM u) u; SendAdvertise TMP_ID k v } = Some s'" for q
    using that by (auto simp: bind_eq_Some_conv Let_def case_prod_beta dest!: renew_dst_slots send_slots
        intro: same_slots_trans [OF _ same_slots_trans [OF GenerateRndID_slots [OF prod.collapse [symmetric]]]])
  have "same_slots s1 s' \<or> CheckChildNum s1 \<noteq> -1 \<and> claims (CheckChildNum s1) s1 s'"
    using assms unfolding NodeSetup_def Let_def r prod.case
    by (auto split: if_split_asm dest: adv rnd [unfolded Let_def] setup_child_claims)
  with g show ?thesis by (auto simp: claims_def same_slots_def)
qed

lemma NodeConnect_slots:
  assumes "NodeConnect d s = Some s'"
  shows "same_slots s s' \<or> CheckChildNum s \<noteq> -1 \<and> claims (CheckChildNum s) s s'"
proof -
  have un: "same_slots s s'" if "do { u \<leftarrow> renew_dst ip q TMP_ID s; SendUnaccept TMP_ID u } = Some s'" for ip q
    using that by (auto simp: bind_eq_Some_conv SendUnaccept_def dest!: renew_dst_slots send_slots
        intro: same_slots_trans)
  obtain nd where nd: "CopyBytesToNodeStatus node_info0 d = Some nd"
    using assms by (auto simp: NodeConnect_def bind_eq_Some_conv)
  show ?thesis
  proof (cases "DEFAULT_CACHE \<le> CURRENT_CACHE s \<and> CheckChildNum s \<noteq> -1")
    case False
    with assms show ?thesis unfolding NodeConnect_def Let_def nd Option.bind.bind_lunit
      by (auto split: if_split_asm dest: un)
  next
    case True
    have "same_slots s s' \<or> claims (CheckChildNum s) s s'"
      using assms True unfolding NodeConnect_def nd Option.bind.bind_lunit
      by (auto simp: Let_def bind_eq_Some_conv same_slots_def conn_of_def upd_Some claims_def conn_claim_def
          split: if_split_asm dest!: renew_dst_slots send_slots stamp_slot_slots)
    with True show ?thesis by blast
  qed
qed

lemma InitCluster_keeps [simp]: "store.more (InitCluster s) = store.more s"
    "CURRENT_CHILD_BLOCK (InitCluster s) = CURRENT_CHILD_BLOCK s"
  by (simp_all add: InitCluster_def Let_def)

lemma node_InitCluster [simp]: "CONNECTED_NODES (InitBlock_store (InitCluster s)) = CONNECTED_NODES s"
    "CURRENT_CHILD_NUM (InitBlock_store (InitCluster s)) = CURRENT_CHILD_NUM s"
    "NODES_STATUS (InitBlock_store (InitCluster s)) = NODES_STATUS s"
    "CURRENT_CHILD_BLOCK (InitBlock_store (InitCluster s)) = CURRENT_CHILD_BLOCK s"
  by (simp_all add: InitCluster_def InitBlock_store_def Let_def)

lemma NodeInitialStatus_slots:
  assumes "NodeInitialStatus d n s = Some s'"
  shows "CONNECTED_NODES s' = CONNECTED_NODES s + 4 \<and> CURRENT_CHILD_NUM s' = CURRENT_CHILD_NUM s \<and>
    length (NODES_STATUS s') = length (NODES_STATUS s) \<and>
    length (CURRENT_CHILD_BLOCK s') = length (CURRENT_CHILD_BLOCK s)"
  using assms
  by (auto simp: NodeInitialStatus_def bind_eq_Some_conv Let_def upd_Some stamp_def same_slots_def conn_of_def
      PARENT_ID_def dest!: stamp_slot_slots)

lemma NodeAccept_slots:
  assumes "NodeAccept d s = Some s'"
  shows "CONNECTED_NODES s' = (if connected (CONNECTED_NODES s) 2 then CONNECTED_NODES s else CONNECTED_NODES s + 4) \<and>
    CURRENT_CHILD_NUM s' = CURRENT_CHILD_NUM s \<and> length (NODES_STATUS s') = length (NODES_STATUS s) \<and>
    length (CURRENT_CHILD_BLOCK s') = length (CURRENT_CHILD_BLOCK s)"
  using assms unfolding NodeAccept_def Let_def
  apply -
  apply (elim bind_SomeE)
  apply (drule stamp_slot_slots)
  apply (simp only: upd_Some option.inject)
  apply (elim conjE)
  apply (drule sym [of _ s'], hypsubst)
  apply (simp add: same_slots_def conn_of_def PARENT_ID_def)
  done

lemma NodeDetach_slots:
  assumes "NodeDetach d s = Some s'"
  shows "CONNECTED_NODES s' = CONNECTED_NODES s - 4 \<and> CURRENT_CHILD_NUM s' = CURRENT_CHILD_NUM s \<and>
    length (NODES_STATUS s') = length (NODES_STATUS s) \<and>
    length (CURRENT_CHILD_BLOCK s') = length (CURRENT_CHILD_BLOCK s)"
  using assms unfolding NodeDetach_def Let_def stamp_def prod.case case_prod_beta
  apply -
  apply (elim bind_SomeE)
  apply (drule renew_dst_slots)
  apply (drule send_slots(4))
  apply (drule upd_Some [THEN iffD1])+
  apply (elim conjE)
  apply (simp add: same_slots_def conn_of_def PARENT_ID_def)
  done

section \<open>A child that leaves\<close>

definition leaving :: "node \<Rightarrow> u16 \<Rightarrow> nat \<Rightarrow> bool" where
  "leaving s d i \<longleftrightarrow> node_id (NODES_STATUS s ! i) = d"

definition drop_slot :: "u16 \<Rightarrow> nat \<Rightarrow> node \<Rightarrow> node" where
  "drop_slot d i s = (if leaving s d i then s\<lparr>CURRENT_CHILD_NUM := CURRENT_CHILD_NUM s - 1,
     CONNECTED_NODES := CONNECTED_NODES s - push_bit i 1\<rparr> else s)"

lemma drop_slot_sel:
  "NODES_STATUS (drop_slot d i s) = NODES_STATUS s"
  "CURRENT_CHILD_BLOCK (drop_slot d i s) = CURRENT_CHILD_BLOCK s"
  "CONNECTED_NODES (drop_slot d i s) = CONNECTED_NODES s - (if leaving s d i then push_bit i 1 else 0)"
  "CURRENT_CHILD_NUM (drop_slot d i s) = CURRENT_CHILD_NUM s - (if leaving s d i then 1 else 0)"
  "leaving (drop_slot d i s) d j = leaving s d j"
  by (simp_all add: drop_slot_def leaving_def)

lemma depart_loop_step:
  assumes "depart_loop d (i # ks) cs s = Some r"
  shows "\<exists>cs1. depart_loop d ks cs1 (drop_slot d i s) = Some r"
proof -
  obtain n where n: "idx (NODES_STATUS s) (int i) = Some n" using assms by (auto elim: bind_SomeE)
  then have l: "node_id n = d \<longleftrightarrow> leaving s d i" by (auto simp: idx_Some leaving_def)
  show ?thesis
  proof (cases "leaving s d i")
    case True
    with assms n l show ?thesis unfolding depart_loop.simps Let_def n Option.bind.bind_lunit
      by (auto simp: drop_slot_def simp del: depart_loop.simps elim!: bind_SomeE)
  next
    case False
    with assms n l show ?thesis unfolding depart_loop.simps Let_def n Option.bind.bind_lunit
      by (auto simp: drop_slot_def simp del: depart_loop.simps)
  qed
qed

lemma depart_loop_conn:
  assumes "depart_loop d [0, 1] cs s = Some (cs', s')"
  shows "conn_of s' = (CONNECTED_NODES s - (if leaving s d 0 then 1 else 0) - (if leaving s d 1 then 2 else 0),
      CURRENT_CHILD_NUM s - (if leaving s d 0 then 1 else 0) - (if leaving s d 1 then 1 else 0)) \<and>
    NODES_STATUS s' = NODES_STATUS s \<and> CURRENT_CHILD_BLOCK s' = CURRENT_CHILD_BLOCK s"
proof -
  from depart_loop_step [OF assms] obtain c1 where "depart_loop d [1] c1 (drop_slot d 0 s) = Some (cs', s')" ..
  from depart_loop_step [OF this] have "s' = drop_slot d 1 (drop_slot d 0 s)" by auto
  then show ?thesis by (simp add: conn_of_def drop_slot_sel)
qed

lemma NodeDepart_conn:
  assumes "NodeDepart data s = Some s'"
    and "CopyBytesToNodeStatus node_info0 data = Some nd"
  shows "conn_of s' = (CONNECTED_NODES s - (if leaving s (node_id nd) 0 then 1 else 0) -
        (if leaving s (node_id nd) 1 then 2 else 0),
      CURRENT_CHILD_NUM s - (if leaving s (node_id nd) 0 then 1 else 0) -
        (if leaving s (node_id nd) 1 then 1 else 0)) \<and>
    length (NODES_STATUS s') = length (NODES_STATUS s) \<and>
    length (CURRENT_CHILD_BLOCK s') = length (CURRENT_CHILD_BLOCK s)"
proof -
  from assms obtain ip cs s1 s2 where d: "depart_loop (node_id nd) [0, 1] (STACK_U16 s) s = Some (cs, s1)"
    "renew_dst (htonl ip) (port nd) TMP_ID s1 = Some s2" "SendDetach TMP_ID cs s2 = Some s'"
    unfolding NodeDepart_def slots_01 by (auto simp: bind_eq_Some_conv simp del: depart_loop.simps)
  from depart_loop_conn [OF d(1)] renew_dst_slots [OF d(2)] SendDetach_slots [OF d(3)]
  show ?thesis by (simp add: same_slots_def)
qed

lemma release_iff:
  fixes c :: u8 and n :: int
  assumes "conn_ok (c, n)"
  shows "conn_ok (c - (if p then 1 else 0) - (if q then 2 else 0), n - (if p then 1 else 0) - (if q then 1 else 0)) \<longleftrightarrow>
    (p \<longrightarrow> connected c 0) \<and> (q \<longrightarrow> connected c 1)"
proof -
  have "c < 8" "n = (if connected c 0 then 1 else 0) + (if connected c 1 then 1 else 0)"
    using assms by (simp_all add: conn_ok_def)
  then show ?thesis using u8_lt_8 [of c]
    by (cases p; cases q; auto simp: conn_ok_def connected_bit)
qed

section \<open>The timer\<close>

lemma diff_time_slots: "diff_time t s = (d, s') \<Longrightarrow> same_slots s s'"
  by (auto simp: diff_time_def slot_defs)

lemma keepalive_all_slots: "keepalive_all ks s = Some s' \<Longrightarrow> same_slots s s'"
proof (induction ks arbitrary: s)
  case Nil
  then show ?case by (simp add: same_slots_def)
next
  case (Cons k ks)
  then show ?case
    by (auto simp: SendKeepAlive_def bind_eq_Some_conv split: if_splits
        intro: same_slots_trans dest: send_slots)
qed

lemma request_lists_slots: "request_lists ns s = Some s' \<Longrightarrow> same_slots s s'"
proof (induction ns arbitrary: s)
  case Nil
  then show ?case by (simp add: same_slots_def)
next
  case (Cons n ns)
  then obtain ip s1 s2 where "renew_dst ip (port n) TMP_ID s = Some s1" "SendReqList TMP_ID s1 = Some s2"
    "request_lists ns s2 = Some s'" by (auto elim!: bind_SomeE)
  with Cons.IH show ?case
    by (auto simp: SendReqList_def intro: same_slots_trans dest!: renew_dst_slots send_slots)
qed

text \<open>A round that reads the clock, perhaps stamps, and then works on.\<close>

lemma same_slots_fields [simp]:
  "same_slots (s\<lparr>TIMESTAMP := t\<rparr>) s' = same_slots s s'"
  "same_slots (s\<lparr>SETUP_TIMESTAMP := t\<rparr>) s' = same_slots s s'"
  "same_slots (s\<lparr>LISTUPDATE_TIMESTAMP := t\<rparr>) s' = same_slots s s'"
  "same_slots (s\<lparr>DEPART_TIMESTAMP := t\<rparr>) s' = same_slots s s'"
  "same_slots s (s'\<lparr>DEPART_TIMESTAMP := t\<rparr>) = same_slots s s'"
  "same_slots (s\<lparr>TICK := k\<rparr>) s' = same_slots s s'"
  by (simp_all add: same_slots_def conn_of_def)

lemma time_keepalive_slots: "time_keepalive s = Some s' \<Longrightarrow> same_slots s s'"
  unfolding time_keepalive_def diff_time_def stamp_def Let_def prod.case
  by (auto dest: keepalive_all_slots split: if_splits simp: same_slots_def conn_of_def simp del: keepalive_all.simps)

lemma time_setup_slots: "time_setup s = Some s' \<Longrightarrow> same_slots s s'"
  unfolding time_setup_def diff_time_def stamp_def Let_def prod.case
  by (auto dest!: send_slots split: if_splits simp: same_slots_def conn_of_def)

lemma time_lists_slots: "time_lists s = Some s' \<Longrightarrow> same_slots s s'"
  unfolding time_lists_def diff_time_def stamp_def Let_def prod.case SendReqList_def
  by (auto dest!: send_slots request_lists_slots split: if_splits elim!: bind_SomeE simp: same_slots_def conn_of_def)

lemma time_retry_slots: "time_retry s = Some s' \<Longrightarrow> same_slots s s'"
  unfolding time_retry_def diff_time_def Let_def prod.case
  by (auto dest!: handler_slots(4) split: if_splits simp: same_slots_def conn_of_def)

lemma CalPlayedBuffer_slots: "CalPlayedBuffer s = Some s' \<Longrightarrow> same_slots s s'"
  unfolding CalPlayedBuffer_def diff_time_def stamp_def Let_def prod.case
  by (auto split: if_splits elim!: bind_SomeE simp: same_slots_def conn_of_def)

lemma time_cache_slots:
  assumes "time_cache s = Some s'"
  shows "same_slots s s'"
proof -
  obtain u where u: "CalPlayedBuffer s = Some u" using assms by (auto simp: time_cache_def elim: bind_SomeE)
  have "same_slots u s'"
    using assms unfolding time_cache_def u Option.bind.bind_lunit diff_time_def stamp_def Let_def prod.case
    by (auto dest!: SendDepart_slots split: if_splits simp: same_slots_def conn_of_def)
  with CalPlayedBuffer_slots [OF u] show ?thesis by (rule same_slots_trans)
qed

text \<open>
  Dropping silent neighbours clears bits only, and takes as much off the counter as it clears, the
  parent's bit included.
\<close>

definition neighbours :: "u8 \<Rightarrow> int" where
  "neighbours c = children c + (if connected c 2 then 1 else 0)"

definition drops :: "node \<Rightarrow> node \<Rightarrow> bool" where
  "drops s s' \<longleftrightarrow> CONNECTED_NODES s' < 8 \<and>
     (\<forall>j < 3. connected (CONNECTED_NODES s') j \<longrightarrow> connected (CONNECTED_NODES s) j) \<and>
     CURRENT_CHILD_NUM s' - neighbours (CONNECTED_NODES s') = CURRENT_CHILD_NUM s - neighbours (CONNECTED_NODES s) \<and>
     length (NODES_STATUS s') = length (NODES_STATUS s) \<and>
     length (CURRENT_CHILD_BLOCK s') = length (CURRENT_CHILD_BLOCK s)"

lemma drops_same: "same_slots s s' \<Longrightarrow> CONNECTED_NODES s < 8 \<Longrightarrow> drops s s'"
  by (simp add: drops_def same_slots_def conn_of_def)

lemma drops_trans: "drops r s \<Longrightarrow> drops s t \<Longrightarrow> drops r t"
  by (simp add: drops_def)

lemma all_lt3: "(\<forall>j < (3 :: nat). P j) \<longleftrightarrow> P 0 \<and> P 1 \<and> P 2"
  by (auto simp: numeral_3_eq_3 numeral_2_eq_2 less_Suc_eq)

lemma connected_lt3:
  assumes "(c :: u8) < 8" and "connected c i"
  shows "i \<in> {0, 1, 2}"
proof (rule ccontr)
  assume "i \<notin> {0, 1, 2}"
  then have "3 \<le> i" by auto
  then have "(2 :: nat) ^ 3 \<le> 2 ^ i" by (rule power_increasing) simp
  moreover have "unat c < 8" using assms(1) by (simp add: word_less_nat_alt)
  ultimately have "unat c div 2 ^ i = 0" by simp
  then have "unat (drop_bit i c) = 0" unfolding unat_drop_bit_eq by (simp only: drop_bit_eq_div)
  then have "drop_bit i c = 0" by (simp only: unat_eq_zero)
  with assms(2) show False by (simp add: connected_def)
qed

lemma drop_bit_ok:
  assumes "(c :: u8) < 8" and "connected c i"
  shows "c - push_bit i 1 < 8 \<and> (\<forall>j < 3. connected (c - push_bit i 1) j \<longrightarrow> connected c j) \<and>
    neighbours (c - push_bit i 1) = neighbours c - 1"
  using connected_lt3 [OF assms] u8_lt_8 [OF assms(1)] assms(2)
  by (elim insertE emptyE) (simp_all add: connected_bit neighbours_def children_def all_lt3)

lemma time_expire_drops: "time_expire ks s = Some s' \<Longrightarrow> CONNECTED_NODES s < 8 \<Longrightarrow> drops s s'"
proof (induction ks arbitrary: s)
  case Nil
  then show ?case by (simp add: drops_def)
next
  case (Cons i ks)
  show ?case
  proof (cases "connected (CONNECTED_NODES s) i")
    case False
    with Cons show ?thesis by simp
  next
    case True
    with Cons.prems(1) obtain n where n: "idx (NODES_STATUS s) (int i) = Some n" by (auto elim: bind_SomeE)
    show ?thesis
    proof (cases "tv_sec (timestamp n) = 0 \<and> tv_usec (timestamp n) = 0")
      case zero: True
      with Cons True n show ?thesis by simp
    next
      case nz: False
      obtain dt s1 where d: "diff_time (timestamp n) s = (dt, s1)" by force
      note ss = diff_time_slots [OF d]
      then have c: "CONNECTED_NODES s1 = CONNECTED_NODES s" by (simp add: same_slots_def conn_of_def)
      define s2 where "s2 = s1\<lparr>CONNECTED_NODES := CONNECTED_NODES s1 - push_bit i 1,
        CURRENT_CHILD_NUM := CURRENT_CHILD_NUM s1 - 1\<rparr>"
      have d2: "drops s s2"
        using drop_bit_ok [OF Cons.prems(2) True] ss by (auto simp: drops_def s2_def same_slots_def conn_of_def)
      show ?thesis
      proof (cases "IsExceedTime dt KEEPALIVE_TLV_INTARVAL")
        case False
        with Cons.prems True n nz d have "time_expire ks s1 = Some s'" by (simp add: Let_def del: de_Morgan_conj)
        with Cons.IH [of s1] Cons.prems(2) c drops_same [OF ss] show ?thesis by (auto intro: drops_trans)
      next
        case exp: True
        have "do { s3 \<leftarrow> (if int i = PARENT_ID then NodeRetry s2 else Some s2); time_expire ks s3 } = Some s'"
          using Cons.prems(1) unfolding time_expire.simps if_P [OF True] n Option.bind.bind_lunit if_not_P [OF nz]
            d Let_def prod.case if_P [OF exp] s2_def .
        then obtain s3 where s3: "(if int i = PARENT_ID then NodeRetry s2 else Some s2) = Some s3"
          "time_expire ks s3 = Some s'" by (elim bind_SomeE)
        have d3: "drops s2 s3"
        proof (rule drops_same)
          show "same_slots s2 s3"
            using s3(1) by (auto split: if_splits dest: handler_slots(4) simp: same_slots_def)
          show "CONNECTED_NODES s2 < 8" using d2 by (simp add: drops_def)
        qed
        have "CONNECTED_NODES s3 < 8" using d3 by (simp add: drops_def)
        from Cons.IH [OF s3(2) this] show ?thesis using d2 d3 by (blast intro: drops_trans)
      qed
    qed
  qed
qed

lemma TimeProcess_drops:
  assumes "TimeProcess_round s = Some s'" and "CONNECTED_NODES s < 8"
  shows "drops s s'"
proof -
  from assms(1) obtain s1 s2 s3 s4 s5 where r: "time_keepalive s = Some s1" "time_setup s1 = Some s2"
    "time_expire [0..<MAX_NODE_NUM] s2 = Some s3" "time_lists s3 = Some s4" "time_retry s4 = Some s5"
    "time_cache s5 = Some s'"
    unfolding TimeProcess_round_def by (elim bind_SomeE)
  have a: "same_slots s s2" using time_keepalive_slots [OF r(1)] time_setup_slots [OF r(2)] by (rule same_slots_trans)
  have b: "same_slots s3 s'"
    using time_lists_slots [OF r(4)] time_retry_slots [OF r(5)] time_cache_slots [OF r(6)]
    by (blast intro: same_slots_trans)
  from a assms(2) have c: "drops s s2" "CONNECTED_NODES s2 < 8" by (simp_all add: drops_same, simp add: same_slots_def conn_of_def)
  from time_expire_drops [OF r(3) c(2)] have d: "drops s2 s3" .
  then have "CONNECTED_NODES s3 < 8" by (simp add: drops_def)
  from drops_same [OF b this] c(1) d show ?thesis by (blast intro: drops_trans)
qed

section \<open>Streaming\<close>

lemma SearchWebM_keeps: "SearchWebM b n p s = Some (d, t) \<Longrightarrow> keeps s t"
  by (auto simp: SearchWebM_def file_defs bind_eq_Some_conv Let_def keeps_def)

lemma skip_clusters_keeps: "skip_clusters n p s = Some (q, t) \<Longrightarrow> keeps s t"
proof (induction n arbitrary: p s)
  case (Suc n)
  then show ?case by (fastforce simp: file_defs Let_def keeps_def elim!: bind_SomeE)
qed simp

lemma SeekABSForNextBlock_keeps: "SeekABSForNextBlock b s = Some (p, t) \<Longrightarrow> keeps s t"
  by (auto simp: SeekABSForNextBlock_def CalOffset_def file_defs Let_def keeps_def elim!: bind_SomeE
      dest!: skip_clusters_keeps)

lemma SendCacheBlock_slots: "SendCacheBlock b k s = Some (st, b', s') \<Longrightarrow> same_slots s s'"
  unfolding SendCacheBlock_def
  by (auto elim!: bind_SomeE intro: same_slots_trans
      dest!: SeekABSForNextBlock_keeps SearchWebM_keeps keeps_same_slots SendPacket_slots split: prod.splits)

lemma mul_loop_slots: "mul_loop ks n s = Some (m, s') \<Longrightarrow> same_slots s s'"
proof (induction ks arbitrary: n s)
  case Nil
  then show ?case by (simp add: same_slots_def)
next
  case (Cons k ks)
  show ?case
  proof (cases "connected (CONNECTED_NODES s) k")
    case False
    with Cons show ?thesis by simp
  next
    case True
    with Cons.prems obtain b old where b: "idx (CURRENT_CHILD_BLOCK s) (int k) = Some (Some b)"
      "IsOldBlockSeq (prev b) s = Some old" by (auto elim!: bind_SomeE)
    show ?thesis
    proof (cases old)
      case False
      with Cons True b show ?thesis by auto
    next
      case old: True
      with Cons.prems True b obtain st b' s1 bs b'' where s1: "SendCacheBlock b (int k) s = Some (st, b', s1)"
        "upd (CURRENT_CHILD_BLOCK s1) (int k) (Some b'') = Some bs"
        "mul_loop ks n (s1\<lparr>CURRENT_CHILD_BLOCK := bs\<rparr>) = Some (m, s')"
        by (auto simp: Let_def elim!: bind_SomeE)
      from s1(2) SendCacheBlock_slots [OF s1(1)] have "same_slots s (s1\<lparr>CURRENT_CHILD_BLOCK := bs\<rparr>)"
        by (auto simp: same_slots_def conn_of_def upd_Some)
      with Cons.IH [OF s1(3)] show ?thesis by (blast intro: same_slots_trans)
    qed
  qed
qed

lemma SendMulStream_slots: "SendMulStream s = Some (m, s') \<Longrightarrow> same_slots s s'"
  unfolding SendMulStream_def
  by (auto simp: file_defs Let_def same_slots_def conn_of_def elim!: bind_SomeE dest!: mul_loop_slots)

section \<open>The life of a node\<close>

text \<open>
  The message is one the protocol gives at this point: a node that leaves is only in slots that are
  occupied, a parent that lets go is there, a parent that introduces itself is not there yet.
\<close>

definition expected :: "u8 \<Rightarrow> bytes \<Rightarrow> node \<Rightarrow> bool" where
  "expected p data s \<longleftrightarrow>
     (if p = proto_code DEPART_PROTO
      then (case CopyBytesToNodeStatus node_info0 data of
          None \<Rightarrow> True
        | Some nd \<Rightarrow> list_all (\<lambda>i. leaving s (node_id nd) i \<longrightarrow> connected (CONNECTED_NODES s) i) [0, 1])
      else if p = proto_code DETACH_PROTO then connected (CONNECTED_NODES s) 2
      else if p = proto_code INITIAL_STATUS_PROTO then \<not> connected (CONNECTED_NODES s) 2
      else True)"

text \<open>
  One step of a running node: a frame through \<^verbatim>\<open>Receive\<close> of the peer or of the origin, a block sent on
  to the children by the origin's main thread, or a round of the timer in which the parent does
  not fall silent.
\<close>

inductive node_step :: "node \<Rightarrow> node \<Rightarrow> bool" where
  peer_frame: "rd packet 42 = Some p \<Longrightarrow> expected p (drop 43 packet) s \<Longrightarrow>
    receive_peer packet s = Some (Ret s') \<Longrightarrow> node_step s s'"
| origin_frame: "rd packet 42 = Some p \<Longrightarrow> expected p (drop 43 packet) s \<Longrightarrow>
    receive_origin packet s = Some (Ret s') \<Longrightarrow> node_step s s'"
| stream: "SendMulStream s = Some (n, s') \<Longrightarrow> node_step s s'"
| timer: "TimeProcess_round s = Some s' \<Longrightarrow>
    connected (CONNECTED_NODES s') 2 = connected (CONNECTED_NODES s) 2 \<Longrightarrow> node_step s s'"

inductive_cases node_stepE: "node_step s s'"

lemma ret_Ret: "ret r = Some (Ret s') \<longleftrightarrow> r = Some s'"
  by (cases r) (simp_all add: ret_def)

lemma slots_ok_parent:
  assumes "slots_ok s" and "CURRENT_CHILD_NUM s' = CURRENT_CHILD_NUM s"
    and "CONNECTED_NODES s' = CONNECTED_NODES s \<or>
      CONNECTED_NODES s' = CONNECTED_NODES s + 4 \<and> \<not> connected (CONNECTED_NODES s) 2 \<or>
      CONNECTED_NODES s' = CONNECTED_NODES s - 4 \<and> connected (CONNECTED_NODES s) 2"
    and "length (NODES_STATUS s') = length (NODES_STATUS s)"
    and "length (CURRENT_CHILD_BLOCK s') = length (CURRENT_CHILD_BLOCK s)"
  shows "slots_ok s'"
  using assms parent_bit [of "CONNECTED_NODES s"] unfolding slots_ok_children by auto

lemma NodeDepart_iff:
  assumes "slots_ok s" and "NodeDepart data s = Some s'"
    and "CopyBytesToNodeStatus node_info0 data = Some nd"
  shows "slots_ok s' \<longleftrightarrow> (\<forall>i \<in> {0, 1}. leaving s (node_id nd) i \<longrightarrow> connected (CONNECTED_NODES s) i)"
proof -
  have ok: "conn_ok (CONNECTED_NODES s, CURRENT_CHILD_NUM s)" "length (NODES_STATUS s) = 4"
    "length (CURRENT_CHILD_BLOCK s) = 2"
    using assms(1) by (simp_all add: slots_ok_def conn_of_def)
  from NodeDepart_conn [OF assms(2,3)] release_iff [OF ok(1)] ok(2,3) show ?thesis
    by (simp add: slots_ok_def)
qed

lemma NodeDepart_ok:
  assumes "slots_ok s" and "expected (proto_code DEPART_PROTO) data s" and "NodeDepart data s = Some s'"
  shows "slots_ok s'"
proof -
  from assms(3) obtain nd where nd: "CopyBytesToNodeStatus node_info0 data = Some nd"
    by (auto simp: NodeDepart_def elim: bind_SomeE)
  from NodeDepart_iff [OF assms(1,3) nd] assms(2) show ?thesis by (simp add: expected_def nd)
qed

text \<open>The messages that move the slot table, and those that leave it alone.\<close>

lemma expected_simps [simp]:
  "expected 6 d s \<longleftrightarrow> connected (CONNECTED_NODES s) 2"
  "expected 2 d s \<longleftrightarrow> \<not> connected (CONNECTED_NODES s) 2"
  by (simp_all add: expected_def)

lemma handler_ok:
  assumes "slots_ok s"
  shows "NodeSetup d n ip p s = Some s' \<Longrightarrow> slots_ok s'"
    and "NodeConnect d s = Some s' \<Longrightarrow> slots_ok s'"
    and "NodeInitialStatus d n s = Some s' \<Longrightarrow> \<not> connected (CONNECTED_NODES s) 2 \<Longrightarrow> slots_ok s'"
    and "NodeAccept d s = Some s' \<Longrightarrow> slots_ok s'"
    and "NodeDetach d s = Some s' \<Longrightarrow> connected (CONNECTED_NODES s) 2 \<Longrightarrow> slots_ok s'"
    and "same_slots s s' \<Longrightarrow> slots_ok s'"
    and "AssembleBlock d n s = Some (Ret s') \<Longrightarrow> slots_ok s'"
proof -
  show same: "same_slots s s' \<Longrightarrow> slots_ok s'" using assms by (rule same_slots_ok [rotated])
  show "NodeSetup d n ip p s = Some s' \<Longrightarrow> slots_ok s'" "NodeConnect d s = Some s' \<Longrightarrow> slots_ok s'"
    using NodeSetup_slots NodeConnect_slots claims_ok [OF assms] same by blast+
  show "NodeInitialStatus d n s = Some s' \<Longrightarrow> \<not> connected (CONNECTED_NODES s) 2 \<Longrightarrow> slots_ok s'"
    by (drule NodeInitialStatus_slots) (auto intro: slots_ok_parent [OF assms])
  show "NodeAccept d s = Some s' \<Longrightarrow> slots_ok s'"
    by (drule NodeAccept_slots) (auto intro!: slots_ok_parent [OF assms] split: if_splits)
  show "NodeDetach d s = Some s' \<Longrightarrow> connected (CONNECTED_NODES s) 2 \<Longrightarrow> slots_ok s'"
    by (drule NodeDetach_slots) (auto intro: slots_ok_parent [OF assms])
  show "AssembleBlock d n s = Some (Ret s') \<Longrightarrow> slots_ok s'"
    using same keeps_same_slots run_keepsD [OF AssembleBlock_keeps] by blast
qed

lemma dispatch_peer_ok:
  assumes "slots_ok s" and "expected p data s" and "dispatch_peer p data len ip src s = Some (Ret s')"
  shows "slots_ok s'"
  using assms(3,2,1) unfolding dispatch_peer_def ret_Ret
  by (auto split: if_split_asm simp: ret_Ret intro: handler_ok [OF assms(1)] NodeDepart_ok [OF assms(1)]
      dest: handler_slots NodeKeepAliveRes_slots)

lemma dispatch_origin_ok:
  assumes "slots_ok s" and "expected p data s" and "dispatch_origin p data len ip src s = Some (Ret s')"
  shows "slots_ok s'"
  using assms(3,2,1) unfolding dispatch_origin_def ret_Ret
  by (auto split: if_split_asm simp: ret_Ret elim!: bind_SomeE
      intro: handler_ok [OF assms(1)] handler_ok(1) [OF same_slots_ok [OF SendID_slots assms(1)]]
        NodeDepart_ok [OF assms(1)]
      dest: handler_slots NodeKeepAliveRes_slots)

lemma receive_frame_ok:
  assumes "slots_ok s" and "rd packet 42 = Some p" and "expected p (drop 43 packet) s"
    and "receive_frame dispatch my_port packet s = Some (Ret s')"
    and disp: "\<And>len ip src s'. dispatch p (drop 43 packet) len ip src s = Some (Ret s') \<Longrightarrow> slots_ok s'"
  shows "slots_ok s'"
proof -
  have arp: "slots_ok u" if "receive_arp packet s = Some u" for u
    using that assms(1) by (auto simp: receive_arp_def slots_ok_def conn_of_def elim!: bind_SomeE)
  show ?thesis
    using assms(4,1) unfolding receive_frame_def
    by (auto simp: ret_Ret assms(2) elim!: bind_SomeE split: if_split_asm) (erule arp disp)+
qed

lemma node_step_ok: "node_step s s' \<Longrightarrow> slots_ok s \<Longrightarrow> slots_ok s'"
proof (induction rule: node_step.induct)
  case (peer_frame packet p s s')
  then obtain s1 where s1: "receive_frame dispatch_peer (SRC_PORT (ADDR s)) packet s = Some (Ret s1)"
    "s' = s1 \<or> (\<exists>n. SendMulStream s1 = Some (n, s'))"
    by (auto simp: receive_peer_def elim!: bind_SomeE split: if_split_asm)
  have "slots_ok s1"
    by (rule receive_frame_ok [OF peer_frame.prems peer_frame.hyps(1,2) s1(1)],
        rule dispatch_peer_ok [OF peer_frame.prems peer_frame.hyps(2)])
  with s1(2) show ?case by (auto intro: same_slots_ok SendMulStream_slots)
next
  case (origin_frame packet p s s')
  show ?case
    by (rule receive_frame_ok [OF origin_frame.prems origin_frame.hyps(1,2)
          origin_frame.hyps(3) [unfolded receive_origin_def]],
        rule dispatch_origin_ok [OF origin_frame.prems origin_frame.hyps(2)])
next
  case (stream s n s')
  then show ?case by (auto intro: same_slots_ok SendMulStream_slots)
next
  case (timer s s')
  then have "drops s s'" using TimeProcess_drops by (simp add: slots_ok_children)
  with timer show ?case by (auto simp: slots_ok_children drops_def neighbours_def)
qed

lemma node_run_ok: "node_step\<^sup>*\<^sup>* s s' \<Longrightarrow> slots_ok s \<Longrightarrow> slots_ok s'"
  by (induction rule: rtranclp_induct) (auto dest: node_step_ok)


lemma slots_ok_node1: "slots_ok node1"
  using ready_node1 by (simp add: ready_def)


text \<open>
  C18: A message makes a node take in at most one child, and only into the first free slot: after a
  setup request or a connection request either the table is as it was, or there was a free slot and
  exactly its bit is added and the counter is one more.
\<close>

theorem one_child_per_request:
  assumes "slots_ok s" and "NodeSetup d n ip p s = Some s' \<or> NodeConnect d s = Some s'"
  shows "conn_of s' = conn_of s \<or> (\<exists>i < 2. \<not> connected (CONNECTED_NODES s) i \<and>
    (\<forall>j < i. connected (CONNECTED_NODES s) j) \<and> CURRENT_CHILD_NUM s' = CURRENT_CHILD_NUM s + 1 \<and>
    (\<forall>j < 3. connected (CONNECTED_NODES s') j \<longleftrightarrow> j = i \<or> connected (CONNECTED_NODES s) j))"
proof (cases "conn_of s' = conn_of s")
  case False
  with assms(2) have c: "CheckChildNum s \<noteq> -1" "claims (CheckChildNum s) s s'"
    by (auto simp: same_slots_def dest: NodeSetup_slots NodeConnect_slots)
  define i where "i = nat (CheckChildNum s)"
  from CheckChildNum_slot [OF assms(1) c(1)] have i: "i < 2" "\<not> connected (CONNECTED_NODES s) i"
    by (auto simp: i_def)
  have first: "\<forall>j < i. connected (CONNECTED_NODES s) j"
    using c(1) unfolding i_def CheckChildNum_def slots_01 by (auto split: if_splits)
  have ok: "conn_ok (conn_of s)" using assms(1) by (simp add: slots_ok_def)
  from c(2) have e: "conn_of s' = conn_claim i (conn_of s)" by (simp add: claims_def i_def)
  from conn.occ_claim [OF ok i(1)] conn.cnt_claim [OF ok i(1)] i e have
    "CURRENT_CHILD_NUM s' = CURRENT_CHILD_NUM s + 1"
    "\<forall>j < 3. connected (CONNECTED_NODES s') j \<longleftrightarrow> j = i \<or> connected (CONNECTED_NODES s) j"
    by (simp_all add: conn_of_def flip: e [unfolded conn_of_def])
  with i first show ?thesis by blast
qed simp

text \<open>A connection request that is granted, as an instance.\<close>

theorem one_child_per_request_witness:
  "\<exists>s'. NodeConnect (node_wire (node_info0\<lparr>node_id := 5\<rparr>)) node1 = Some s' \<and>
     (conn_of s' = conn_of node1 \<or> CURRENT_CHILD_NUM s' = 1)"
proof -
  have d: "CopyBytesToNodeStatus node_info0 (node_wire (node_info0\<lparr>node_id := 5\<rparr>)) = Some (node_info0\<lparr>node_id := 5\<rparr>)"
    using CopyBytesToNodeStatus_wire [of node_info0 "node_info0\<lparr>node_id := 5\<rparr>" "[]"] by (simp add: copy_node_id)
  have "CONNECTED_NODES node1 AND 3 = 0" by (simp add: node1_def node0_sel)
  then obtain s' where s': "NodeConnect (node_wire (node_info0\<lparr>node_id := 5\<rparr>)) node1 = Some s'"
    using NodeConnect_defined [OF ready_node1 d] by blast
  have z: "CURRENT_CHILD_NUM node1 = 0" by (simp add: node1_def node0_sel)
  from one_child_per_request [OF slots_ok_node1 disjI2 [OF s']] s' show ?thesis unfolding z by auto
qed



text \<open>
  C20: A round of the timer only ever drops neighbours: it sets no bit of the mask.  The counter of
  children stays right exactly as long as the parent is not among the dropped: for a silent parent
  \<^verbatim>\<open>TimeProcess\<close> decrements the number of \<^emph>\<open>children\<close> as well.
\<close>

theorem timer_drops_neighbours:
  assumes "slots_ok s" and "TimeProcess_round s = Some s'"
  shows "CONNECTED_NODES s' < 8 \<and>
    (\<forall>j < 3. connected (CONNECTED_NODES s') j \<longrightarrow> connected (CONNECTED_NODES s) j) \<and>
    CURRENT_CHILD_NUM s' = children (CONNECTED_NODES s') -
      (if connected (CONNECTED_NODES s) 2 \<and> \<not> connected (CONNECTED_NODES s') 2 then 1 else 0)"
proof -
  have "drops s s'" using TimeProcess_drops assms by (simp add: slots_ok_children)
  with assms(1) show ?thesis by (auto simp: slots_ok_children drops_def neighbours_def all_lt3)
qed

theorem timer_drops_neighbours_witness:
  "\<exists>s'. TimeProcess_round (node1\<lparr>CONNECTED_NODES := 1, CURRENT_CHILD_NUM := 1, IS_SETUP := False,
      CLOCK := (\<lambda>_. \<lparr>tv_sec = 100, tv_usec = 0\<rparr>), TIMESTAMP := \<lparr>tv_sec = 99, tv_usec = 0\<rparr>,
      NODES_STATUS := replicate 4 (node_status0\<lparr>timestamp := \<lparr>tv_sec = 1, tv_usec = 0\<rparr>\<rparr>)\<rparr>) = Some s' \<and>
    CONNECTED_NODES s' = 0 \<and> CURRENT_CHILD_NUM s' = 0"
proof -
  let ?s = "node1\<lparr>CONNECTED_NODES := 1, CURRENT_CHILD_NUM := 1, IS_SETUP := False,
      CLOCK := (\<lambda>_. \<lparr>tv_sec = 100, tv_usec = 0\<rparr>), TIMESTAMP := \<lparr>tv_sec = 99, tv_usec = 0\<rparr>,
      NODES_STATUS := replicate 4 (node_status0\<lparr>timestamp := \<lparr>tv_sec = 1, tv_usec = 0\<rparr>\<rparr>)\<rparr>"
  note ev = diff_time_def stamp_def DiffCurrentTime_def UpdateTimestamp_def IsExceedTime_def Let_def
    TIMEPROCESS_INTARVAL_def KEEPALIVE_TLV_INTARVAL_def LISTUPDATE_TLV_INTARVAL_def node1_def node0_sel
  have u: "[0..<MAX_NODE_NUM] = [0, 1, 2, 3]" by (simp add: MAX_NODE_NUM_def upt_rec)
  have me: "node_id node_status0 = ORIGIN_ID"
    by (simp add: node_status0_def node_info0_def node_info.defs block_info.defs ORIGIN_ID_def)
  obtain s1 where 1: "time_keepalive ?s = Some s1" "s1 = ?s\<lparr>TICK := TICK ?s + 1\<rparr>"
    by (simp add: time_keepalive_def ev)
  obtain s2 where 2: "time_setup s1 = Some s2" "s2 = s1" by (simp add: time_setup_def 1(2))
  obtain s3 where 3: "time_expire [0, 1, 2, 3] s2 = Some s3"
    "s3 = ?s\<lparr>TICK := TICK ?s + 2, CONNECTED_NODES := 0, CURRENT_CHILD_NUM := 0\<rparr>"
    by (simp add: 1(2) 2(2) ev connected_bit idx_def PARENT_ID_def)
  obtain s4 where 4: "time_lists s3 = Some s4" "s4 = s3\<lparr>TICK := TICK ?s + 3\<rparr>"
    by (simp add: time_lists_def 3(2) ev connected_bit PARENT_ID_def)
  obtain s5 where 5: "time_retry s4 = Some s5" "s5 = s4\<lparr>TICK := TICK ?s + 4\<rparr>"
    by (simp add: time_retry_def 4(2) 3(2) ev)
  obtain s6 where 6: "time_cache s5 = Some s6"
    by (simp add: time_cache_def CalPlayedBuffer_def 5(2) 4(2) 3(2) ev idx_def MY_ID_def me DEFAULT_CACHE_def)
  have r: "TimeProcess_round ?s = Some s6"
    unfolding TimeProcess_round_def u 1(1) 2(1) 3(1) 4(1) 5(1) 6 Option.bind.bind_lunit by (rule refl)
  have c: "CONNECTED_NODES s6 = CONNECTED_NODES s5" using time_cache_slots [OF 6] by (simp add: same_slots_def conn_of_def)
  have "slots_ok ?s" using slots_ok_node1 by (simp add: slots_ok_children children_def connected_bit)
  from timer_drops_neighbours [OF this r] r c show ?thesis
    by (simp add: 5(2) 4(2) 3(2) children_def connected_bit)
qed

end
