(* ===== verification/Exchange.thy ===== *)
theory Exchange
  imports Connections
begin

text \<open>
  Two nodes and a wire: what one node sends is what the other one acts on.
\<close>

section \<open>Arrays of statuses\<close>

text \<open>Reading the array back.\<close>

lemma CopyBytesToNodeStatus_array:
  assumes "i < length ns"
  shows "CopyBytesToNodeStatus node_info0 (drop (30 * i) (concat (map node_wire ns) @ r)) = Some (ns ! i)"
  using node_codec.get_array [OF assms, of node_info0 r] .

lemma merge_nodes_array:
  assumes "j + k \<le> length ns"
  shows "merge_nodes (concat (map node_wire ns) @ r) [j..<j + k] l =
    Some (foldl node_list.merge l (take k (drop j ns)))"
  using assms
proof (induction k arbitrary: j l)
  case 0
  then show ?case by simp
next
  case (Suc k)
  have u: "[j..<j + Suc k] = j # [Suc j..<Suc j + k]" by (simp add: upt_rec)
  have t: "take (Suc k) (drop j ns) = ns ! j # take k (drop (Suc j) ns)"
    using Suc.prems by (simp add: Cons_nth_drop_Suc [symmetric])
  have c: "CopyBytesToNodeStatus node_info0 (drop (NODE_STATUS_BYTES * j) (concat (map node_wire ns) @ r))
      = Some (ns ! j)"
    using CopyBytesToNodeStatus_array [of j ns r] Suc.prems by (simp add: NODE_STATUS_BYTES_def del: drop_append)
  have ih: "merge_nodes (concat (map node_wire ns) @ r) [Suc j..<Suc j + k] l' =
      Some (foldl node_list.merge l' (take k (drop (Suc j) ns)))" for l'
    using Suc.IH [of "Suc j"] Suc.prems by simp
  show ?case
    unfolding u t merge_nodes.simps c Option.bind.bind_lunit ih foldl_Cons node_list.merge_def by simp
qed

lemma learn_nodes_array:
  assumes "length pre = base" and "j + k \<le> length ns"
  shows "learn_nodes (pre @ concat (map node_wire ns) @ r) base [j..<j + k] l =
    Some (foldl node_list.learn l (take k (drop j ns)))"
  using assms(2)
proof (induction k arbitrary: j l)
  case 0
  then show ?case by simp
next
  case (Suc k)
  have u: "[j..<j + Suc k] = j # [Suc j..<Suc j + k]" by (simp add: upt_rec)
  have t: "take (Suc k) (drop j ns) = ns ! j # take k (drop (Suc j) ns)"
    using Suc.prems by (simp add: Cons_nth_drop_Suc [symmetric])
  have "drop (base + NODE_STATUS_BYTES * j) (pre @ concat (map node_wire ns) @ r)
      = drop (NODE_STATUS_BYTES * j) (concat (map node_wire ns) @ r)"
    by (simp add: assms(1) [symmetric])
  then have c: "CopyBytesToNodeStatus node_info0 (drop (base + NODE_STATUS_BYTES * j)
      (pre @ concat (map node_wire ns) @ r)) = Some (ns ! j)"
    using CopyBytesToNodeStatus_array [of j ns r] Suc.prems by (simp add: NODE_STATUS_BYTES_def del: drop_append)
  have ih: "learn_nodes (pre @ concat (map node_wire ns) @ r) base [Suc j..<Suc j + k] l' =
      Some (foldl node_list.learn l' (take k (drop (Suc j) ns)))" for l'
    using Suc.IH [of "Suc j"] Suc.prems by simp
  show ?case
    unfolding u t learn_nodes.simps c Option.bind.bind_lunit ih foldl_Cons node_list.learn_def by simp
qed

text \<open>A status as it travels: without the timestamp.\<close>

definition info_of :: "node_status \<Rightarrow> node_info" where
  "info_of n = copy_node node_info0 n"

lemma node_wire_info_of [simp]: "node_wire (info_of n) = node_wire n"
  by (simp add: info_of_def node_wire_def info_wire_def copy_node_def copy_info_def)

lemma wires_info: "wires s ks = concat (map node_wire (map (\<lambda>k. info_of (NODES_STATUS s ! k)) ks))"
  by (simp add: wires_def comp_def)

lemma merge_nodes_all:
  "merge_nodes (concat (map node_wire ns) @ r) [0..<length ns] l = Some (foldl node_list.merge l ns)"
  using merge_nodes_array [of 0 "length ns" ns r l] by simp

lemma learn_nodes_all:
  "length pre = base \<Longrightarrow> learn_nodes (pre @ concat (map node_wire ns) @ r) base [0..<length ns] l =
    Some (foldl node_list.learn l ns)"
  using learn_nodes_array [of pre base 0 "length ns" ns r l] by simp

lemma posts_receive:
  assumes "posts s k (p # d) s'" and "node_wf s" "slot_ix k" and "length d \<le> 1471"
    and "DST_IP (ADDR s) ! nat k = SRC_IP (ADDR r)" "DST_PORT (ADDR s) ! nat k = my_port"
  shows "\<exists>f. WIRE s' = WIRE s @ [f] \<and> (\<forall>dispatch stale. receive_frame dispatch my_port (f @ stale) r =
    dispatch p (d @ stale) (int (length d)) (SRC_IP (ADDR s)) (htons (SRC_PORT (ADDR s))) r)"
proof -
  have se: "sends s s' k (p # d)" and a: "ADDR s' = ADDR s"
    using assms(1) posts_sel(1) [OF assms(1)] by (simp_all add: posts_def)
  from se obtain f where f: "WIRE s' = WIRE s @ [f]" by (auto simp: sends_def)
  have "idx (DST_IP (ADDR s')) k = Some (SRC_IP (ADDR r))" "idx (DST_PORT (ADDR s')) k = Some my_port"
    using wf_idx(2,4) [OF assms(2,3)] assms(5,6) by (simp_all add: a)
  from sends_receive [OF se assms(4) this] f a show ?thesis by auto
qed

section \<open>Lists\<close>

definition keyed :: "node_info list \<Rightarrow> (u16 \<times> node_info) list" where
  "keyed ns = map (\<lambda>n. (node_id n, n)) ns"

text \<open>What a node tells a child about the others.\<close>

definition told :: "node \<Rightarrow> nat \<Rightarrow> node_info list" where
  "told s k = map (\<lambda>j. info_of (NODES_STATUS s ! j)) (others (CONNECTED_NODES s) (int k) [0, 1]) @
     without (node_id (NODES_STATUS s ! k)) (NODES_LIST s)"

lemma child_count:
  assumes "slots_ok s" "k < 2" "connected (CONNECTED_NODES s) k"
  shows "CURRENT_CHILD_NUM s - 1 = int (length (others (CONNECTED_NODES s) (int k) [0, 1]))"
  using assms by (auto simp: slots_ok_def conn_ok_def conn_of_def others_def less_2_cases_iff)

text \<open>
  C15: The list a parent sends arrives: the child's table afterwards maps every id to what the parent
  knows - its other child and its list, without the child itself, a later entry overriding an
  earlier one - and keeps what it knew about all other nodes, each node once.
\<close>

theorem list_exchange:
  assumes "node_wf s" "slots_ok s" and k: "k < 2" "connected (CONNECTED_NODES s) k"
    and room: "length (NODES_LIST s) \<le> 31"
    and "DST_IP (ADDR s) ! k = SRC_IP (ADDR r)" "DST_PORT (ADDR s) ! k = my_port"
    and "list_wf (NODES_LIST r)"
  shows "\<exists>s' f r'. SendResList (int k) s = Some s' \<and> WIRE s' = WIRE s @ [f] \<and>
    receive_frame dispatch_peer my_port (f @ stale) r = Some (Ret r') \<and>
    list_lookup (NODES_LIST r') = list_lookup (NODES_LIST r) ++ map_of (rev (keyed (told s k))) \<and>
    list_wf (NODES_LIST r')"
proof -
  have six: "slot_ix (int k)" using k(1) by (simp add: slot_ix_def)
  let ?L = "concat (map node_wire (told s k))"
  have L: "?L = wires s (others (CONNECTED_NODES s) (int k) [0, 1]) @
      concat (map node_wire (without (node_id (NODES_STATUS s ! nat (int k))) (NODES_LIST s)))"
    by (simp add: told_def wires_info)
  have lo: "length (others (CONNECTED_NODES s) (int k) [0, 1]) \<le> 2"
    using length_filter_le [of "\<lambda>j. int j \<noteq> int k \<and> connected (CONNECTED_NODES s) j" "[0, 1 :: nat]"]
    by (simp add: others_def)
  have lw: "length (without i l) \<le> length l" for i l by (simp add: without_def)
  have lt: "length (told s k) \<le> 33"
    using lo room lw [of "node_id (NODES_STATUS s ! k)" "NODES_LIST s"] by (simp add: told_def)
  obtain s' where s': "SendResList (int k) s = Some s'" "posts s (int k) (10 # ?L) s'"
    using SendResList_posts [OF assms(1) six L child_count [OF assms(2) k] room] by auto
  have ll: "length ?L \<le> 1471" using lt by simp
  have "DST_IP (ADDR s) ! nat (int k) = SRC_IP (ADDR r)" "DST_PORT (ADDR s) ! nat (int k) = my_port"
    using assms(6,7) by simp_all
  from posts_receive [OF s'(2) assms(1) six ll this] obtain f where f: "WIRE s' = WIRE s @ [f]"
    "receive_frame dispatch_peer my_port (f @ stale) r = dispatch_peer 10 (?L @ stale) (int (length ?L))
      (SRC_IP (ADDR s)) (htons (SRC_PORT (ADDR s))) r" by blast
  have "unat (of_int (int (length ?L)) :: u16) = 30 * length (told s k)"
    unfolding of_int_of_nat_eq using lt by (simp add: unat_of_nat del: of_nat_mult)
  then have n: "NodeResList (?L @ stale) (of_int (int (length ?L))) r =
      Some (r\<lparr>NODES_LIST := foldl node_list.merge (NODES_LIST r) (told s k)\<rparr>)"
    using merge_nodes_all [of "told s k" stale "NODES_LIST r"] unfolding NodeResList_def by simp
  have "dispatch_peer 10 (?L @ stale) (int (length ?L)) (SRC_IP (ADDR s)) (htons (SRC_PORT (ADDR s))) r =
      Some (Ret (r\<lparr>NODES_LIST := foldl node_list.merge (NODES_LIST r) (told s k)\<rparr>))"
    unfolding dispatch_peer_def n by (simp add: ret_def)
  with s'(1) f node_list.lookup_merge_all [OF assms(8), of "told s k"] show ?thesis
    by (auto simp: keyed_def)
qed

text \<open>A parent whose slots all lead to a node at the address of \<open>node1\<close>.\<close>

definition parent1 :: node where
  "parent1 = node1\<lparr>ADDR := addressing0\<lparr>DST_IP := replicate 4 0x0100a8c0, DST_PORT := replicate 4 5000\<rparr>\<rparr>"

lemma parent1_ok:
  "node_wf parent1" "slots_ok parent1" "node_wf node1" "SRC_IP (ADDR node1) = 0x0100a8c0" "SRC_PORT (ADDR node1) = 5000"
  "NODES_LIST node1 = []" "NODES_LIST parent1 = []" "CONNECTED_NODES parent1 = 0" "TIMECODE_OFFSET parent1 = 0"
  "DST_IP (ADDR parent1) = replicate 4 0x0100a8c0" "DST_PORT (ADDR parent1) = replicate 4 5000"
  "NODES_STATUS parent1 = replicate 4 node_status0" "CURRENT_NODE_ID node1 = 0"
  using ready_node1
  by (simp_all add: parent1_def ready_def node_wf_def slots_ok_def conn_of_def addr_ok_def addressing0_def)
    (simp_all add: node1_def node0_sel addressing0_def)

theorem list_exchange_witness:
  "\<exists>s' f r'. SendResList 0 (parent1\<lparr>CONNECTED_NODES := 1, CURRENT_CHILD_NUM := 1,
      NODES_LIST := [node_info0\<lparr>node_id := 7\<rparr>]\<rparr>) = Some s' \<and> WIRE s' = WIRE parent1 @ [f] \<and>
    receive_frame dispatch_peer 5000 (f @ [1]) node1 = Some (Ret r') \<and>
    list_lookup (NODES_LIST r') 7 = Some (node_info0\<lparr>node_id := 7\<rparr>)"
proof -
  let ?s = "parent1\<lparr>CONNECTED_NODES := 1, CURRENT_CHILD_NUM := 1, NODES_LIST := [node_info0\<lparr>node_id := 7\<rparr>]\<rparr>"
  have wf: "node_wf ?s" "slots_ok ?s" using parent1_ok(1,2)
    by (simp_all add: node_wf_def slots_ok_def conn_of_def conn_ok_def connected_bit)
  have i: "node_id node_status0 = 0" by (simp add: node_status0_def node_info0_def node_info.defs block_info.defs)
  have t: "told ?s 0 = [node_info0\<lparr>node_id := 7\<rparr>]"
    by (simp add: told_def others_def without_def connected_bit parent1_ok i)
  have l: "length (NODES_LIST ?s) \<le> 31" by simp
  have a: "DST_IP (ADDR ?s) ! 0 = SRC_IP (ADDR node1)" "DST_PORT (ADDR ?s) ! 0 = 5000" "connected (CONNECTED_NODES ?s) 0"
    "list_wf (NODES_LIST node1)"
    by (simp_all add: parent1_ok connected_bit list_wf_def)
  show ?thesis
    using list_exchange [OF wf _ a(3) l a(1,2,4), of "[1]"] unfolding t
    by (auto simp: keyed_def parent1_ok)
qed

section \<open>Joining\<close>

text \<open>
  C16: A peer that joins gets an identity: the origin counts its last id up, sends it to where the
  request came from, and the peer takes the new id and, as its public address, the address the
  origin saw, whatever it had before.
\<close>

theorem join_exchange:
  assumes "node_wf s" "node_wf r" and "SRC_IP (ADDR r) = ip" "SRC_PORT (ADDR r) = ntohs p"
  shows "\<exists>s' f r'. SendID ip p s = Some s' \<and> CURRENT_NODE_ID s' = CURRENT_NODE_ID s + 1 \<and>
    WIRE s' = WIRE s @ [f] \<and>
    receive_frame dispatch_peer (SRC_PORT (ADDR r)) (f @ stale) r = Some (Ret r') \<and>
    node_id (NODES_STATUS r' ! 3) = CURRENT_NODE_ID s' \<and> ipaddr (NODES_STATUS r' ! 3) = ntohl ip"
proof -
  let ?d = "be_bytes 2 (unat (CURRENT_NODE_ID s + 1)) @ mem32 ip"
  obtain a s' where s': "SendID ip p s = Some s'" "DST_IP a ! 3 = ip" "DST_PORT a ! 3 = ntohs p"
    "node_wf (s\<lparr>CURRENT_NODE_ID := CURRENT_NODE_ID s + 1, ADDR := a\<rparr>)"
    "posts (s\<lparr>CURRENT_NODE_ID := CURRENT_NODE_ID s + 1, ADDR := a\<rparr>) TMP_ID (11 # ?d) s'"
    using SendID_posts [OF assms(1), of ip p] by auto
  have i: "CURRENT_NODE_ID s' = CURRENT_NODE_ID s + 1" using posts_sel(14) [OF s'(5)] by simp
  obtain f where f: "WIRE s' = WIRE s @ [f]" "receive_frame dispatch_peer (SRC_PORT (ADDR r)) (f @ stale) r =
      dispatch_peer 11 (?d @ stale) 6 (SRC_IP a) (htons (SRC_PORT a)) r"
    using posts_receive [OF s'(5,4), of r "SRC_PORT (ADDR r)"] s'(2,3) assms(3,4)
    by (auto simp: TMP_ID_def slot_ix_def)
  let ?r = "r\<lparr>NODES_STATUS := (NODES_STATUS r)[3 := (NODES_STATUS r ! 3)\<lparr>node_id := CURRENT_NODE_ID s + 1,
      ipaddr := ntohl ip\<rparr>]\<rparr>"
  have l: "length (NODES_STATUS r) = 4" using assms(2) by (simp add: node_wf_def)
  have "NodeID (?d @ stale) r = Some ?r"
    using ntohs_load16_be [of "CURRENT_NODE_ID s + 1" "[]"] l
      load32_mem32 [of ip "[]"]
    by (simp add: NodeID_def rdn_def idx_def upd_def MY_ID_def)
  then have "dispatch_peer 11 (?d @ stale) 6 (SRC_IP a) (htons (SRC_PORT a)) r = Some (Ret ?r)"
    by (simp add: dispatch_peer_def ret_def)
  with s'(1) f i l show ?thesis by auto
qed

theorem join_exchange_witness:
  "\<exists>s' f r'. SendID 0x0100a8c0 (htons 5000) node1 = Some s' \<and> WIRE s' = WIRE node1 @ [f] \<and>
    receive_frame dispatch_peer 5000 f node1 = Some (Ret r') \<and>
    node_id (NODES_STATUS r' ! 3) = 1 \<and> ipaddr (NODES_STATUS r' ! 3) = ntohl 0x0100a8c0"
  using join_exchange [OF parent1_ok(3,3,4), of "htons 5000" "[]"] by (auto simp: parent1_ok)

section \<open>The timecode\<close>

text \<open>\<open>(data[i]) << 8*i\<close> for the four low bytes, as long as the sign bit stays clear.\<close>

lemma shl_int_small:
  assumes "k < 32" and "unat b * 2 ^ k < 2 ^ 31"
  shows "shl_int b k = of_nat (unat b * 2 ^ k)"
proof -
  define w where "w = push_bit k (ucast b :: u32)"
  have u: "unat w = unat b * 2 ^ k"
  proof -
    have "w = of_nat (unat b * 2 ^ k)" by (simp add: w_def push_bit_eq_mult)
    then have "unat w = (unat b * 2 ^ k) mod 2 ^ 32" by (simp only: unat_of_nat) simp
    then show ?thesis using assms(2) by simp
  qed
  have "uint w = int (unat w)" by simp
  then have ui: "uint w = int (unat b * 2 ^ k)" by (simp only: u)
  have lt: "int (unat b * 2 ^ k) < 2 ^ 31" using assms(2) by (simp only: of_nat_less_iff [symmetric, where 'a = int] of_nat_power of_nat_numeral)
  have "sint w = signed_take_bit 31 (int (unat b * 2 ^ k))" by (simp only: sint_uint ui) simp
  also have "\<dots> = int (unat b * 2 ^ k)"
    by (rule signed_take_bit_int_eq_self) (use lt in \<open>simp_all del: of_nat_mult\<close>)
  finally have "scast w = (of_int (int (unat b * 2 ^ k)) :: u64)" by (simp only: scast_eq)
  then show ?thesis using assms(1) by (simp add: shl_int_def w_def [symmetric] del: of_nat_mult)
qed

lemma shl_int_0 [simp]: "shl_int 0 k = 0"
  by (simp add: shl_int_def)

lemma timecode_byte:
  "timecode_bytes t ! i = of_nat (unat t div 256 ^ i)" if "i < 8"
  using that by (simp add: timecode_bytes_def byte_of_word)

text \<open>The digits of a number below \<open>2 ^ 31\<close>.\<close>

lemma digits4: "(x :: nat) mod 256 + (x div 256 mod 256) * 256 + (x div 65536 mod 256) * 65536 +
    (x div 16777216) * 16777216 = x"
proof -
  have "x div 256 div 256 = x div 65536" "x div 65536 div 256 = x div 16777216" by (simp_all add: div_mult2_eq [symmetric])
  then show ?thesis
    using div_mult_mod_eq [of x 256] div_mult_mod_eq [of "x div 256" 256] div_mult_mod_eq [of "x div 65536" 256]
    by linarith
qed

lemma add_timecode_small:
  assumes "unat t < 2 ^ 31" and "length pre = p"
  shows "add_timecode (pre @ timecode_bytes t @ r) p [0..<8] z = Some (z + t)"
proof -
  let ?x = "unat t" and ?b = "\<lambda>i. timecode_bytes t ! i"
  have rd: "rd (pre @ timecode_bytes t @ r) (p + i) = Some (?b i)" if "i < 8" for i
    using that assms(2) by (simp add: rd_def nth_append)
  have u: "unat (?b i) = ?x div 256 ^ i mod 256" if "i < 8" for i
    using timecode_byte [OF that] by (simp add: unat_of_nat)
  have hi: "?b i = 0" if "4 \<le> i" "i < 8" for i
  proof -
    have "(256 :: nat) ^ 4 \<le> 256 ^ i" using that by (intro power_increasing) simp_all
    then have "?x div 256 ^ i = 0" using assms(1) by simp
    then show ?thesis using timecode_byte [of i t] that by simp
  qed
  have b3: "?x div 16777216 < 128" using assms(1) by (simp add: less_mult_imp_div_less)
  have s0: "shl_int (?b 0) 0 = of_nat (?x mod 256)" using u [of 0] by (subst shl_int_small) simp_all
  have s1: "shl_int (?b 1) 8 = of_nat ((?x div 256 mod 256) * 256)" using u [of 1] by (subst shl_int_small) simp_all
  have s2: "shl_int (?b 2) 16 = of_nat ((?x div 65536 mod 256) * 65536)" using u [of 2] by (subst shl_int_small) simp_all
  have s3: "shl_int (?b 3) 24 = of_nat ((?x div 16777216) * 16777216)"
    using u [of 3] b3 by (subst shl_int_small) simp_all
  have k: "[0..<8] = [0, 1, 2, 3, 4, 5, 6, 7 :: nat]" by (simp add: upt_rec)
  have "add_timecode (pre @ timecode_bytes t @ r) p [0..<8] z =
      Some (z + shl_int (?b 0) 0 + shl_int (?b 1) 8 + shl_int (?b 2) 16 + shl_int (?b 3) 24)"
    unfolding k add_timecode.simps using rd [of 0] rd [of 1] rd [of 2] by (simp add: rd hi)
  also have "\<dots> = Some (z + of_nat (?x mod 256 + (?x div 256 mod 256) * 256 + (?x div 65536 mod 256) * 65536 +
      (?x div 16777216) * 16777216))"
    unfolding s0 s1 s2 s3 by (simp add: ac_simps)
  finally show ?thesis unfolding digits4 by simp
qed

text \<open>
  C28: The timecode offset survives the trip for the first 24 days of a stream: any offset below
  \<open>2 ^ 31\<close> milliseconds is added exactly.  From there on it does not: the receiver's
  \<^verbatim>\<open>(data[i]) << 8*i\<close> is an \<^verbatim>\<open>int\<close>, so \<open>2 ^ 31\<close> itself arrives as a negative number.
\<close>

theorem timecode_exact:
  "(unat t < 2 ^ 31 \<longrightarrow> add_timecode (pre @ timecode_bytes t @ r) (length pre) [0..<8] z = Some (z + t)) \<and>
   add_timecode (timecode_bytes 0x80000000) 0 [0..<8] 0 = Some (- 0x80000000)"
proof -
  have k: "[0..<8] = [0, 1, 2, 3, 4, 5, 6, 7 :: nat]" by (simp add: upt_rec)
  have b: "timecode_bytes 0x80000000 = [0, 0, 0, 0x80, 0, 0, 0, 0]" unfolding timecode_bytes_def k by simp
  have "shl_int 0x80 24 = - 0x80000000" by (simp add: shl_int_def)
  then have "add_timecode (timecode_bytes 0x80000000) 0 [0..<8] 0 = Some (- 0x80000000)"
    unfolding b k by (simp add: rd_def)
  with add_timecode_small [of t pre "length pre" r z] show ?thesis by blast
qed

theorem timecode_exact_witness:
  "add_timecode (timecode_bytes 123456789) 0 [0..<8] 5 = Some 123456794"
  using timecode_exact [of 123456789 "[]" "[]" 5] by simp

section \<open>The handshake\<close>

lemma info_of_simps [simp]:
  "info_of (copy_node n m) = copy_node node_info0 m"
  "info_of (n\<lparr>timestamp := t\<rparr>) = info_of n"
  by (simp_all add: info_of_def copy_node_def copy_info_def)

lemma stamp_slot_eq:
  assumes "length (NODES_STATUS v) = 4" "slot_ix k"
  shows "\<exists>t. stamp_slot k v = Some (v\<lparr>TICK := TICK v + 1,
    NODES_STATUS := (NODES_STATUS v)[nat k := (NODES_STATUS v ! nat k)\<lparr>timestamp := t\<rparr>]\<rparr>)"
  using assms by (auto simp: stamp_slot_def stamp_def Let_def idx_def upd_def slot_ix_def)

text \<open>
  \<^verbatim>\<open>NodeInitialStatus\<close> on the data \<^verbatim>\<open>SendInitialStatus\<close> makes: the fields it leaves behind.
\<close>

lemma NodeInitialStatus_eq:
  assumes l: "length (NODES_STATUS r) = 4" and t: "unat t < 2 ^ 31"
    and n: "unat n = 68 + 30 * length ns"
  shows "\<exists>r'. NodeInitialStatus (timecode_bytes t @ node_wire a @ node_wire b @ concat (map node_wire ns) @ stale) n r = Some r' \<and>
    info_of (NODES_STATUS r' ! 3) = copy_node node_info0 a \<and> info_of (NODES_STATUS r' ! 2) = copy_node node_info0 b \<and>
    NODE_TIMECODE_OFFSET r' = NODE_TIMECODE_OFFSET r + t \<and> \<not> IS_SETUP r' \<and>
    CONNECTED_NODES r' = CONNECTED_NODES r + 4 \<and> NODES_LIST r' = foldl node_list.learn (NODES_LIST r) ns"
proof -
  let ?D = "timecode_bytes t @ node_wire a @ node_wire b @ concat (map node_wire ns) @ stale"
  have tc: "add_timecode ?D 0 [0..<8] (NODE_TIMECODE_OFFSET r) = Some (NODE_TIMECODE_OFFSET r + t)"
    using add_timecode_small [OF t, of "[]" 0] by simp
  define m where "m = copy_node (NODES_STATUS r ! 3) a"
  have d1: "CopyBytesToNodeStatus (NODES_STATUS r ! 3) (drop 8 ?D) = Some m"
    using CopyBytesToNodeStatus_wire by (simp add: m_def)
  define N where "N = (NODES_STATUS r)[3 := m]"
  define q where "q = copy_node (N ! 2) b"
  have d2: "CopyBytesToNodeStatus (N ! 2) (drop (NODE_STATUS_BYTES + 8) ?D) = Some q"
    using CopyBytesToNodeStatus_wire by (simp add: q_def)
  have "int (unat n - 8) = int (2 + length ns) * 30" using n by simp
  then have sn: "(if 8 \<le> unat n then int (unat n - 8) div int NODE_STATUS_BYTES else 0) - 2 = int (length ns)"
    using n by simp
  have ix: "idx (NODES_STATUS r) MY_ID = Some (NODES_STATUS r ! 3)" "idx N PARENT_ID = Some (N ! 2)"
    "upd (NODES_STATUS r) MY_ID m = Some N" "upd N PARENT_ID q = Some (N[2 := q])"
    using l by (simp_all add: idx_def upd_def MY_ID_def PARENT_ID_def N_def)
  have ln: "learn_nodes ?D (8 + 2 * NODE_STATUS_BYTES) (upto_int 0 (int (length ns))) (NODES_LIST r) =
      Some (foldl node_list.learn (NODES_LIST r) ns)"
    using learn_nodes_all [of "timecode_bytes t @ node_wire a @ node_wire b" 68 ns stale "NODES_LIST r"]
    by (simp add: upto_int_def)
  define v where "v = InitBlock_store (InitCluster (r\<lparr>NODE_TIMECODE_OFFSET := NODE_TIMECODE_OFFSET r + t, NODES_STATUS := N\<rparr>))"
  have vsel: "NODES_STATUS v = N" "NODES_LIST v = NODES_LIST r" "CURRENT_BLOCK v = Some InitBlock"
    "CONNECTED_NODES v = CONNECTED_NODES r" "NODE_TIMECODE_OFFSET v = NODE_TIMECODE_OFFSET r + t"
    by (simp_all add: v_def) (simp add: InitCluster_def InitBlock_store_def Let_def)
  define w where "w = v\<lparr>CURRENT_BLOCK := Some (InitBlock\<lparr>info := (info InitBlock)\<lparr>cluster_seq := cluster_seq m\<rparr>,
          prev := (prev InitBlock)\<lparr>cluster_seq := cluster_seq m\<rparr>\<rparr>), IS_GET_TIMECODE_OFFSET := False,
        NODES_STATUS := N[2 := q], CONNECTED_NODES := CONNECTED_NODES r + push_bit (nat PARENT_ID) 1,
        NODES_LIST := foldl node_list.learn (NODES_LIST r) ns,
        LISTUPDATE_TIMESTAMP := UpdateTimestamp (START_TIMESTAMP v) (CLOCK v (TICK v)), TICK := TICK v + 2,
        DEPART_TIMESTAMP := UpdateTimestamp (START_TIMESTAMP v) (CLOCK v (TICK v + 1))\<rparr>"
  have run: "NodeInitialStatus ?D n r = do { s \<leftarrow> stamp_slot PARENT_ID w; Some (s\<lparr>IS_SETUP := False\<rparr>) }"
    unfolding NodeInitialStatus_def Let_def sn w_def tc stamp_def Option.bind.bind_lunit
    using d2 by (simp add: ix d1 v_def [symmetric] vsel ln del: NODE_STATUS_BYTES_def drop_append)
  have wsel: "NODES_STATUS w = N[2 := q]" "length (NODES_STATUS w) = 4"
    "NODE_TIMECODE_OFFSET w = NODE_TIMECODE_OFFSET r + t" "CONNECTED_NODES w = CONNECTED_NODES r + 4"
    "NODES_LIST w = foldl node_list.learn (NODES_LIST r) ns"
    using l by (simp_all add: w_def vsel N_def PARENT_ID_def)
  obtain ts where ts: "stamp_slot PARENT_ID w = Some (w\<lparr>TICK := TICK w + 1,
      NODES_STATUS := (NODES_STATUS w)[2 := (NODES_STATUS w ! 2)\<lparr>timestamp := ts\<rparr>]\<rparr>)"
    using stamp_slot_eq [OF wsel(2) slot_ix_simps(1)] by (auto simp: PARENT_ID_def)
  show ?thesis unfolding run ts using l by (simp add: wsel N_def m_def q_def)
qed

lemma copy_node_info_of: "copy_node node_info0 n = info_of n" for n :: node_status
  by (simp add: info_of_def)



end
