(* ===== verification/Recording.thy ===== *)
theory Recording
  imports Store
begin

text \<open>
  What a peer makes of the packets of a stream: an abstract recorder that knows nothing of files,
  offsets and size fields, and the proof that \<^verbatim>\<open>AssembleBlock\<close> of \<^verbatim>\<open>src/src/common/webm_parser.c\<close>,
  packet after packet, implements it.
\<close>

section \<open>Packets\<close>

text \<open>
  The data of a block: those of a first block begin with the timecode of its cluster, an element with
  a size field of \<open>k\<close> bytes and the timestamp \<open>t\<close>.
\<close>

datatype payload = Timed nat bytes bytes | Plain bytes

definition timecode_element :: "nat \<Rightarrow> bytes \<Rightarrow> bytes" where
  "timecode_element k t = be_bytes 1 0xe7 @ vint k (length t) @ t"

primrec payload_enc :: "payload \<Rightarrow> bytes" where
  "payload_enc (Timed k t r) = timecode_element k t @ r"
| "payload_enc (Plain xs) = xs"

primrec payload_ok :: "payload \<Rightarrow> bool" where
  "payload_ok (Timed k t r) \<longleftrightarrow> vint_ok k (length t) \<and> length t \<le> 8"
| "payload_ok (Plain xs) \<longleftrightarrow> True"

definition is_timed :: "payload \<Rightarrow> bool" where
  "is_timed x \<longleftrightarrow> (case x of Timed k t r \<Rightarrow> True | Plain xs \<Rightarrow> False)"

text \<open>A block on its way: its description, its data, and what is behind it in the receive buffer.\<close>

type_synonym packet = "block_info \<times> payload \<times> bytes"

definition packet_ok :: "packet \<Rightarrow> bool" where
  "packet_ok = (\<lambda>(i, x, stale). unat (bytes i) = length (payload_enc x) \<and> payload_ok x \<and>
     (seq i = 1 \<longleftrightarrow> is_timed x) \<and> info_wire i \<noteq> BLOCKINFO_START \<and> info_wire i \<noteq> BLOCKINFO_END)"

definition packet_mem :: "packet \<Rightarrow> bytes" where
  "packet_mem = (\<lambda>(i, x, stale). info_wire i @ payload_enc x @ stale)"

definition packet_size :: "packet \<Rightarrow> u16" where
  "packet_size = (\<lambda>(i, x, stale). of_nat (18 + length (payload_enc x)))"

fun assemble_all :: "(bytes \<times> u16) list \<Rightarrow> 'a store_scheme \<Rightarrow> ('a store_scheme, 'a store_scheme) run option" where
  "assemble_all [] s = Some (Ret s)"
| "assemble_all ((d, n) # ps) s = do { r \<leftarrow> AssembleBlock d n s; cont r (assemble_all ps) }"

section \<open>The abstract recorder\<close>

text \<open>
  The bytes in front of the open cluster, the data of the open cluster, its number and the number of
  the one before it, the number of the last block, and the timestamp that became zero.
\<close>

record recording =
  closed :: bytes
  opened :: bytes
  open_seq :: u16
  prev_seq :: u32
  latest :: u32
  zero_time :: "u64 option"

text \<open>A block is dropped as old by comparison with the cluster before the open one.\<close>

definition fresh :: "block_info \<Rightarrow> recording \<Rightarrow> bool" where
  "fresh i R \<longleftrightarrow> prev_seq R < ucast (cluster_seq i) \<or>
     prev_seq R = ucast (cluster_seq i) \<and> latest R < seq i"

primrec rebase :: "u64 \<Rightarrow> u64 option \<Rightarrow> payload \<Rightarrow> bytes \<times> u64 option" where
  "rebase nd z (Timed k t r) =
     (let a = of_nat (be_val t) + nd; z = (case z of None \<Rightarrow> a | Some z \<Rightarrow> z)
      in (timecode_element k (be_bytes (length t) (unat (a - z))) @ r, Some z))"
| "rebase nd z (Plain xs) = (xs, z)"

definition absorb :: "u64 \<Rightarrow> packet \<Rightarrow> recording \<Rightarrow> recording" where
  "absorb nd = (\<lambda>(i, x, stale) R.
     if \<not> fresh i R then R
     else let (xs, z) = rebase nd (zero_time R) x
          in if cluster_seq i = open_seq R then R\<lparr>opened := opened R @ xs, latest := seq i, zero_time := z\<rparr>
             else \<lparr>closed = closed R @ cluster_enc (opened R), opened = xs, open_seq = cluster_seq i,
               prev_seq = ucast (open_seq R), latest = seq i, zero_time = z\<rparr>)"

section \<open>The simulation\<close>

definition records :: "u64 \<Rightarrow> recording \<Rightarrow> 'a store_scheme \<Rightarrow> bool" where
  "records nd R s \<longleftrightarrow> file_inv (closed R) (opened R) s \<and>
     (\<exists>b. CURRENT_BLOCK s = Some b \<and> cluster_seq (prev b) = open_seq R) \<and>
     cl_seqs s = Some (ucast (open_seq R), prev_seq R) \<and> LATEST_BLOCK_SEQ s = latest R \<and>
     NODE_TIMECODE_OFFSET s = nd \<and>
     zero_time R = (if IS_GET_TIMECODE_OFFSET s then Some (TIMECODE_OFFSET s) else None)"

lemma IsOldBlockSeq_fresh:
  assumes "records nd R s"
  shows "IsOldBlockSeq i s = Some (\<not> fresh i R)"
proof -
  obtain c where "CURRENT_CLUSTER s = Some c" "cl_seq (cl_prev c) = prev_seq R" "LATEST_BLOCK_SEQ s = latest R"
    using assms by (auto simp: records_def cl_seqs_def)
  then show ?thesis by (auto simp: IsOldBlockSeq_def Let_def fresh_def)
qed

lemma rebase_length:
  "payload_ok x \<Longrightarrow> length (fst (rebase nd z x)) = length (payload_enc x)"
  by (cases x) (auto simp: Let_def timecode_element_def vint_ok_def)

lemma ChangeTimecode_timed:
  assumes "payload_ok (Timed k t r)"
  shows "\<exists>u. ChangeTimecode (payload_enc (Timed k t r) @ stale) s =
      Some (Ret (fst (rebase (NODE_TIMECODE_OFFSET s)
        (if IS_GET_TIMECODE_OFFSET s then Some (TIMECODE_OFFSET s) else None) (Timed k t r)) @ stale, u)) \<and>
    IS_GET_TIMECODE_OFFSET u \<and> Some (TIMECODE_OFFSET u) = snd (rebase (NODE_TIMECODE_OFFSET s)
        (if IS_GET_TIMECODE_OFFSET s then Some (TIMECODE_OFFSET s) else None) (Timed k t r))"
proof -
  have ok: "length t \<le> 8" "vint_ok k (length t)" using assms by simp_all
  have l: "length (be_bytes (length t) v) = length t" for v by simp
  show ?thesis
    using timecode_rebase [OF ok, of "r @ stale" s] unfolding payload_enc.simps rebase.simps timecode_element_def l
    by (auto simp: Let_def)
qed

definition rec_size :: "recording \<Rightarrow> nat" where
  "rec_size R = length (closed R) + 12 + length (opened R)"

lemma records_size: "records nd R s \<Longrightarrow> length (FILE s) = rec_size R"
  by (auto simp: records_def file_inv_def rec_size_def)

lemma absorb_size:
  assumes "payload_ok x"
  shows "rec_size (absorb nd (i, x, stale) R) \<le> rec_size R + 12 + length (payload_enc x)"
  using rebase_length [OF assms, of nd "zero_time R"]
  by (auto simp: absorb_def rec_size_def cluster_enc_def split: prod.split)

lemma packet_parts:
  assumes "packet_ok (i, x, stale)"
  shows "take 18 (packet_mem (i, x, stale)) = info_wire i"
    "drop 18 (packet_mem (i, x, stale)) = payload_enc x @ stale"
    "CopyBytesToBlockInfo block_info0 (packet_mem (i, x, stale)) = Some i"
    "unat (bytes i) + 18 \<le> length (packet_mem (i, x, stale))"
  using assms info_codec.get_wire [of block_info0 i "payload_enc x @ stale"]
  by (simp_all add: packet_mem_def packet_ok_def)

text \<open>The data as they are recorded, and the offset afterwards.\<close>

lemma packet_data:
  fixes s :: "'a store_scheme"
  assumes "packet_ok (i, x, stale)" and "records nd R s"
  obtains pd where "if seq i = 1 then \<exists>t. ChangeTimecode (payload_enc x @ stale) s = Some (Ret (pd, t))
      else pd = payload_enc x @ stale"
    "take (unat (bytes i)) pd = fst (rebase nd (zero_time R) x)"
    "\<And>s' :: 'a store_scheme. if seq i = 1 then \<exists>u. ChangeTimecode (payload_enc x @ stale) s = Some (Ret (pd, u)) \<and>
         IS_GET_TIMECODE_OFFSET s' = IS_GET_TIMECODE_OFFSET u \<and> TIMECODE_OFFSET s' = TIMECODE_OFFSET u
       else IS_GET_TIMECODE_OFFSET s' = IS_GET_TIMECODE_OFFSET s \<and> TIMECODE_OFFSET s' = TIMECODE_OFFSET s
       \<Longrightarrow> snd (rebase nd (zero_time R) x) = (if IS_GET_TIMECODE_OFFSET s' then Some (TIMECODE_OFFSET s') else None)"
proof -
  have z: "zero_time R = (if IS_GET_TIMECODE_OFFSET s then Some (TIMECODE_OFFSET s) else None)"
    "NODE_TIMECODE_OFFSET s = nd" using assms(2) by (auto simp: records_def)
  have n: "unat (bytes i) = length (payload_enc x)" "payload_ok x" using assms(1) by (auto simp: packet_ok_def)
  have l: "length (fst (rebase nd (zero_time R) x)) = unat (bytes i)" using rebase_length [OF n(2)] n(1) by simp
  show thesis
  proof (cases x)
    case (Timed k t r)
    with assms(1) have "seq i = 1" "payload_ok (Timed k t r)" by (auto simp: packet_ok_def is_timed_def)
    moreover obtain u where "ChangeTimecode (payload_enc x @ stale) s =
        Some (Ret (fst (rebase nd (zero_time R) x) @ stale, u))" "IS_GET_TIMECODE_OFFSET u"
        "Some (TIMECODE_OFFSET u) = snd (rebase nd (zero_time R) x)"
      using ChangeTimecode_timed [OF calculation(2), of stale s] unfolding z Timed by blast
    ultimately show thesis using l
      by (intro that [of "fst (rebase nd (zero_time R) x) @ stale"]) (auto simp: l [symmetric])
  next
    case (Plain xs)
    with assms(1) have "seq i \<noteq> 1" by (simp add: packet_ok_def is_timed_def)
    with Plain z l show thesis by (intro that [of "xs @ stale"]) auto
  qed
qed

lemma absorb_step:
  fixes s :: "'a store_scheme"
  assumes R: "records nd R s" and ok: "packet_ok (i, x, stale)"
    and room: "rec_size R + 12 + length (payload_enc x) < 2 ^ 56" "rec_size R + 12 + length (payload_enc x) \<le> FILE_LIMIT s"
  obtains s' where "AssembleBlock (packet_mem (i, x, stale)) n s = Some (Ret s')"
    "records nd (absorb nd (i, x, stale) R) s'" "FILE_LIMIT s' = FILE_LIMIT s"
proof (cases "fresh i R")
  case False
  then have "AssembleBlock (packet_mem (i, x, stale)) n s = Some (Ret s)"
    using ok IsOldBlockSeq_fresh [OF R, of i] packet_parts(1,3) [OF ok]
    by (simp add: AssembleBlock_def assemble_block_def rdn_def packet_mem_def packet_ok_def Let_def)
  moreover have "absorb nd (i, x, stale) R = R" using False by (simp add: absorb_def)
  ultimately show thesis using R by (intro that) simp_all
next
  case True
  note P = packet_parts [OF ok]
  obtain b where b: "CURRENT_BLOCK s = Some b" "cluster_seq (prev b) = open_seq R" and inv: "file_inv (closed R) (opened R) s"
    and q: "cl_seqs s = Some (ucast (open_seq R), prev_seq R)"
    using R by (auto simp: records_def)
  have n: "unat (bytes i) = length (payload_enc x)" using ok by (simp add: packet_ok_def)
  obtain pd where pd: "if seq i = 1 then \<exists>t. ChangeTimecode (payload_enc x @ stale) s = Some (Ret (pd, t))
      else pd = payload_enc x @ stale"
    "take (unat (bytes i)) pd = fst (rebase nd (zero_time R) x)"
    "\<And>s' :: 'a store_scheme. if seq i = 1 then \<exists>u. ChangeTimecode (payload_enc x @ stale) s = Some (Ret (pd, u)) \<and>
         IS_GET_TIMECODE_OFFSET s' = IS_GET_TIMECODE_OFFSET u \<and> TIMECODE_OFFSET s' = TIMECODE_OFFSET u
       else IS_GET_TIMECODE_OFFSET s' = IS_GET_TIMECODE_OFFSET s \<and> TIMECODE_OFFSET s' = TIMECODE_OFFSET s
       \<Longrightarrow> snd (rebase nd (zero_time R) x) = (if IS_GET_TIMECODE_OFFSET s' then Some (TIMECODE_OFFSET s') else None)"
    using packet_data [OF ok R] by metis
  have mark: "take 18 (packet_mem (i, x, stale)) \<noteq> BLOCKINFO_START" "take 18 (packet_mem (i, x, stale)) \<noteq> BLOCKINFO_END"
    using ok by (simp_all only: P(1)) (auto simp: packet_ok_def)
  have pdx: "if seq i = 1 then \<exists>t. ChangeTimecode (drop 18 (packet_mem (i, x, stale))) s = Some (Ret (pd, t))
      else pd = drop 18 (packet_mem (i, x, stale))" using pd(1) by (simp only: P(2))
  have room': "length (FILE s) + 12 + unat (bytes i) < 2 ^ 56" "length (FILE s) + 12 + unat (bytes i) \<le> FILE_LIMIT s"
    using room records_size [OF R] n by simp_all
  have new: "IsOldBlockSeq i s = Some False" using IsOldBlockSeq_fresh [OF R] True by simp
  obtain s' where s': "AssembleBlock (packet_mem (i, x, stale)) n s = Some (Ret s')"
    "if cluster_seq (prev b) = cluster_seq i
     then file_inv (closed R) (opened R @ take (unat (bytes i)) pd) s' \<and> cl_seqs s' = Some (ucast (open_seq R), prev_seq R)
     else file_inv (closed R @ cluster_enc (opened R)) (take (unat (bytes i)) pd) s' \<and>
       cl_seqs s' = Some (ucast (cluster_seq i), ucast (open_seq R))"
    "LATEST_BLOCK_SEQ s' = seq i" "TOTAL_BLOCK_NUM s' = TOTAL_BLOCK_NUM s + 1"
    "CURRENT_BLOCK s' = Some \<lparr>info = block_info0, prev = i\<rparr>"
    "FILE_LIMIT s' = FILE_LIMIT s" "NODE_TIMECODE_OFFSET s' = NODE_TIMECODE_OFFSET s"
    "if seq i = 1 then \<exists>u. ChangeTimecode (drop 18 (packet_mem (i, x, stale))) s = Some (Ret (pd, u)) \<and>
       IS_GET_TIMECODE_OFFSET s' = IS_GET_TIMECODE_OFFSET u \<and> TIMECODE_OFFSET s' = TIMECODE_OFFSET u
     else IS_GET_TIMECODE_OFFSET s' = IS_GET_TIMECODE_OFFSET s \<and> TIMECODE_OFFSET s' = TIMECODE_OFFSET s"
    by (rule assemble_step [OF inv b(1) q P(3) mark new pdx P(4) room'])
  have "records nd (absorb nd (i, x, stale) R) s'"
    using s'(2,3,5,7) pd(2) pd(3) [OF s'(8) [unfolded P(2)]] R True b(2)
    by (auto simp: records_def absorb_def case_prod_beta)
  then show thesis by (rule that [OF s'(1) _ s'(6)])
qed

lemma fold_absorb_size:
  assumes "\<forall>p \<in> set ps. packet_ok p"
  shows "rec_size (fold (absorb nd) ps R) \<le> rec_size R + (\<Sum>(i, x, stale) \<leftarrow> ps. 12 + length (payload_enc x))"
  using assms
proof (induction ps arbitrary: R)
  case Nil
  then show ?case by simp
next
  case (Cons p ps)
  obtain i x st where p: "p = (i, x, st)" by (cases p) auto
  have "payload_ok x" using Cons.prems p by (simp add: packet_ok_def)
  from absorb_size [OF this, of nd i st R] Cons.IH [of "absorb nd p R"] Cons.prems p show ?case by simp
qed

text \<open>Packet after packet.\<close>

lemma recorder_refines:
  assumes "records nd R s" and "\<forall>p \<in> set ps. packet_ok p"
    and "rec_size R + (\<Sum>(i, x, stale) \<leftarrow> ps. 12 + length (payload_enc x)) < 2 ^ 56"
    and "rec_size R + (\<Sum>(i, x, stale) \<leftarrow> ps. 12 + length (payload_enc x)) \<le> FILE_LIMIT s"
  shows "\<exists>s'. assemble_all (map (\<lambda>p. (packet_mem p, packet_size p)) ps) s = Some (Ret s') \<and>
    records nd (fold (absorb nd) ps R) s' \<and> FILE_LIMIT s' = FILE_LIMIT s"
  using assms
proof (induction ps arbitrary: R s)
  case Nil
  then show ?case by simp
next
  case (Cons p ps)
  obtain i x stale where p: "p = (i, x, stale)" by (cases p) auto
  have ok: "packet_ok (i, x, stale)" using Cons.prems(2) p by simp
  obtain s1 where s1: "AssembleBlock (packet_mem (i, x, stale)) (packet_size p) s = Some (Ret s1)"
    "records nd (absorb nd (i, x, stale) R) s1" "FILE_LIMIT s1 = FILE_LIMIT s"
    by (rule absorb_step [OF Cons.prems(1) ok]) (use Cons.prems(3,4) p in auto)
  have "payload_ok x" using ok by (simp add: packet_ok_def)
  from absorb_size [OF this, of nd i stale R] Cons.IH [OF s1(2)] Cons.prems s1 p show ?case by auto
qed

section \<open>A whole stream\<close>

lemma assemble_all_append:
  "assemble_all (ps @ qs) s = do { r \<leftarrow> assemble_all ps s; cont r (assemble_all qs) }"
proof (induction ps arbitrary: s)
  case Nil
  then show ?case by simp
next
  case (Cons p ps)
  obtain d n where p: "p = (d, n)" by fastforce
  show ?case
  proof (cases "AssembleBlock d n s")
    case None
    then show ?thesis by (simp add: p)
  next
    case (Some r)
    with Cons.IH show ?thesis by (cases r) (simp_all add: p)
  qed
qed

text \<open>What the recorder holds after the header packet.\<close>

definition recording0 :: "bytes \<Rightarrow> 'a store_scheme \<Rightarrow> Cluster \<Rightarrow> Block \<Rightarrow> recording" where
  "recording0 h s c b = \<lparr>closed = h, opened = [], open_seq = cluster_seq (prev b), prev_seq = cl_seq (cl_prev c),
     latest = LATEST_BLOCK_SEQ s,
     zero_time = (if IS_GET_TIMECODE_OFFSET s then Some (TIMECODE_OFFSET s) else None)\<rparr>"

text \<open>
  C2: The file of a peer.  From the header packet to the end mark, whatever blocks arrive - late
  ones, repeated ones, blocks of any cluster - the peer's file is that of the abstract recorder: the
  header, every closed cluster with its real size in front of exactly the bytes it was given, the
  last cluster, and the footer; the program exits there.  A block is dropped exactly when it is not
  \<open>fresh\<close>, which compares it with the cluster before the open one, so a block that is repeated within
  the open cluster is recorded twice.
\<close>

theorem stream_recorded:
  assumes "length h \<le> 1453" and "FILE s = []" "FP s = 0" "CURRENT_CLUSTER s = Some c" "CURRENT_BLOCK s = Some b"
    and "CURRENT_BLOCKINFO s = [j]" "CURRENT_BLOCK_NUM s = 0" "TOTAL_FILE_BYTES s = 0"
    and "cluster_seq (info b) = cluster_seq (prev b)" and "\<forall>p \<in> set ps. packet_ok p"
    and "length h + (\<Sum>(i, x, stale) \<leftarrow> ps. 12 + length (payload_enc x)) + 24 < 2 ^ 56"
    and "length h + (\<Sum>(i, x, stale) \<leftarrow> ps. 12 + length (payload_enc x)) + 24 \<le> FILE_LIMIT s"
    and "R = fold (absorb (NODE_TIMECODE_OFFSET s)) ps (recording0 h s c b)"
  shows "\<exists>s'. assemble_all ((BLOCKINFO_START @ h, of_nat (18 + length h)) #
      map (\<lambda>p. (packet_mem p, packet_size p)) ps @ [(BLOCKINFO_END @ stale, 18)]) s = Some (Exit s') \<and>
    FILE s' = closed R @ cluster_enc (opened R) @ cluster_hdr (2 ^ 56 - 1)"
proof -
  define n :: u16 where "n = of_nat (18 + length h)"
  have n: "unat n = 18 + length h" using assms(1) by (simp add: n_def unat_of_nat del: of_nat_add)
  have start: "take 18 (BLOCKINFO_START @ h) = BLOCKINFO_START" "18 \<le> length (BLOCKINFO_START @ h)"
    by (simp_all add: BLOCKINFO_START_def)
  have lb: "length BLOCKINFO_START = 18" "length BLOCKINFO_END = 18"
    by (simp_all add: BLOCKINFO_START_def BLOCKINFO_END_def)
  obtain s1 where s1: "AssembleBlock (BLOCKINFO_START @ h) n s = Some (Ret s1)" "file_inv h [] s1"
    "cl_seqs s1 = Some (ucast (cluster_seq (info b)), cl_seq (cl_prev c))" "CURRENT_BLOCK s1 = Some b"
    "LATEST_BLOCK_SEQ s1 = LATEST_BLOCK_SEQ s" "FILE_LIMIT s1 = FILE_LIMIT s"
    "NODE_TIMECODE_OFFSET s1 = NODE_TIMECODE_OFFSET s" "IS_GET_TIMECODE_OFFSET s1 = IS_GET_TIMECODE_OFFSET s"
    "TIMECODE_OFFSET s1 = TIMECODE_OFFSET s"
    using assemble_begin [OF start(2,1) assms(2-8), of n] n assms(12) by (auto simp: lb)
  have R1: "records (NODE_TIMECODE_OFFSET s) (recording0 h s c b) s1"
    using s1 assms(9) by (simp add: records_def recording0_def)
  have z: "rec_size (recording0 h s c b) = length h + 12" by (simp add: rec_size_def recording0_def)
  from recorder_refines [OF R1 assms(10)] assms(11-13) obtain s2 where
    s2: "assemble_all (map (\<lambda>p. (packet_mem p, packet_size p)) ps) s1 = Some (Ret s2)"
    "records (NODE_TIMECODE_OFFSET s) R s2" "FILE_LIMIT s2 = FILE_LIMIT s"
    unfolding z s1(6) by auto
  have inv: "file_inv (closed R) (opened R) s2" using s2(2) by (simp add: records_def)
  have "length (FILE s2) + 12 \<le> FILE_LIMIT s2"
    using fold_absorb_size [OF assms(10), of "NODE_TIMECODE_OFFSET s" "recording0 h s c b"] assms(12,13) records_size [OF s2(2)] s2(3) z
    by simp
  from assemble_finish [OF inv _ _ this, of "BLOCKINFO_END @ stale" 18] s1(1) s2(1) show ?thesis
    unfolding n_def [symmetric] by (auto simp: assemble_all_append lb)
qed

theorem stream_recorded_witness:
  "\<exists>s'. assemble_all ((BLOCKINFO_START @ [0x1a, 0x45], 20) #
      map (\<lambda>p. (packet_mem p, packet_size p))
       [(block_info0\<lparr>seq := 1, bytes := 4, status := 2, cluster_seq := 1\<rparr>, Timed 1 [9] [8], [7]),
        (block_info0\<lparr>seq := 2, bytes := 1, status := 2, cluster_seq := 1\<rparr>, Plain [6], []),
        (block_info0\<lparr>seq := 1, bytes := 4, status := 2, cluster_seq := 2\<rparr>, Timed 1 [12] [5], [])] @
      [(BLOCKINFO_END @ [], 18)])
     (store0 []) = Some (Exit s') \<and>
    FILE s' = ([0x1a, 0x45] @ cluster_enc [] @ cluster_enc [0xe7, 0x81, 0, 8, 6]) @ cluster_enc [0xe7, 0x81, 3, 5] @
      cluster_hdr (2 ^ 56 - 1)"
proof -
  define ps :: "packet list" where "ps =
       [(block_info0\<lparr>seq := 1, bytes := 4, status := 2, cluster_seq := 1\<rparr>, Timed 1 [9] [8], [7]),
        (block_info0\<lparr>seq := 2, bytes := 1, status := 2, cluster_seq := 1\<rparr>, Plain [6], []),
        (block_info0\<lparr>seq := 1, bytes := 4, status := 2, cluster_seq := 2\<rparr>, Timed 1 [12] [5], [])]"
  let ?c = "\<lparr>cl = \<lparr>cl_info = Chank0\<lparr>id_bytes := 4\<rparr>, cl_pos = 0, cl_seq = 0, cl_option = 0\<rparr>,
     cl_prev = \<lparr>cl_info = Chank0, cl_pos = 0, cl_seq = 0, cl_option = 0\<rparr>\<rparr>"
  let ?b = "\<lparr>info = block_info0, prev = block_info0\<rparr>"
  have ok: "\<forall>p \<in> set ps. packet_ok p" unfolding ps_def by code_simp
  have sm: "(\<Sum>(i, x, stale) \<leftarrow> ps. 12 + length (payload_enc x)) = 45" unfolding ps_def by code_simp
  define R where "R = fold (absorb (NODE_TIMECODE_OFFSET (store0 []))) ps (recording0 [0x1a, 0x45] (store0 []) ?c ?b)"
  have z: "recording0 [0x1a, 0x45] (store0 []) ?c ?b = \<lparr>closed = [0x1a, 0x45], opened = [], open_seq = 0, prev_seq = 0,
      latest = 0, zero_time = None\<rparr>" by (simp add: recording0_def store0_def webm0_def webm.defs block_info0_def)
  have Rv: "closed R = [0x1a, 0x45] @ cluster_enc [] @ cluster_enc [0xe7, 0x81, 0, 8, 6]" "opened R = [0xe7, 0x81, 3, 5]"
    unfolding R_def z store0_sel(10) ps_def by code_simp+
  show ?thesis
    using stream_recorded [of "[0x1a, 0x45]" "store0 []" ?c ?b block_info0 ps R "[]"] ok sm R_def
    unfolding ps_def [symmetric] Rv by (simp add: store0_sel)
qed

end
