(* ===== verification/Streaming.thy ===== *)
theory Streaming
  imports Exchange Recording
begin

text \<open>
  A block on its way from the file of one node into the file of another: \<^verbatim>\<open>SendCacheBlock\<close> of the
  parent, a frame, and \<^verbatim>\<open>Receive\<close> with \<^verbatim>\<open>AssembleBlock\<close> of the child.
\<close>

section \<open>Sending a block\<close>

lemma skip_clusters_more:
  fixes w :: "'a webm_scheme"
  shows "skip_clusters n p w = Some (q, w') \<Longrightarrow> \<exists>r. w' = w\<lparr>FP := r\<rparr>"
proof (induction n arbitrary: p w)
  case 0
  then show ?case by (auto intro: exI [of _ "FP w"])
next
  case (Suc n)
  define w1 where "w1 = SeekABSWebM p FposLocal w"
  obtain xs w2 where w2: "fread (read_bytes CLUSTER_HEADER_BYTES (TOTAL_FILE_BYTES w1 - p)) w1 = (xs, w2)"
    by fastforce
  from Suc.prems w2 obtain q' where "skip_clusters n q' w2 = Some (q, w')"
    by (auto simp: w1_def [symmetric] Let_def bind_eq_Some_conv simp del: seek_frame)
  from Suc.IH [OF this] w2 show ?case
    by (auto simp: w1_def fread_def Let_def file_defs)
qed

text \<open>What \<^verbatim>\<open>SearchWebM\<close> finds in the file from \<open>off\<close> on, in a buffer of 1000 zeros.\<close>

definition cache_body :: "nat \<Rightarrow> bytes \<Rightarrow> bytes" where
  "cache_body off f = take 1000 (drop off f) @ replicate (1000 - length (drop off f)) 0"

lemma length_cache_body [simp]: "length (cache_body off f) = 1000"
  by (simp add: cache_body_def)

lemma SearchWebM_body:
  assumes "FP w = off" "off \<le> length (FILE w)" "TOTAL_FILE_BYTES w = int (length (FILE w))" "length (FILE w) < 2 ^ 62"
  shows "\<exists>r. SearchWebM (replicate 1000 0) 1000 (int off) w = Some (cache_body off (FILE w), w\<lparr>FP := r\<rparr>)"
proof -
  have "read_bytes 1000 (TOTAL_FILE_BYTES w - int off) = min 1000 (length (FILE w) - off)"
    using assms by (subst read_bytes_le) (auto simp: nat_diff_distrib)
  then show ?thesis using assms
    by (auto simp: SearchWebM_def fread_def Let_def wrn_def cache_body_def min_def)
qed

text \<open>The packet sent holds the description of the next block and its bytes from the file.\<close>

lemma SendCacheBlock_posts:
  fixes s :: node
  assumes "node_wf s" "slot_ix k" and f: "FILE s = hdr @ concat cs @ rest" "list_all cluster_ok cs"
    and t: "TOTAL_FILE_BYTES s = int (length (FILE s))" "length (FILE s) < 2 ^ 62"
    and h: "unat (WEBM_HEADER_total_bytes s) = length hdr"
    and q: "unat (ucast (cluster_seq (prev b)) - FIRST_CLUSTER_SEQ s :: u32) = length cs"
    and off: "off = length (hdr @ concat cs) + unat (pos (prev b) + ucast (bytes (prev b)))" "off \<le> length (FILE s)"
    and g: "GetNextBlockByBytes b 1000 (cache_body off (FILE s)) = Some (b', st)"
    and n: "unat (bytes (info b')) \<le> 1000"
  shows "\<exists>s' p q. SendCacheBlock b k s = Some (st, b', s') \<and>
    posts (s\<lparr>FP := p, CURRENT_FPOS_R := q\<rparr>) k (1 # info_wire (info b') @ take (unat (bytes (info b'))) (cache_body off (FILE s))) s'"
proof -
  obtain w1 where w1: "skip_clusters (length cs) (int (length hdr)) s = Some (int (length hdr + length (concat cs)), w1)"
    "FILE w1 = FILE s"
    using skip_clusters_ok [OF f(2,1) t] by blast
  obtain p1 where p1: "w1 = s\<lparr>FP := p1\<rparr>" using skip_clusters_more [OF w1(1)] by blast
  have c: "CalOffset (prev b) s = Some (int off, w1)"
    using w1(1) h q by (simp add: CalOffset_def off(1))
  define w2 where "w2 = s\<lparr>FP := off, CURRENT_FPOS_R := int off\<rparr>"
  have seek: "SeekABSWebM (int off) FposR w1 = w2"
    by (simp add: w2_def p1 file_defs Let_def)
  have w2: "FP w2 = off" "FILE w2 = FILE s" "TOTAL_FILE_BYTES w2 = int (length (FILE s))"
    using t(1) by (simp_all add: w2_def)
  obtain r where u: "SearchWebM (replicate 1000 0) 1000 (int off) w2 = Some (cache_body off (FILE s), w2\<lparr>FP := r\<rparr>)"
    using SearchWebM_body [OF w2(1)] off(2) t(2) w2(2,3) by auto
  define u where "u = s\<lparr>FP := r, CURRENT_FPOS_R := int off\<rparr>"
  have uw: "w2\<lparr>FP := r\<rparr> = u" by (simp add: u_def w2_def)
  have wf: "node_wf u" using assms(1) by (simp add: u_def node_wf_def)
  define body where "body = cache_body off (FILE s)"
  define i where "i = info b'"
  have buf: "drop (BLOCKINFO_BYTES + DATA_HDR_BYTES) (data_buf BLOCK_PROTO) = replicate 1000 0"
    "take (BLOCKINFO_BYTES + DATA_HDR_BYTES) (data_buf BLOCK_PROTO) = 1 # replicate 18 0"
    by (simp_all add: data_buf_def DATA_HDR_BYTES_def MAX_DATA_BYTES_def MAX_BLOCK_BYTES_def)
  have w: "CopyBlockInfoToBytes ((1 # replicate 18 0) @ body) DATA_HDR_BYTES i = Some (1 # info_wire i @ body)"
    by (simp add: CopyBlockInfoToBytes_wire wrn_def DATA_HDR_BYTES_def)
  define nn where "nn = bytes i + of_nat (BLOCKINFO_BYTES + DATA_HDR_BYTES)"
  have nn: "unat nn = 19 + unat (bytes i)"
    using n by (simp add: nn_def DATA_HDR_BYTES_def i_def unat_word_ariths)
  obtain s' where s': "SendPacket (1 # info_wire i @ body) nn k u = Some s'"
    "posts u k (take (unat nn) (1 # info_wire i @ body)) s'"
    using SendPacket_posts [of u k nn "1 # info_wire i @ body"] wf assms(1,2) nn n
    by (auto simp: body_def i_def)
  have "take (unat nn) (1 # info_wire i @ body) = 1 # info_wire i @ take (unat (bytes i)) body"
    by (simp add: nn take_Cons')
  moreover have "SendCacheBlock b k s = Some (st, b', s')"
    using s'(1) u(1) g w
    unfolding SendCacheBlock_def SeekABSForNextBlock_def c buf MAX_BLOCK_BYTES_def
    by (simp add: seek uw body_def [symmetric] i_def [symmetric] nn_def)
  ultimately show ?thesis using s'(2) unfolding u_def i_def body_def by metis
qed

section \<open>From file to file\<close>


text \<open>A parent in the middle of a chunk of three pieces, and a child that waits for the second one.\<close>

definition cut_block :: Block where
  "cut_block = \<lparr>info = block_info0, prev = block_info0\<lparr>status := STATUS_PIECE, total_pieces := 3, piece_seq := 1,
     total_piece_bytes := 2500, bytes := 1000, pos := 12, seq := 4\<rparr>\<rparr>"

definition sending_parent :: node where
  "sending_parent = parent1\<lparr>FILE := replicate 1013 9 @ replicate 1000 7, TOTAL_FILE_BYTES := 2013,
     WEBM_HEADER_total_bytes := 1, FIRST_CLUSTER_SEQ := 0\<rparr>"

definition recording_child :: node where
  "recording_child = node1\<lparr>FILE := cluster_hdr 0 @ [1], FP := 13, CURRENT_BLOCK_NUM := 0,
     CURRENT_BLOCKINFO := [block_info0], CURRENT_BLOCK := Some \<lparr>info = block_info0, prev = block_info0\<rparr>,
     CURRENT_CLUSTER := Some \<lparr>
       cl = \<lparr>cl_info = Chank0\<lparr>id_bytes := 4, data_bytes := 1\<rparr>, cl_pos = 0, cl_seq = 0, cl_option = 0\<rparr>,
       cl_prev = \<lparr>cl_info = Chank0, cl_pos = 0, cl_seq = 0, cl_option = 0\<rparr>\<rparr>,
     LATEST_BLOCK_SEQ := 1, NODE_TIMECODE_OFFSET := 0, IS_GET_TIMECODE_OFFSET := False, FILE_LIMIT := 2 ^ 40\<rparr>"

definition child_holds :: recording where
  "child_holds = \<lparr>closed = [], opened = [1], open_seq = 0, prev_seq = 0, latest = 1, zero_time = None\<rparr>"

lemma recording_child_records: "records 0 child_holds recording_child"
  by (auto simp: records_def recording_child_def child_holds_def file_inv_def cl_seqs_def block_info0_def)


end
