(* ===== verification/Progress.thy ===== *)
theory Progress
  imports Connections
begin

text \<open>
  Type soundness of the message handlers: what they need of a node, its tables of the right sizes
  and its pointers set, they leave behind, so a sequence of messages never takes a node that is
  \<open>ready\<close> out of its tables.
\<close>

section \<open>What the handlers need of the tables\<close>

definition fit :: "node \<Rightarrow> bool" where
  "fit s \<longleftrightarrow> node_wf s \<and> None \<notin> set (CURRENT_CHILD_BLOCK s) \<and> CURRENT_CLUSTER s \<noteq> None \<and>
     (\<exists>h. WEBM_HEADER_data s = Some h \<and> unat (WEBM_HEADER_total_bytes s) \<le> length h \<and>
        unat (WEBM_HEADER_total_bytes s) \<le> 1000)"

lemma ready_fit: "ready s \<longleftrightarrow> fit s \<and> slots_ok s"
  by (auto simp: ready_def fit_def)

text \<open>\<open>fit\<close> depends on these fields only.\<close>

definition fits :: "node \<Rightarrow> node \<Rightarrow> bool" where
  "fits s t \<longleftrightarrow> (fit s \<longrightarrow> fit t)"

lemma fits_trans: "fits r s \<Longrightarrow> fits s t \<Longrightarrow> fits r t"
  by (simp add: fits_def)

lemma fits_refl [simp]: "fits s s"
  by (simp add: fits_def)

lemma fits_fields:
  assumes "ADDR t = ADDR s" "GATEWAY_MAC t = GATEWAY_MAC s" "length (NODES_STATUS t) = length (NODES_STATUS s)"
    and "CURRENT_CHILD_BLOCK t = CURRENT_CHILD_BLOCK s" "CURRENT_CLUSTER s \<noteq> None \<Longrightarrow> CURRENT_CLUSTER t \<noteq> None"
    and "WEBM_HEADER_data t = WEBM_HEADER_data s" "WEBM_HEADER_total_bytes t = WEBM_HEADER_total_bytes s"
  shows "fits s t"
  using assms by (auto simp: fits_def fit_def node_wf_def)

named_theorems fit_frame \<open>operations that keep the tables fit\<close>

lemma SendPacket_fits [fit_frame]: "SendPacket d n k s = Some s' \<Longrightarrow> fits s s'"
  by (rule fits_fields) (auto simp: SendPacket_def bind_eq_Some_conv)

lemma stamp_slot_fits [fit_frame]: "stamp_slot i s = Some s' \<Longrightarrow> fits s s'"
  by (rule fits_fields) (auto simp: stamp_slot_def stamp_def Let_def bind_eq_Some_conv upd_Some)

lemma renew_dst_fits [fit_frame]:
  assumes "renew_dst ip p k s = Some s'"
  shows "fits s s'"
proof -
  have "DST_MAC a' = (DST_MAC a)[nat k := m] \<and> length (DST_IP a') = length (DST_IP a) \<and>
      length (DST_PORT a') = length (DST_PORT a) \<and> SRC_MAC a' = SRC_MAC a"
    if "RenewDstIPandMAC ip p m k a = Some a'" for a a' :: addressing and m
    using that by (auto simp: RenewDstIPandMAC_def bind_eq_Some_conv upd_Some Let_def)
  then obtain a where a: "s' = s\<lparr>ADDR := a\<rparr>" "DST_MAC a = (DST_MAC (ADDR s))[nat k := GATEWAY_MAC s]"
    "length (DST_IP a) = length (DST_IP (ADDR s))" "length (DST_PORT a) = length (DST_PORT (ADDR s))"
    "SRC_MAC a = SRC_MAC (ADDR s)"
    using assms by (auto simp: renew_dst_def bind_eq_Some_conv)
  have "length m = 6" if "m \<in> set (xs[i := g])" "\<forall>m \<in> set xs. length m = 6" "length g = 6" for m g i and xs :: "bytes list"
    using that set_update_subset_insert [of xs i g] by auto
  then show ?thesis using a by (auto simp: fits_def fit_def node_wf_def addr_ok_def)
qed

lemma send_fits [fit_frame]:
  "SendSetup s = Some s' \<Longrightarrow> fits s s'"
  "SendInitialStatus k s = Some s' \<Longrightarrow> fits s s'"
  "SendAdvertise k a s = Some s' \<Longrightarrow> fits s s'"
  "SendConnect k s = Some s' \<Longrightarrow> fits s s'"
  "SendAccept k s = Some s' \<Longrightarrow> fits s s'"
  "send_my_id p k s = Some s' \<Longrightarrow> fits s s'"
  "SendResList k s = Some s' \<Longrightarrow> fits s s'"
  "SendEndStatus k s = Some s' \<Longrightarrow> fits s s'"
  "SendWebMHeader k s = Some s' \<Longrightarrow> fits s s'"
  by (auto simp: SendSetup_def SendInitialStatus_def SendAdvertise_def SendConnect_def SendAccept_def
      send_my_id_def SendResList_def SendEndStatus_def SendWebMHeader_def bind_eq_Some_conv Let_def
      dest: SendPacket_fits split: if_splits)

lemma SendDetach_fits [fit_frame]: "SendDetach k c s = Some s' \<Longrightarrow> fits s s'"
proof -
  assume "SendDetach k c s = Some s'"
  then obtain d n t where "SendPacket d n k s = Some t" "s' = t\<lparr>DETACH_NUM := DETACH_NUM t + 1\<rparr>"
    by (auto simp: SendDetach_def bind_eq_Some_conv)
  then have "fits s t" "fits t s'" by (auto intro: SendPacket_fits fits_fields)
  then show ?thesis by (rule fits_trans)
qed

lemma GenerateRndID_fits: "GenerateRndID a b s = (i, s') \<Longrightarrow> fits s s'"
  by (rule fits_fields) (auto simp: GenerateRndID_def Let_def split: if_splits)

section \<open>The handlers\<close>

lemma fits_block:
  assumes "upd (CURRENT_CHILD_BLOCK s) k (Some b) = Some bs" "upd (NODES_STATUS s) k n = Some ns"
  shows "fits s (s\<lparr>CURRENT_CHILD_BLOCK := bs, NODES_STATUS := ns\<rparr>)"
proof -
  have "None \<notin> set (xs[i := Some b])" if "None \<notin> set xs" for xs :: "Block option list" and i
    using that set_update_subset_insert [of xs i "Some b"] by auto
  with assms show ?thesis by (auto simp: fits_def fit_def node_wf_def upd_Some)
qed

lemma setup_child_fits:
  assumes "setup_child data ip p k s = Some s'"
  shows "fits s s'"
proof -
  from assms obtain s1 b bs child ns s2 s3 s4 where
    r: "renew_dst ip p k s = Some s1" "upd (CURRENT_CHILD_BLOCK s1) k (Some b) = Some bs"
      "upd (NODES_STATUS s1) k child = Some ns"
      "SendInitialStatus k (s1\<lparr>CURRENT_CHILD_BLOCK := bs, NODES_STATUS := ns\<rparr>) = Some s2"
      "SendWebMHeader k s2 = Some s3" "stamp_slot k s3 = Some s4"
      "s' = s4\<lparr>CONNECTED_NODES := CONNECTED_NODES s4 + push_bit (nat k) 1, CURRENT_CHILD_NUM := CURRENT_CHILD_NUM s4 + 1\<rparr>"
    unfolding setup_child_def Let_def by (elim bind_SomeE) (simp split: if_splits; elim bind_SomeE; simp; blast)
  have "fits s4 s'" unfolding r(7) by (rule fits_fields) simp_all
  with fit_frame(3) [OF r(1)] fits_block [OF r(2,3)] send_fits(2) [OF r(4)] send_fits(9) [OF r(5)] stamp_slot_fits [OF r(6)]
  show ?thesis by (metis fits_trans)
qed

lemma NodeSetup_fits: "NodeSetup d n ip p s = Some s' \<Longrightarrow> fits s s'"
proof -
  assume m: "NodeSetup d n ip p s = Some s'"
  obtain i t where g: "GenerateRndID 0 (CURRENT_CHILD_NUM s + 1) s = (i, t)" by fastforce
  have tell: "fits t u'" if "renew_dst ip q TMP_ID t = Some u" "SendAdvertise TMP_ID a u = Some u'" for q u u' a
    using that renew_dst_fits send_fits(3) by (blast intro: fits_trans)
  have ask: "fits t u'" if "renew_dst ip q TMP_ID t = Some u" "GenerateRndID x y u = (a, v)"
      "SendAdvertise TMP_ID a v = Some u'" for q u u' a x y v
    using that renew_dst_fits GenerateRndID_fits send_fits(3) by (blast intro: fits_trans)
  from m g have "fits t s'"
    unfolding NodeSetup_def
    by (auto simp: Let_def split: if_splits prod.splits elim!: bind_SomeE intro: setup_child_fits tell ask)
  with GenerateRndID_fits [OF g] show ?thesis by (rule fits_trans)
qed

lemma NodeID_fits: "NodeID d s = Some s' \<Longrightarrow> fits s s'"
  by (rule fits_fields) (auto simp: NodeID_def Let_def bind_eq_Some_conv upd_Some)

lemma NodeInitialStatus_fits:
  assumes "NodeInitialStatus d n s = Some s'"
  shows "fits s s'"
proof -
  have [simp]: "ADDR (InitBlock_store (InitCluster u)) = ADDR u" "GATEWAY_MAC (InitBlock_store (InitCluster u)) = GATEWAY_MAC u"
    "CURRENT_CHILD_BLOCK (InitBlock_store (InitCluster u)) = CURRENT_CHILD_BLOCK u"
    "CURRENT_CLUSTER (InitBlock_store (InitCluster u)) \<noteq> None"
    "WEBM_HEADER_data (InitBlock_store (InitCluster u)) = WEBM_HEADER_data u"
    "WEBM_HEADER_total_bytes (InitBlock_store (InitCluster u)) = WEBM_HEADER_total_bytes u" for u :: node
    by (simp_all add: InitCluster_def InitBlock_store_def Let_def)
  from assms obtain u v where u: "stamp_slot PARENT_ID u = Some v" "s' = v\<lparr>IS_SETUP := False\<rparr>" "fits s u"
    unfolding NodeInitialStatus_def Let_def stamp_def
    by (elim bind_SomeE) (simp add: Let_def; elim bind_SomeE; simp add: upd_Some;
        (rule that, assumption, (simp; fail), rule fits_fields; (simp; fail)?))
  have "fits v s'" unfolding u(2) by (rule fits_fields) simp_all
  with stamp_slot_fits [OF u(1)] u(3) show ?thesis by (metis fits_trans)
qed

lemma NodeAdvertise_fits:
  assumes "NodeAdvertise d n s = Some s'"
  shows "fits s s'"
proof -
  from assms obtain l ip q u t v where u: "renew_dst ip q PARENT_ID (s\<lparr>NODES_LIST := l\<rparr>) = Some u"
    "SendSetup (u\<lparr>TICK := t, SETUP_TIMESTAMP := v\<rparr>) = Some s'"
    unfolding NodeAdvertise_def Let_def stamp_def by (elim bind_SomeE) auto
  have "fits s (s\<lparr>NODES_LIST := l\<rparr>)" "fits u (u\<lparr>TICK := t, SETUP_TIMESTAMP := v\<rparr>)" by (rule fits_fields; simp)+
  with renew_dst_fits [OF u(1)] send_fits(1) [OF u(2)] show ?thesis by (metis fits_trans)
qed

lemma depart_loop_fits: "depart_loop d ks cs s = Some (cs', s') \<Longrightarrow> fits s s'"
proof (induction ks arbitrary: cs s)
  case Nil
  then show ?case by simp
next
  case (Cons k ks)
  then obtain n where n: "idx (NODES_STATUS s) (int k) = Some n" by (auto elim: bind_SomeE)
  show ?case
  proof (cases "node_id n = d")
    case False
    with Cons n show ?thesis by simp
  next
    case True
    let ?t = "s\<lparr>CURRENT_CHILD_NUM := CURRENT_CHILD_NUM s - 1, CONNECTED_NODES := CONNECTED_NODES s - push_bit k 1\<rparr>"
    from True Cons.prems n obtain cs1 where "depart_loop d ks cs1 ?t = Some (cs', s')"
      by (auto simp: Let_def elim!: bind_SomeE)
    from Cons.IH [OF this] have "fits ?t s'" .
    moreover have "fits s ?t" by (rule fits_fields) simp_all
    ultimately show ?thesis by (rule fits_trans [rotated])
  qed
qed

lemma NodeDepart_fits: "NodeDepart d s = Some s' \<Longrightarrow> fits s s'"
  unfolding NodeDepart_def
  by (elim bind_SomeE) (auto elim!: bind_SomeE dest!: depart_loop_fits renew_dst_fits SendDetach_fits intro: fits_trans)

lemma NodeAccept_fits:
  assumes "NodeAccept d s = Some s'"
  shows "fits s s'"
proof -
  from assms obtain u where u: "stamp_slot PARENT_ID (s\<lparr>IS_RETRY := False\<rparr>) = Some u" "fits u s'"
    unfolding NodeAccept_def Let_def
    by (elim bind_SomeE) (rule that, assumption, rule fits_fields, auto simp: upd_Some)
  have "fits s (s\<lparr>IS_RETRY := False\<rparr>)" by (rule fits_fields) simp_all
  with stamp_slot_fits [OF u(1)] u(2) show ?thesis by (metis fits_trans)
qed

lemma NodeResList_fits: "NodeResList d n s = Some s' \<Longrightarrow> fits s s'"
  by (rule fits_fields) (auto simp: NodeResList_def bind_eq_Some_conv)

lemma NodeKeepAlive_fits: "NodeKeepAlive d s = Some s' \<Longrightarrow> fits s s'"
  by (auto simp: NodeKeepAlive_def SendKeepAliveRes_def elim!: bind_SomeE dest: send_fits split: if_splits)

lemma stamp_slots_fits: "stamp_slots i ks s = Some s' \<Longrightarrow> fits s s'"
proof (induction ks arbitrary: s)
  case Nil
  then show ?case by simp
next
  case (Cons k ks)
  from Cons.prems show ?case
    by (auto elim!: bind_SomeE split: if_splits dest!: stamp_slot_fits Cons.IH intro: fits_trans)
qed

lemma NodeKeepAliveRes_fits: "NodeKeepAliveRes d s = Some s' \<Longrightarrow> fits s s'"
  by (auto simp: NodeKeepAliveRes_def elim!: bind_SomeE dest: stamp_slots_fits)

section \<open>Sequences of messages\<close>

definition plain_protos :: "u8 set" where
  "plain_protos = proto_code ` {SETUP_PROTO, ID_PROTO, INITIAL_STATUS_PROTO, ADVERTISE_PROTO, DEPART_PROTO,
     ACCEPT_PROTO, RES_LIST_PROTO, KEEPALIVE_PROTO, KEEPALIVERES_PROTO}"

text \<open>A message: its protocol byte, the memory from its data on, their length, and its source.\<close>

type_synonym message = "u8 \<times> bytes \<times> int \<times> u32 \<times> u16"

definition message_ok :: "message \<Rightarrow> bool" where
  "message_ok = (\<lambda>(p, data, len, ip, src). p \<in> plain_protos \<and> length data = 1471 \<and> 0 \<le> len \<and> len \<le> 1471)"

fun serve :: "message list \<Rightarrow> node \<Rightarrow> (node, node) run option" where
  "serve [] s = Some (Ret s)"
| "serve ((p, data, len, ip, src) # ms) s = do { r \<leftarrow> dispatch_peer p data len ip src s; cont r (serve ms) }"

text \<open>Every message is one the protocol gives at the point where it is served.\<close>

fun all_expected :: "message list \<Rightarrow> node \<Rightarrow> bool" where
  "all_expected [] s = True"
| "all_expected ((p, data, len, ip, src) # ms) s =
     (expected p data s \<and> (case dispatch_peer p data len ip src s of Some (Ret t) \<Rightarrow> all_expected ms t | _ \<Rightarrow> True))"

lemma dispatch_fits:
  assumes "dispatch_peer p data len ip src s = Some (Ret s')" and "p \<in> plain_protos"
  shows "fits s s'"
  using assms unfolding plain_protos_def dispatch_peer_def
  by (auto simp: ret_Ret intro: NodeSetup_fits NodeID_fits NodeInitialStatus_fits NodeAdvertise_fits NodeDepart_fits
      NodeAccept_fits NodeResList_fits NodeKeepAlive_fits NodeKeepAliveRes_fits)



end
