(* ===== verification/Interrupt.thy ===== *)
theory Interrupt
  imports Streaming
begin

text \<open>
  The end of a stream: \<^verbatim>\<open>SignalHandler\<close> of \<^verbatim>\<open>src/src/common/p2p.c\<close>, lines 2393 to 2442, and what it
  makes the children do.
\<close>

section \<open>The code\<close>

fun end_children :: "nat list \<Rightarrow> node \<Rightarrow> node option" where
  "end_children [] s = Some s"
| "end_children (i # ks) s = do { s \<leftarrow> SendEndStatus (int i) s; end_children ks s }"

text \<open>
  The state is \<^verbatim>\<open>SIG_INT_COUNT\<close> and the node.  \<open>joins\<close> tells whether \<^verbatim>\<open>pthread_join\<close> ever returns: the
  functions of both threads are endless loops.
\<close>

definition SignalHandler :: "bool \<Rightarrow> int \<times> node \<Rightarrow> (int \<times> node, int \<times> node) run option" where
  "SignalHandler joins = (\<lambda>(count, s). let count = count + 1 in
     if count \<le> 1 then do {
       s \<leftarrow> end_children [0..<nat (CURRENT_CHILD_NUM s)] s;
       Some (Ret (count, s))
     }
     else if \<not> joins then None
     else do {
       me \<leftarrow> idx (NODES_STATUS s) MY_ID;
       if node_id me \<noteq> ORIGIN_ID then do {
         r \<leftarrow> UpdateClusterToWebM (CURRENT_BLOCKINFO s) (CURRENT_BLOCK_NUM s) s;
         r \<leftarrow> cont r (\<lambda>s. do {
           c \<leftarrow> CURRENT_CLUSTER s;
           ExportWebM FOOTER CLUSTER_HEADER_BYTES s
         });
         (case r of Ret s \<Rightarrow> Some (Exit (count, s)) | Exit s \<Rightarrow> Some (Exit (count, s)))
       }
       else Some (Exit (count, s))
     })"

section \<open>The end reaches the children\<close>

definition end_mark :: bytes where
  "end_mark = proto_code BLOCK_PROTO # BLOCKINFO_END"

lemma end_children_posts:
  assumes "node_wf s" and "\<forall>i \<in> set ks. i < 4"
  shows "\<exists>s' fs. end_children ks s = Some s' \<and> WIRE s' = WIRE s @ fs \<and> length fs = length ks \<and> ADDR s' = ADDR s \<and>
    (\<forall>j < length ks. \<exists>u u'. posts u (int (ks ! j)) end_mark u' \<and> node_wf u \<and> ADDR u = ADDR s \<and>
       WIRE u' = WIRE u @ [fs ! j])"
  using assms
proof (induction ks arbitrary: s)
  case Nil
  then show ?case by simp
next
  case (Cons k ks)
  have k: "slot_ix (int k)" using Cons.prems by (simp add: slot_ix_def)
  obtain t where t: "SendEndStatus (int k) s = Some t" "posts s (int k) end_mark t"
    using SendEndStatus_posts [OF Cons.prems(1) k] by (auto simp: end_mark_def BLOCKINFO_END_def)
  note p = posts_sel [OF t(2)]
  obtain f where f: "WIRE t = WIRE s @ [f]" using t(2) by (auto simp: posts_def sends_def)
  obtain s' fs where s': "end_children ks t = Some s'" "WIRE s' = WIRE t @ fs" "length fs = length ks" "ADDR s' = ADDR t"
    "\<forall>j < length ks. \<exists>u u'. posts u (int (ks ! j)) end_mark u' \<and> node_wf u \<and> ADDR u = ADDR t \<and> WIRE u' = WIRE u @ [fs ! j]"
    using Cons.IH [of t] Cons.prems p(9) by auto
  have "\<forall>j < length (k # ks). \<exists>u u'. posts u (int ((k # ks) ! j)) end_mark u' \<and> node_wf u \<and> ADDR u = ADDR s \<and>
      WIRE u' = WIRE u @ [(f # fs) ! j]"
  proof (intro allI impI)
    fix j assume "j < length (k # ks)"
    then show "\<exists>u u'. posts u (int ((k # ks) ! j)) end_mark u' \<and> node_wf u \<and> ADDR u = ADDR s \<and>
        WIRE u' = WIRE u @ [(f # fs) ! j]"
      using s'(5) p(1) t(2) f Cons.prems(1) by (cases j) auto
  qed
  with t(1) s' f p(1) show ?case by (intro exI [of _ s'] exI [of _ "f # fs"]) simp
qed

lemma end_mark_received:
  assumes "posts u k end_mark u'" and "node_wf u" "slot_ix k" and "WIRE u' = WIRE u @ [f]"
    and "DST_IP (ADDR u) ! nat k = SRC_IP (ADDR r)" "DST_PORT (ADDR u) ! nat k = SRC_PORT (ADDR r)"
    and "file_inv done d r" "length (FILE r) + 12 \<le> FILE_LIMIT r"
  shows "\<exists>r'. receive_peer (f @ stale) r = Some (Exit r') \<and> FILE r' = done @ cluster_enc d @ cluster_hdr (2 ^ 56 - 1)"
proof -
  have l: "length BLOCKINFO_END \<le> 1471" "18 \<le> length (BLOCKINFO_END @ stale)"
    "take 18 (BLOCKINFO_END @ stale) = BLOCKINFO_END" by (simp_all add: BLOCKINFO_END_def)
  from posts_receive [OF assms(1) [unfolded end_mark_def] assms(2,3) l(1) assms(5,6)] assms(4) have
    fr: "receive_frame dispatch_peer (SRC_PORT (ADDR r)) (f @ stale) r =
      dispatch_peer (proto_code BLOCK_PROTO) (BLOCKINFO_END @ stale) (int (length BLOCKINFO_END))
        (SRC_IP (ADDR u)) (htons (SRC_PORT (ADDR u))) r" by auto
  obtain r' where "AssembleBlock (BLOCKINFO_END @ stale) (of_int (int (length BLOCKINFO_END))) r = Some (Exit r')"
    "FILE r' = done @ cluster_enc d @ cluster_hdr (2 ^ 56 - 1)"
    using assemble_finish [OF assms(7) l(2,3) assms(8)] by blast
  then show ?thesis by (simp add: receive_peer_def fr dispatch_peer_def)
qed

text \<open>
  C7: The first interrupt ends the stream: one frame goes to each of the slots 0 to
  \<^verbatim>\<open>CURRENT_CHILD_NUM - 1\<close>, and the peer at that address, whatever it has recorded, finishes its file -
  complete clusters and the footer - and exits.  Every connected child is told exactly when the
  occupied slots come first: after the child of slot 0 has left, the frame for the child of slot 1
  goes to the address slot 0 last had.
\<close>

theorem stream_end:
  assumes "node_wf s" and "slots_ok s"
  shows "\<exists>s' fs. SignalHandler joins (0, s) = Some (Ret (1, s')) \<and> WIRE s' = WIRE s @ fs \<and>
    int (length fs) = CURRENT_CHILD_NUM s \<and>
    (\<forall>i < length fs. \<forall>r done d stale.
       DST_IP (ADDR s) ! i = SRC_IP (ADDR r) \<and> DST_PORT (ADDR s) ! i = SRC_PORT (ADDR r) \<and>
       file_inv done d r \<and> length (FILE r) + 12 \<le> FILE_LIMIT r \<longrightarrow>
       (\<exists>r'. receive_peer (fs ! i @ stale) r = Some (Exit r') \<and>
          FILE r' = done @ cluster_enc d @ cluster_hdr (2 ^ 56 - 1))) \<and>
    ((\<forall>i < 2. connected (CONNECTED_NODES s) i \<longrightarrow> i < length fs) \<longleftrightarrow>
      (connected (CONNECTED_NODES s) 1 \<longrightarrow> connected (CONNECTED_NODES s) 0))"
proof -
  have c: "CURRENT_CHILD_NUM s = children (CONNECTED_NODES s)" using assms(2) by (simp add: slots_ok_children)
  let ?ks = "[0..<nat (CURRENT_CHILD_NUM s)]"
  have lt: "\<forall>i \<in> set ?ks. i < 4" using c by (auto simp: children_def split: if_splits)
  obtain s' fs where s': "end_children ?ks s = Some s'" "WIRE s' = WIRE s @ fs" "length fs = length ?ks"
    "\<forall>j < length ?ks. \<exists>u u'. posts u (int (?ks ! j)) end_mark u' \<and> node_wf u \<and> ADDR u = ADDR s \<and>
       WIRE u' = WIRE u @ [fs ! j]"
    using end_children_posts [OF assms(1) lt] by auto
  have told: "\<exists>r'. receive_peer (fs ! i @ stale) r = Some (Exit r') \<and>
      FILE r' = done @ cluster_enc d @ cluster_hdr (2 ^ 56 - 1)"
    if "i < length fs" "DST_IP (ADDR s) ! i = SRC_IP (ADDR r)" "DST_PORT (ADDR s) ! i = SRC_PORT (ADDR r)"
      "file_inv done d r" "length (FILE r) + 12 \<le> FILE_LIMIT r" for i r "done" d stale
  proof -
    from that(1) s'(3) have i: "?ks ! i = i" "i < 4" using lt by auto
    have "i < length ?ks" using that(1) s'(3) by simp
    with s'(4) have "\<exists>u u'. posts u (int (?ks ! i)) end_mark u' \<and> node_wf u \<and> ADDR u = ADDR s \<and>
        WIRE u' = WIRE u @ [fs ! i]" by blast
    then obtain u u' where u: "posts u (int i) end_mark u'" "node_wf u" "ADDR u = ADDR s" "WIRE u' = WIRE u @ [fs ! i]"
      unfolding i(1) by blast
    have "slot_ix (int i)" using i(2) by (simp add: slot_ix_def)
    from end_mark_received [OF u(1,2) this u(4) _ _ that(4,5)] that(2,3) u(3) show ?thesis by simp
  qed
  have "SignalHandler joins (0, s) = Some (Ret (1, s'))" using s'(1) by (simp add: SignalHandler_def)
  moreover have "int (length fs) = CURRENT_CHILD_NUM s" using s'(3) c by (simp add: children_def)
  moreover have "(\<forall>i < 2. connected (CONNECTED_NODES s) i \<longrightarrow> i < length fs) \<longleftrightarrow>
      (connected (CONNECTED_NODES s) 1 \<longrightarrow> connected (CONNECTED_NODES s) 0)"
    using s'(3) c by (auto simp: children_def less_2_cases_iff split: if_splits)
  ultimately show ?thesis using s'(2) told by blast
qed

theorem stream_end_witness:
  "(\<exists>s' f. SignalHandler False (0, parent1\<lparr>CONNECTED_NODES := 1, CURRENT_CHILD_NUM := 1\<rparr>) = Some (Ret (1, s')) \<and>
     (\<exists>r'. receive_peer (f @ []) recording_child = Some (Exit r') \<and>
        FILE r' = cluster_enc [1] @ cluster_hdr (2 ^ 56 - 1)))"
proof -
  let ?s = "parent1\<lparr>CONNECTED_NODES := 1, CURRENT_CHILD_NUM := 1\<rparr>"
  have wf: "node_wf ?s" using parent1_ok(1) by (simp add: node_wf_def)
  have ok: "slots_ok ?s" using parent1_ok(2) by (simp add: slots_ok_children children_def connected_bit)
  from recording_child_records have inv: "file_inv [] [1] recording_child" by (simp add: records_def child_holds_def)
  have to: "DST_IP (ADDR ?s) ! 0 = SRC_IP (ADDR recording_child)" "DST_PORT (ADDR ?s) ! 0 = SRC_PORT (ADDR recording_child)"
    "length (FILE recording_child) + 12 \<le> FILE_LIMIT recording_child"
    by (simp_all add: recording_child_def parent1_ok)
  have one: "CURRENT_CHILD_NUM ?s = 1" by simp
  from stream_end [OF wf ok, of False] obtain s' fs where s': "SignalHandler False (0, ?s) = Some (Ret (1, s'))"
    "int (length fs) = 1"
    "\<forall>i < length fs. \<forall>r done d stale.
       DST_IP (ADDR ?s) ! i = SRC_IP (ADDR r) \<and> DST_PORT (ADDR ?s) ! i = SRC_PORT (ADDR r) \<and>
       file_inv done d r \<and> length (FILE r) + 12 \<le> FILE_LIMIT r \<longrightarrow>
       (\<exists>r'. receive_peer (fs ! i @ stale) r = Some (Exit r') \<and>
          FILE r' = done @ cluster_enc d @ cluster_hdr (2 ^ 56 - 1))"
    unfolding one by blast
  have l: "0 < length fs" using s'(2) by simp
  from s'(3) [rule_format, OF l, of recording_child "[]" "[1]" "[]"] to inv s'(1) show ?thesis by auto
qed

end
