(* ===== verification/Webm_Header.thy ===== *)
theory Webm_Header
  imports Webm_File
begin

text \<open>
  The header of the WebM file the origin streams: \<^verbatim>\<open>src/src/common/webm_parser.c\<close>, lines 780 to 882
  and 1155 to 1198.  The encoder that writes the file meanwhile is the argument \<open>enc\<close>: \<open>enc k\<close> is the
  file as it is when its size is looked at for the k-th time.
\<close>

section \<open>The code\<close>

text \<open>
  The loop of \<^verbatim>\<open>AnalyzeChankToWebMHeader\<close>: the status and the position where it ends, which
  \<^verbatim>\<open>current_bytes\<close> always equals.  \<^verbatim>\<open>Dump\<close> reads 12 bytes at the first element of a segment.  The
  comparison of the \<^verbatim>\<open>__off64_t\<close> file size with a \<^verbatim>\<open>u64\<close> is unsigned.
\<close>

partial_function (option) analyze_loop :: "bytes \<Rightarrow> int \<Rightarrow> u64 \<Rightarrow> (int \<times> u64) option" where
  "analyze_loop buf file_bytes p = do {
     b \<leftarrow> rd buf (unat p);
     if b = 0 then Some (0, p)
     else do {
       c \<leftarrow> GetChank (drop (unat p) buf);
       if chank_id c = SEGMENT_ID \<and> data_bytes c \<noteq> 0 then do {
         _ \<leftarrow> rdn buf (unat (p + ucast (data_header_position c))) 12;
         analyze_loop buf file_bytes (p + ucast (data_header_position c))
       }
       else if chank_id c \<in> {EBML_ID, SEGMENT_ID, SEEKHEAD_ID, VOID_ID, INFO_ID, TRACKS_ID} then
         (if (of_int file_bytes :: u64) < chank_bytes c then Some (-1, p)
          else analyze_loop buf file_bytes (p + chank_bytes c))
       else if chank_id c = CLUSTER_ID then Some (1, p)
       else Some (-2, p)
     }
   }"

definition AnalyzeChankToWebMHeader :: "bytes \<Rightarrow> 'a webm_scheme \<Rightarrow> (int \<times> 'a webm_scheme) option" where
  "AnalyzeChankToWebMHeader buf w = do {
     (status, p) \<leftarrow> analyze_loop buf (TOTAL_FILE_BYTES w) 0;
     Some (status, if status = 1 then w\<lparr>WEBM_HEADER_total_bytes := ucast p\<rparr> else w)
   }"

definition HEADER_BUF :: nat where [c_eval]: "HEADER_BUF = 1024"

definition look :: "(nat \<Rightarrow> bytes) \<Rightarrow> nat \<Rightarrow> 'a webm_scheme \<Rightarrow> int \<times> 'a webm_scheme" where
  "look enc k w = CheckWebMSize (w\<lparr>FILE := enc k\<rparr>)"

text \<open>
  In the second branch the header is copied to \<^verbatim>\<open>WEBM_HEADER.data\<close> without allocating it.
\<close>

partial_function (option) UpdateWebMHeaderFromWebM ::
    "(nat \<Rightarrow> bytes) \<Rightarrow> nat \<Rightarrow> 'a webm_scheme \<Rightarrow> (nat \<times> 'a webm_scheme) option" where
  "UpdateWebMHeaderFromWebM enc k w =
     (let (grown, w) = look enc k w
      in if 0 < grown then
           (if int HEADER_BUF < TOTAL_FILE_BYTES w then do {
              (buf, w) \<leftarrow> ImportWebM (replicate HEADER_BUF 0) HEADER_BUF w;
              (status, w) \<leftarrow> AnalyzeChankToWebMHeader buf w;
              if 0 < status then do {
                let w = SeekABSWebM 0 FposR w;
                xs \<leftarrow> rdn buf 0 (unat (WEBM_HEADER_total_bytes w));
                Some (k, w\<lparr>WEBM_HEADER_data := Some xs\<rparr>)
              } else UpdateWebMHeaderFromWebM enc (k + 1) w
            } else do {
              (buf, w) \<leftarrow> ImportWebM (replicate (nat (TOTAL_FILE_BYTES w)) 0) (nat (TOTAL_FILE_BYTES w)) w;
              (status, w) \<leftarrow> AnalyzeChankToWebMHeader buf w;
              if 0 < status then do {
                let w = SeekABSWebM 0 FposR w;
                xs \<leftarrow> rdn buf 0 (unat (WEBM_HEADER_total_bytes w));
                h \<leftarrow> WEBM_HEADER_data w;
                h \<leftarrow> wrn h 0 xs;
                Some (k, w\<lparr>WEBM_HEADER_data := Some h\<rparr>)
              } else UpdateWebMHeaderFromWebM enc (k + 1) w
            })
         else UpdateWebMHeaderFromWebM enc (k + 1) w)"

section \<open>Headers an encoder writes\<close>

text \<open>
  Before the first cluster there are elements with a body, and the head of the segment, whose body
  the following elements are.
\<close>

datatype item = Element u32 nat bytes | Segment nat nat

definition id_width :: "u32 \<Rightarrow> nat" where
  "id_width i = (if i = VOID_ID then 1 else 4)"

primrec item_enc :: "item \<Rightarrow> bytes" where
  "item_enc (Element i k d) = be_bytes (id_width i) (unat i) @ vint k (length d) @ d"
| "item_enc (Segment k n) = be_bytes 4 (unat SEGMENT_ID) @ vint k n"

primrec item_ok :: "int \<Rightarrow> item \<Rightarrow> bool" where
  "item_ok sz (Element i k d) \<longleftrightarrow> i \<in> {EBML_ID, SEEKHEAD_ID, VOID_ID, INFO_ID, TRACKS_ID} \<and>
     vint_ok k (length d) \<and> length d < 2 ^ 56 - 1 \<and> int (id_width i + k + length d) \<le> sz"
| "item_ok sz (Segment k n) \<longleftrightarrow> vint_ok k n \<and> 12 \<le> sz"

definition items_enc :: "item list \<Rightarrow> bytes" where
  "items_enc es = concat (map item_enc es)"


definition header_ids :: "u32 list" where
  "header_ids = [EBML_ID, SEGMENT_ID, SEEKHEAD_ID, VOID_ID, INFO_ID, TRACKS_ID, CLUSTER_ID]"

lemma header_id_ok: "i \<in> set header_ids \<Longrightarrow> id_ok (id_width i) (unat i)"
  by (auto simp: header_ids_def id_width_def c_eval id_ok_def)

lemma id_first:
  assumes "i \<in> set header_ids"
  obtains b bs where "be_bytes (id_width i) (unat i) = b # bs" "b \<noteq> 0"
proof -
  define k where "k = id_width i - 1"
  have k: "id_width i = Suc k" by (simp add: id_width_def k_def)
  have "(of_nat (unat i div 256 ^ k) :: u8) \<noteq> 0"
    using assms by (auto simp: header_ids_def id_width_def k_def c_eval)
  then show thesis using be_bytes_Suc [of k "unat i"] by (intro that) (simp_all add: k)
qed

lemma item_first:
  assumes "item_ok sz e"
  obtains b bs where "item_enc e = b # bs" "b \<noteq> 0"
proof (cases e)
  case (Element i k d)
  with assms have "i \<in> set header_ids" by (auto simp: header_ids_def)
  from id_first [OF this] show thesis using that Element by (metis append_Cons item_enc.simps(1))
next
  case (Segment k n)
  have "SEGMENT_ID \<in> set header_ids" by (simp add: header_ids_def)
  moreover have "id_width SEGMENT_ID = 4" by (simp add: id_width_def c_eval)
  ultimately show thesis using id_first [of SEGMENT_ID] that Segment by (metis append_Cons item_enc.simps(2))
qed

text \<open>One element is passed; the head of a segment only if 12 bytes follow it, which are printed.\<close>

lemma pos64: "n < 2 ^ 60 \<Longrightarrow> unat (of_nat n :: u64) = n"
  by (simp add: unat_of_nat)

lemma GetChank_item:
  assumes "id_ok k i" and "vint_ok n v" and "v \<noteq> 2 ^ 56 - 1"
  shows "GetChank (be_bytes k i @ vint n v @ rest) = Some
    \<lparr>chank_id = of_nat i, id_bytes = of_nat k, data_header_position = of_nat (k + n),
     data_bytes = of_nat v, chank_bytes = of_nat (k + n + v)\<rparr>"
  using GetChank_enc [OF assms(1,2)] assms(3) by (simp add: Let_def)

lemma vint_bound: "vint_ok n v \<Longrightarrow> v < 2 ^ 56"
proof -
  assume v: "vint_ok n v"
  then have "(2 :: nat) ^ (7 * n) \<le> 2 ^ 56" by (intro power_increasing) (auto simp: vint_ok_def)
  with v show ?thesis by (simp add: vint_ok_def)
qed

lemma of_int_less_u64:
  assumes "int n \<le> sz" and "sz < 2 ^ 62"
  shows "\<not> (of_int sz :: u64) < of_nat n"
proof -
  have "uint (of_int sz :: u64) = sz" using assms by (simp add: uint_word_of_int)
  moreover have "uint (of_nat n :: u64) = int n" using assms by (simp add: uint_nat unat_of_nat)
  ultimately show ?thesis using assms by (simp add: word_less_def)
qed

lemma analyze_element:
  assumes "item_ok sz (Element i k d)" and "sz < 2 ^ 62" and "length pre < 2 ^ 60"
  shows "analyze_loop (pre @ item_enc (Element i k d) @ rest) sz (of_nat (length pre)) =
    analyze_loop (pre @ item_enc (Element i k d) @ rest) sz
      (of_nat (length pre + length (item_enc (Element i k d))))"
proof -
  define e where "e = item_enc (Element i k d)"
  have h: "i \<in> set header_ids" "i \<noteq> SEGMENT_ID"
    "i \<in> {EBML_ID, SEGMENT_ID, SEEKHEAD_ID, VOID_ID, INFO_ID, TRACKS_ID}"
    using assms(1) by (auto simp: header_ids_def c_eval)
  have v: "vint_ok k (length d)" "length d \<noteq> 2 ^ 56 - 1" using assms(1) by auto
  from item_first [OF assms(1)] obtain b bs where b: "e = b # bs" "b \<noteq> 0" unfolding e_def .
  have p: "unat (of_nat (length pre) :: u64) = length pre" using assms(3) by (rule pos64)
  have r: "rd (pre @ e @ rest) (length pre) = Some b" by (simp add: rd_def b(1))
  have "GetChank (e @ rest) = Some \<lparr>chank_id = of_nat (unat i), id_bytes = of_nat (id_width i),
      data_header_position = of_nat (id_width i + k), data_bytes = of_nat (length d),
      chank_bytes = of_nat (length e)\<rparr>"
    using GetChank_item [OF header_id_ok [OF h(1)] v, of "d @ rest"] by (simp add: e_def)
  then have c: "GetChank (drop (length pre) (pre @ e @ rest)) = Some \<lparr>chank_id = i,
      id_bytes = of_nat (id_width i), data_header_position = of_nat (id_width i + k),
      data_bytes = of_nat (length d), chank_bytes = of_nat (length e)\<rparr>" by simp
  have t: "\<not> (of_int sz :: u64) < of_nat (length e)"
    using assms(1,2) by (intro of_int_less_u64) (simp_all add: e_def)
  show ?thesis
    unfolding e_def [symmetric]
    by (subst analyze_loop.simps) (simp only: p r c b(2) h(2,3) t Option.bind.bind_lunit Let_def
        Chank.simps if_False if_True simp_thms of_nat_add)
qed

lemma analyze_segment:
  assumes "item_ok sz (Segment k n)" and "sz < 2 ^ 62" and "length pre < 2 ^ 59" and "12 \<le> length rest"
  shows "analyze_loop (pre @ item_enc (Segment k n) @ rest) sz (of_nat (length pre)) =
    analyze_loop (pre @ item_enc (Segment k n) @ rest) sz
      (of_nat (length pre + length (item_enc (Segment k n))))"
proof -
  define e where "e = item_enc (Segment k n)"
  have h: "SEGMENT_ID \<in> set header_ids"
    "SEGMENT_ID \<in> {EBML_ID, SEGMENT_ID, SEEKHEAD_ID, VOID_ID, INFO_ID, TRACKS_ID}"
    by (auto simp: header_ids_def)
  have w: "id_width SEGMENT_ID = 4" by (simp add: id_width_def c_eval)
  have v: "vint_ok k n" using assms(1) by simp
  then have k: "k \<le> 8" by (simp add: vint_ok_def)
  have le: "length e = 4 + k" by (simp add: e_def)
  from item_first [OF assms(1)] obtain b bs where b: "e = b # bs" "b \<noteq> 0" unfolding e_def .
  have p: "unat (of_nat (length pre) :: u64) = length pre" using assms(3) by (intro pos64) simp
  have r: "rd (pre @ e @ rest) (length pre) = Some b" by (simp add: rd_def b(1))
  define m where "m = (if n = 2 ^ 56 - 1 then 0 else n)"
  have "GetChank (e @ rest) = Some \<lparr>chank_id = of_nat (unat SEGMENT_ID), id_bytes = of_nat 4,
      data_header_position = of_nat (length e), data_bytes = of_nat m, chank_bytes = of_nat (length e + m)\<rparr>"
    using GetChank_enc [OF header_id_ok [OF h(1)] v, of rest] unfolding w
    by (simp add: e_def m_def Let_def add.assoc)
  then have c: "GetChank (drop (length pre) (pre @ e @ rest)) = Some \<lparr>chank_id = SEGMENT_ID,
      id_bytes = of_nat 4, data_header_position = of_nat (length e), data_bytes = of_nat m,
      chank_bytes = of_nat (length e + m)\<rparr>" by simp
  have q: "(of_nat (length pre) :: u64) + ucast (of_nat (length e) :: u16) = of_nat (length pre + length e)"
    using k le by (simp add: word_unat_eq_iff unat_of_nat ucast_16_64 unat_word_ariths)
  have u: "unat (of_nat (length pre + length e) :: u64) = length pre + length e"
    using assms(3) k le by (intro pos64) simp
  have dump: "rdn (pre @ e @ rest) (length pre + length e) 12 = Some (take 12 rest)"
    using assms(4) by (simp add: rdn_def)
  have z: "(of_nat m :: u64) = 0 \<longleftrightarrow> m = 0"
    using vint_bound [OF v] by (simp add: word_unat_eq_iff unat_of_nat m_def)
  have t: "\<not> (of_int sz :: u64) < of_nat (length e)"
    using assms(1,2) k le by (intro of_int_less_u64) simp_all
  show ?thesis
  proof (cases "m = 0")
    case True
    then have c0: "GetChank (drop (length pre) (pre @ e @ rest)) = Some \<lparr>chank_id = SEGMENT_ID,
      id_bytes = of_nat 4, data_header_position = of_nat (length e), data_bytes = 0,
      chank_bytes = of_nat (length e)\<rparr>" using c by simp
    show ?thesis
      unfolding e_def [symmetric]
      by (subst analyze_loop.simps) (simp only: p r c0 b(2) h(2) t Option.bind.bind_lunit Let_def
          Chank.simps if_False if_True simp_thms of_nat_add)
  next
    case False
    show ?thesis
      unfolding e_def [symmetric]
      by (subst analyze_loop.simps) (simp only: p r c b(2) q u dump z False Option.bind.bind_lunit Let_def
          Chank.simps if_False if_True simp_thms)
  qed
qed

text \<open>The first cluster ends the header.\<close>

definition cluster_head :: "nat \<Rightarrow> nat \<Rightarrow> bytes" where
  "cluster_head k n = be_bytes 4 (unat CLUSTER_ID) @ vint k n"

lemma analyze_cluster:
  assumes "vint_ok k n" and "length pre < 2 ^ 60"
  shows "analyze_loop (pre @ cluster_head k n @ rest) sz (of_nat (length pre)) = Some (1, of_nat (length pre))"
proof -
  have h: "CLUSTER_ID \<in> set header_ids" "CLUSTER_ID \<noteq> SEGMENT_ID"
    "CLUSTER_ID \<notin> {EBML_ID, SEGMENT_ID, SEEKHEAD_ID, VOID_ID, INFO_ID, TRACKS_ID}"
    by (auto simp: header_ids_def c_eval)
  have w: "id_width CLUSTER_ID = 4" by (simp add: id_width_def c_eval)
  from id_first [OF h(1)] obtain b bs where b: "be_bytes 4 (unat CLUSTER_ID) = b # bs" "b \<noteq> 0" unfolding w .
  have p: "unat (of_nat (length pre) :: u64) = length pre" using assms(2) by (rule pos64)
  have r: "rd (pre @ cluster_head k n @ rest) (length pre) = Some b" by (simp add: rd_def cluster_head_def b(1))
  obtain c where c: "GetChank (drop (length pre) (pre @ cluster_head k n @ rest)) = Some c" "chank_id c = CLUSTER_ID"
    using GetChank_enc [OF header_id_ok [OF h(1)] assms(1), of rest] unfolding w
    by (simp add: cluster_head_def Let_def)
  show ?thesis
    by (subst analyze_loop.simps) (simp only: p r c b(2) h Option.bind.bind_lunit Let_def
        if_False if_True simp_thms)
qed

lemma analyze_items:
  assumes "\<forall>e \<in> set es. item_ok sz e" and "sz < 2 ^ 62" and "length pre + length (items_enc es) < 2 ^ 59"
    and "12 \<le> length rest"
  shows "analyze_loop (pre @ items_enc es @ rest) sz (of_nat (length pre)) =
    analyze_loop (pre @ items_enc es @ rest) sz (of_nat (length pre + length (items_enc es)))"
  using assms(1,3)
proof (induction es arbitrary: pre)
  case Nil
  then show ?case by (simp add: items_enc_def)
next
  case (Cons e es)
  have i: "items_enc (e # es) = item_enc e @ items_enc es" by (simp add: items_enc_def)
  have e: "item_ok sz e" and l: "length pre < 2 ^ 59" using Cons.prems by simp_all
  have "analyze_loop (pre @ item_enc e @ items_enc es @ rest) sz (of_nat (length pre)) =
    analyze_loop (pre @ item_enc e @ items_enc es @ rest) sz (of_nat (length pre + length (item_enc e)))"
  proof (cases e)
    case (Element i k d)
    show ?thesis unfolding Element
      by (rule analyze_element) (use e l assms(2) Element in simp_all)
  next
    case (Segment k n)
    show ?thesis unfolding Segment
      by (rule analyze_segment) (use e l assms(2,4) Segment in simp_all)
  qed
  also have "\<dots> = analyze_loop ((pre @ item_enc e) @ items_enc es @ rest) sz (of_nat (length (pre @ item_enc e)))"
    by simp
  also have "\<dots> = analyze_loop ((pre @ item_enc e) @ items_enc es @ rest) sz
      (of_nat (length (pre @ item_enc e) + length (items_enc es)))"
    by (rule Cons.IH) (use Cons.prems i in auto)
  finally show ?case by (simp add: i add.assoc)
qed

text \<open>
  Of a file that starts with header elements and goes on with a cluster, the analysis finds
  exactly the part in front of the first cluster, as long as buffer and file hold it; the length is
  kept in 16 bits.
\<close>

lemma header_analysis:
  assumes "\<forall>e \<in> set es. item_ok (TOTAL_FILE_BYTES w) e" and "TOTAL_FILE_BYTES w < 2 ^ 62"
    and "length (items_enc es) < 2 ^ 59" and "vint_ok k n" and "8 \<le> k + length rest"
  shows "AnalyzeChankToWebMHeader (items_enc es @ cluster_head k n @ rest) w =
    Some (1, w\<lparr>WEBM_HEADER_total_bytes := of_nat (length (items_enc es))\<rparr>)"
proof -
  have l: "12 \<le> length (cluster_head k n @ rest)" using assms(5) by (simp add: cluster_head_def)
  have "analyze_loop (items_enc es @ cluster_head k n @ rest) (TOTAL_FILE_BYTES w) 0 =
      Some (1, of_nat (length (items_enc es)))"
    using analyze_items [of es _ "[]", OF assms(1,2) _ l] assms(3)
      analyze_cluster [OF assms(4), of "items_enc es" rest "TOTAL_FILE_BYTES w"] by simp
  then show ?thesis using assms(3)
    by (simp add: AnalyzeChankToWebMHeader_def word_unat_eq_iff ucast_64_16 unat_of_nat)
qed

section \<open>Headers that do not fit the buffer\<close>

text \<open>
  C12: An element that reaches to the end of the buffer or beyond it - the buffer has no end mark, and
  only the size of the file limits the elements - takes the analysis out of the buffer.
\<close>

theorem long_header_overruns:
  assumes "\<forall>e \<in> set es. item_ok (TOTAL_FILE_BYTES w) e" and "TOTAL_FILE_BYTES w < 2 ^ 62"
    and "item_ok (TOTAL_FILE_BYTES w) (Element i k d)"
    and "buf = items_enc es @ be_bytes (id_width i) (unat i) @ vint k (length d) @ take m d"
    and "length (items_enc es) < 2 ^ 58" and "8 \<le> k + min m (length d)" and "i \<noteq> VOID_ID"
  shows "AnalyzeChankToWebMHeader buf w = None"
proof -
  define pre where "pre = items_enc es"
  define e where "e = be_bytes (id_width i) (unat i) @ vint k (length d)"
  define N where "N = 4 + k + length d"
  have w: "id_width i = 4" using assms(7) by (simp add: id_width_def)
  have r: "12 \<le> length (e @ take m d)" using assms(6) w by (simp add: e_def)
  have b: "buf = pre @ e @ take m d" by (simp add: assms(4) pre_def e_def)
  have v: "vint_ok k (length d)" and h: "i \<in> {EBML_ID, SEGMENT_ID, SEEKHEAD_ID, VOID_ID, INFO_ID, TRACKS_ID}"
    "i \<noteq> SEGMENT_ID" "i \<in> set header_ids" and sz: "int (4 + k + length d) \<le> TOTAL_FILE_BYTES w"
    using assms(3) w by (auto simp: header_ids_def c_eval)
  then have ld: "length d \<noteq> 2 ^ 56 - 1" "length d < 2 ^ 57" using assms(3) by auto
  have k: "k \<le> 8" using v by (simp add: vint_ok_def)
  from id_first [OF h(3)] obtain x xs where x: "be_bytes (id_width i) (unat i) = x # xs" "x \<noteq> 0" .
  have p: "unat (of_nat (length pre) :: u64) = length pre" using assms(5) by (intro pos64) (simp add: pre_def)
  have rd: "rd buf (length pre) = Some x" by (simp add: rd_def b e_def x(1))
  have c: "GetChank (drop (length pre) buf) = Some \<lparr>chank_id = i, id_bytes = of_nat 4,
      data_header_position = of_nat (4 + k), data_bytes = of_nat (length d), chank_bytes = of_nat N\<rparr>"
    using GetChank_item [OF header_id_ok [OF h(3)] v ld(1), of "take m d"] by (simp add: b e_def w N_def)
  have t: "\<not> (of_int (TOTAL_FILE_BYTES w) :: u64) < of_nat N"
    using sz assms(2) unfolding N_def by (rule of_int_less_u64)
  have q: "unat (of_nat (length pre + N) :: u64) = length pre + N"
    using assms(5) k ld(2) by (intro pos64) (simp add: pre_def N_def)
  have end_: "rd buf (length pre + N) = None" by (simp add: rd_None_iff b e_def w N_def)
  have "analyze_loop buf (TOTAL_FILE_BYTES w) (of_nat (length pre + N)) = None"
    by (subst analyze_loop.simps) (simp only: q end_ Option.bind.bind_lzero)
  then have "analyze_loop buf (TOTAL_FILE_BYTES w) (of_nat (length pre)) = None"
    by (subst analyze_loop.simps) (simp only: p rd c x(2) h(1,2) t Option.bind.bind_lunit Let_def Chank.simps
        if_False if_True simp_thms of_nat_add)
  moreover have "analyze_loop buf (TOTAL_FILE_BYTES w) 0 = analyze_loop buf (TOTAL_FILE_BYTES w) (of_nat (length pre))"
    using analyze_items [of es _ "[]", OF assms(1,2) _ r] assms(5) by (simp add: b pre_def)
  ultimately show ?thesis by (simp add: AnalyzeChankToWebMHeader_def)
qed

theorem long_header_overruns_witness:
  "AnalyzeChankToWebMHeader (items_enc [Element EBML_ID 1 [1], Segment 8 (2 ^ 56 - 1)] @
       be_bytes 4 (unat TRACKS_ID) @ vint 2 (length (replicate 1200 7)) @ take 1000 (replicate 1200 7))
     (webm0 (replicate 5000 0)) = None"
  by (rule long_header_overruns [where i = TRACKS_ID and d = "replicate 1200 7" and m = 1000
        and es = "[Element EBML_ID 1 [1], Segment 8 (2 ^ 56 - 1)]"])
    (simp_all add: vint_ok_def id_width_def c_eval webm0_def items_enc_def)

section \<open>Waiting for the header\<close>

lemma header_look:
  fixes w :: "'a webm_scheme"
  assumes "\<forall>e \<in> set es. item_ok (int (length f)) e" and "vint_ok k n"
    and "enc j = f" "f = items_enc es @ cluster_head k n @ rest"
    and "length (items_enc es) + 12 \<le> 1024" "8 \<le> k + length rest" "length f < 2 ^ 60"
    and "TOTAL_FILE_BYTES w < int (length f)" "CURRENT_FPOS_R w = 0" "FP w = 0" "WEBM_HEADER_data w = None"
  shows "UpdateWebMHeaderFromWebM enc j w = (if length f \<le> 1024 then None
    else Some (j, w\<lparr>FILE := f, FP := 0, TOTAL_FILE_BYTES := int (length f), CURRENT_FPOS_R := 0,
      CURRENT_READ_BYTES := 1024, WEBM_HEADER_total_bytes := of_nat (length (items_enc es)),
      WEBM_HEADER_data := Some (items_enc es)\<rparr>))"
proof -
  define H where "H = items_enc es"
  define u where "u = w\<lparr>FILE := f, TOTAL_FILE_BYTES := int (length f)\<rparr>"
  define m where "m = min 1024 (length f)"
  have ck: "look enc j w = (1, u)"
    using assms(3,8) by (simp add: look_def CheckWebMSize_def u_def Let_def)
  have lf: "length f = length H + 4 + k + length rest" by (simp add: assms(4) H_def cluster_head_def)
  define v where "v = u\<lparr>FP := m, CURRENT_READ_BYTES := of_nat m\<rparr>"
  have imp: "ImportWebM (replicate m 0) m u = Some (take m f, v)"
    using assms(7,9,10) read_bytes_le [of m "int (length f)"]
    by (auto simp: ImportWebM_def u_def v_def fread_def Let_def wrn_def m_def)
  define r where "r = take (m - (length H + 4 + k)) rest"
  have lm: "length H + 12 \<le> m" using assms(5,6) lf by (simp add: m_def H_def)
  have k: "k \<le> 8" using assms(2) by (simp add: vint_ok_def)
  have tk: "take m f = items_enc es @ cluster_head k n @ r"
    using lm k by (simp add: assms(4) H_def [symmetric] r_def cluster_head_def)
  have "8 \<le> k + length r" using lm assms(6) lf by (simp add: r_def m_def)
  then have an: "AnalyzeChankToWebMHeader (take m f) v =
      Some (1, v\<lparr>WEBM_HEADER_total_bytes := of_nat (length H)\<rparr>)"
    unfolding tk H_def using assms(1,2,5,7) by (intro header_analysis) (simp_all add: v_def u_def)
  have hb: "unat (of_nat (length H) :: u16) = length H" using assms(5) by (simp add: unat_of_nat H_def)
  have xs: "rdn (take m f) 0 (length H) = Some H" by (simp add: tk H_def rdn_def)
  show ?thesis
  proof (cases "length f \<le> 1024")
    case True
    then have "m = length f" by (simp add: m_def)
    with True show ?thesis
      using imp an xs hb assms(11)
      by (subst UpdateWebMHeaderFromWebM.simps) 
        (simp add: ck u_def HEADER_BUF_def v_def SeekABSWebM_def UpdateOffsetWebM_def fsetpos_def)
  next
    case False
    then have "m = 1024" by (simp add: m_def)
    with False show ?thesis
      using imp an xs hb
      by (subst UpdateWebMHeaderFromWebM.simps)
        (simp add: ck u_def HEADER_BUF_def v_def H_def SeekABSWebM_def UpdateOffsetWebM_def fsetpos_def)
  qed
qed

text \<open>
  C11: When the encoder has written the whole header and the first cluster head, within the first 1024
  bytes, by the time the file is first seen to grow: a file of more than 1024 bytes gives the header,
  the file rewound; a file of up to 1024 bytes makes the origin copy the header through a null pointer.
\<close>

theorem first_look:
  fixes w :: "'a webm_scheme"
  assumes "\<forall>e \<in> set es. item_ok (int (length f)) e" and "vint_ok k n"
    and "enc j = f" "f = items_enc es @ cluster_head k n @ rest"
    and "length (items_enc es) + 12 \<le> 1024" "8 \<le> k + length rest" "length f < 2 ^ 60"
    and "TOTAL_FILE_BYTES w < int (length f)" "CURRENT_FPOS_R w = 0" "FP w = 0" "WEBM_HEADER_data w = None"
  shows "if length f \<le> 1024 then UpdateWebMHeaderFromWebM enc j w = None
    else \<exists>w'. UpdateWebMHeaderFromWebM enc j w = Some (j, w') \<and>
      WEBM_HEADER_data w' = Some (items_enc es) \<and> unat (WEBM_HEADER_total_bytes w') = length (items_enc es) \<and>
      FILE w' = f \<and> FP w' = 0"
  using header_look [where w = w and enc = enc and j = j, OF assms] assms(5) by (simp add: unat_of_nat)

theorem first_look_witness:
  "UpdateWebMHeaderFromWebM (\<lambda>_. items_enc [Segment 8 (2 ^ 56 - 1), Element INFO_ID 1 [7, 8]] @
     cluster_head 1 3 @ replicate 7 1) 0 (webm0 []) = None"
proof -
  define es where "es = [Segment 8 (2 ^ 56 - 1), Element INFO_ID 1 [7, 8]]"
  define f where "f = items_enc es @ cluster_head 1 3 @ replicate 7 (1 :: u8)"
  have l: "length (items_enc es) = 19" by (simp add: es_def items_enc_def id_width_def c_eval)
  have f: "length f = 31" unfolding f_def length_append l by (simp add: cluster_head_def)
  have ok: "\<forall>e \<in> set es. item_ok (int (length f)) e"
    by (simp add: f es_def vint_ok_def id_width_def c_eval)
  have v: "vint_ok 1 3" by (simp add: vint_ok_def)
  from first_look [OF ok v _ f_def, of "\<lambda>_. f" 0 "webm0 []"] show ?thesis
    unfolding es_def [symmetric] f_def [symmetric] by (simp add: l f webm0_def)
qed

end
