(* ===== verification/Start.thy ===== *)
theory Start
  imports Progress Interrupt Webm_Header
begin

text \<open>
  How a node comes up: the initial values of the globals, the ARP exchange with the gateway
  (\<^verbatim>\<open>ARPRequest\<close> and \<^verbatim>\<open>GetGatewayIPandMAC\<close> of \<^verbatim>\<open>src/src/common/p2p.c\<close>) and the set-up parts of the
  main functions of \<^verbatim>\<open>src/src/peer/main.c\<close> and \<^verbatim>\<open>src/src/originsource/main.c\<close>.  What the interface
  of the host is (\<open>host_ip\<close>, in network order, and \<open>host_mac\<close>) and the gateway's answer \<open>reply\<close>, which
  the read thread takes while the main thread waits, are arguments.  The node \<open>e\<close> gives what the
  environment decides: the file, the clock, \<^verbatim>\<open>rand\<close> and fresh memory.
\<close>

section \<open>The globals\<close>

definition globals :: "node \<Rightarrow> node" where
  "globals e = e\<lparr>
     FP := 0, TOTAL_FILE_BYTES := 0, CURRENT_FPOS_R := 0, CURRENT_FPOS_W := 0, CURRENT_READ_BYTES := 0,
     WEBM_HEADER_total_bytes := 0, WEBM_HEADER_data := None, FIRST_CLUSTER_SEQ := 0,
     CURRENT_CLUSTER := None, CURRENT_BLOCK := None, CURRENT_CHILD_BLOCK := [None, None],
     CURRENT_BLOCKINFO := [block_info0], CURRENT_BLOCK_NUM := 0, TOTAL_BLOCK_NUM := 0, LATEST_BLOCK_SEQ := 0,
     IS_FIRST_CLUSTER := True, TIMECODE_OFFSET := 0, NODE_TIMECODE_OFFSET := 0, IS_GET_TIMECODE_OFFSET := False,
     ADDR := \<lparr>SRC_MAC = replicate 6 0, DST_MAC = replicate 4 (replicate 6 0), SRC_IP = 0, DST_IP = replicate 4 0,
       SRC_PORT = 0, DST_PORT = replicate 4 0\<rparr>,
     NODES_STATUS := replicate 4 node_status0, NODES_LIST := [], EXCEPT_LIST := [], CURRENT_CHILD_NUM := 0,
     CONNECTED_NODES := 0, IS_SETUP := True, IS_BEGIN_STREAMING := False, IS_BEGIN_PLAYING := False,
     IS_RETRY := False, CURRENT_NODE_ID := 0, CURRENT_CACHE := 0, TOTAL_BUFFER := 0, PLAYED_BUFFER := 0,
     GATEWAY_MAC := replicate 6 0, IS_GATEWAY_MAC_GET := False, DETACH_NUM := 0, DEPART_NUM := 0, WIRE := []\<rparr>"

section \<open>The gateway\<close>

definition ZEROS_MAC :: bytes where "ZEROS_MAC = replicate 6 0"
definition ARPHRD_ETHER :: u16 where "ARPHRD_ETHER = 1"

text \<open>The 42 bytes of the \<^verbatim>\<open>struct arphdr\<close>, which has no padding.\<close>

definition ARPRequest :: "bytes \<Rightarrow> bytes \<Rightarrow> bytes \<Rightarrow> bytes" where
  "ARPRequest src_mac src_ip dst_ip =
     BROADCAST_MAC @ src_mac @ mem16 (htons ETH_P_ARP) @
     mem16 (htons ARPHRD_ETHER) @ mem16 (htons ETHERTYPE_IP) @ [6, 4] @ mem16 (htons 1) @
     src_mac @ src_ip @ ZEROS_MAC @ dst_ip"

text \<open>The main thread waits until the read thread has seen the answer; without it, for ever.\<close>

definition GetGatewayIPandMAC :: "u32 \<Rightarrow> bytes \<Rightarrow> u32 \<Rightarrow> bytes \<Rightarrow> node \<Rightarrow> node option" where
  "GetGatewayIPandMAC host_ip host_mac gw_ip reply s = do {
     let s = s\<lparr>ADDR := (ADDR s)\<lparr>SRC_MAC := host_mac\<rparr>\<rparr>;
     let s = s\<lparr>WIRE := WIRE s @ [ARPRequest host_mac (mem32 host_ip) (mem32 gw_ip)]\<rparr>;
     s \<leftarrow> receive_arp reply s;
     if IS_GATEWAY_MAC_GET s then Some s else None
   }"

section \<open>The peer\<close>

definition peer_main :: "u32 \<Rightarrow> bytes \<Rightarrow> u32 \<Rightarrow> u32 \<Rightarrow> u16 \<Rightarrow> bytes \<Rightarrow> node \<Rightarrow> node option" where
  "peer_main host_ip host_mac gw_ip os_ip src_port reply e = do {
     let s = OpenWebM (globals e);
     let s = s\<lparr>ADDR := (ADDR s)\<lparr>SRC_PORT := src_port, SRC_IP := host_ip, SRC_MAC := host_mac\<rparr>\<rparr>;
     s \<leftarrow> GetGatewayIPandMAC host_ip host_mac gw_ip reply s;
     s \<leftarrow> renew_dst os_ip OS_PORT PARENT_ID s;
     parent \<leftarrow> idx (NODES_STATUS s) PARENT_ID;
     let parent = parent\<lparr>ipaddr := ntohl os_ip, port := OS_PORT, node_id := 0, layer := 0\<rparr>;
     ns \<leftarrow> upd (NODES_STATUS s) PARENT_ID parent;
     me \<leftarrow> idx ns MY_ID;
     ns \<leftarrow> upd ns MY_ID (me\<lparr>p_ipaddr := ntohl host_ip\<rparr>);
     let s = s\<lparr>NODES_STATUS := ns, EXCEPT_LIST := [], NODES_LIST := ListPush [] (copy_node node_info0 parent),
       LATEST_BLOCK_SEQ := 0\<rparr>;
     let (t, s) = stamp (InitChildBlocks s);
     SendSetup (s\<lparr>SETUP_TIMESTAMP := t\<rparr>)
   }"

section \<open>The origin\<close>

text \<open>Up to the first look at the file, and from the header found to the first cluster.\<close>

definition origin_main :: "u32 \<Rightarrow> bytes \<Rightarrow> u32 \<Rightarrow> bytes \<Rightarrow> node \<Rightarrow> node option" where
  "origin_main host_ip host_mac gw_ip reply e = do {
     let s = OpenWebM ((globals e)\<lparr>TOTAL_BUFFER := of_int DEFAULT_CACHE, LATEST_BLOCK_SEQ := 0\<rparr>);
     let s = s\<lparr>ADDR := (ADDR s)\<lparr>SRC_MAC := host_mac\<rparr>\<rparr>;
     me \<leftarrow> idx (NODES_STATUS s) MY_ID;
     let me = me\<lparr>ipaddr := ntohl host_ip, p_ipaddr := ntohl host_ip, port := OS_PORT, node_id := 0, layer := 0\<rparr>;
     ns \<leftarrow> upd (NODES_STATUS s) MY_ID me;
     let s = s\<lparr>NODES_STATUS := ns, IS_SETUP := False, EXCEPT_LIST := [],
       NODES_LIST := ListPush [] (copy_node node_info0 me)\<rparr>;
     let s = s\<lparr>ADDR := (ADDR s)\<lparr>SRC_PORT := OS_PORT, SRC_IP := host_ip, SRC_MAC := host_mac\<rparr>\<rparr>;
     GetGatewayIPandMAC host_ip host_mac gw_ip reply s
   }"

definition origin_stream :: "(nat \<Rightarrow> bytes) \<Rightarrow> node \<Rightarrow> node option" where
  "origin_stream enc s = do {
     (k, s) \<leftarrow> UpdateWebMHeaderFromWebM enc 0 s;
     let s = SeekABSWebM (int (unat (WEBM_HEADER_total_bytes s))) FposR s;
     Some ((InitChildBlocks (InitBlock_store (InitCluster s)))\<lparr>FIRST_CLUSTER_SEQ := 0\<rparr>)
   }"

section \<open>A peer becomes ready\<close>

text \<open>The introduction of the parent leaves the file alone and allocates the first cluster and block.\<close>

definition joined :: "node \<Rightarrow> node \<Rightarrow> bool" where
  "joined s s' \<longleftrightarrow> FILE s' = FILE s \<and> FP s' = FP s \<and> FILE_LIMIT s' = FILE_LIMIT s \<and>
     TOTAL_FILE_BYTES s' = TOTAL_FILE_BYTES s \<and> CURRENT_CLUSTER s' = CURRENT_CLUSTER (InitCluster s) \<and>
     CURRENT_BLOCKINFO s' = CURRENT_BLOCKINFO s \<and> CURRENT_BLOCK_NUM s' = CURRENT_BLOCK_NUM s \<and>
     LATEST_BLOCK_SEQ s' = LATEST_BLOCK_SEQ s \<and> \<not> IS_GET_TIMECODE_OFFSET s' \<and>
     ADDR s' = ADDR s \<and> GATEWAY_MAC s' = GATEWAY_MAC s \<and> CURRENT_CHILD_BLOCK s' = CURRENT_CHILD_BLOCK s \<and>
     length (NODES_STATUS s') = length (NODES_STATUS s) \<and>
     (\<exists>b. CURRENT_BLOCK s' = Some b \<and> cluster_seq (info b) = cluster_seq (prev b))"

lemma stamp_slot_store: "stamp_slot i s = Some s' \<Longrightarrow> s' = s\<lparr>NODES_STATUS := NODES_STATUS s', TICK := TICK s'\<rparr>"
  by (auto simp: stamp_slot_def stamp_def Let_def bind_eq_Some_conv)

lemma NodeInitialStatus_joined:
  assumes "NodeInitialStatus d n s = Some s'"
  shows "joined s s'"
proof -
  from assms obtain u v where u: "stamp_slot PARENT_ID u = Some v" "s' = v\<lparr>IS_SETUP := False\<rparr>" "joined s u"
    unfolding NodeInitialStatus_def Let_def stamp_def
    by (elim bind_SomeE) (simp add: Let_def; elim bind_SomeE; simp;
        (rule that, assumption, (simp; fail), simp add: joined_def InitBlock_store_def InitCluster_def Let_def upd_Some))
  have "length (NODES_STATUS v) = length (NODES_STATUS u)"
    using stamp_slot_slots [OF u(1)] by (simp add: same_slots_def)
  then have "joined s v"
    by (subst stamp_slot_store [OF u(1)]) (use u(3) in \<open>simp add: joined_def InitCluster_def Let_def\<close>)
  then show ?thesis by (simp add: u(2) joined_def)
qed

lemma InitChildBlocks_blocks:
  "InitChildBlocks s = s\<lparr>HEAP_N := HEAP_N s + 4, CURRENT_CHILD_BLOCK :=
     [Some \<lparr>info = HEAP_B s (HEAP_N s), prev = HEAP_B s (HEAP_N s + 1)\<rparr>,
      Some \<lparr>info = HEAP_B s (HEAP_N s + 2), prev = HEAP_B s (HEAP_N s + 3)\<rparr>]\<rparr>"
  by (simp add: InitChildBlocks_def MAX_CHILD_NUM_def eval_nat_numeral Let_def)

text \<open>What the set-up of the peer leaves: everything but the parent, which is still to introduce itself.\<close>

definition started :: "node \<Rightarrow> node \<Rightarrow> bool" where
  "started e s \<longleftrightarrow> node_wf s \<and> slots_ok s \<and> None \<notin> set (CURRENT_CHILD_BLOCK s) \<and> CONNECTED_NODES s = 0 \<and>
     FILE s = FILE e \<and> FP s = 0 \<and> FILE_LIMIT s = FILE_LIMIT e \<and> TOTAL_FILE_BYTES s = 0 \<and>
     CURRENT_BLOCKINFO s = [block_info0] \<and> CURRENT_BLOCK_NUM s = 0 \<and> LATEST_BLOCK_SEQ s = 0"

lemma started_cong:
  assumes "started e s" and "ADDR t = ADDR s" "NODES_STATUS t = NODES_STATUS s" "GATEWAY_MAC t = GATEWAY_MAC s"
    "CURRENT_CHILD_BLOCK t = CURRENT_CHILD_BLOCK s" "CONNECTED_NODES t = CONNECTED_NODES s"
    "CURRENT_CHILD_NUM t = CURRENT_CHILD_NUM s" "FILE t = FILE s" "FP t = FP s" "FILE_LIMIT t = FILE_LIMIT s"
    "TOTAL_FILE_BYTES t = TOTAL_FILE_BYTES s" "CURRENT_BLOCKINFO t = CURRENT_BLOCKINFO s"
    "CURRENT_BLOCK_NUM t = CURRENT_BLOCK_NUM s" "LATEST_BLOCK_SEQ t = LATEST_BLOCK_SEQ s"
  shows "started e t"
  using assms(1) unfolding started_def node_wf_def slots_ok_def conn_of_def assms(2-) .

lemma gateway_reply:
  assumes "rdn reply 0 6 = Some d" "d \<noteq> BROADCAST_MAC" "rdn reply 6 6 = Some gw" "\<not> IS_GATEWAY_MAC_GET s"
  shows "GetGatewayIPandMAC host_ip host_mac gw_ip reply s = Some (s\<lparr>ADDR := (ADDR s)\<lparr>SRC_MAC := host_mac\<rparr>,
    WIRE := WIRE s @ [ARPRequest host_mac (mem32 host_ip) (mem32 gw_ip)], GATEWAY_MAC := gw, IS_GATEWAY_MAC_GET := True\<rparr>)"
  using assms by (simp add: GetGatewayIPandMAC_def receive_arp_def)

lemma peer_main_ok:
  assumes "length host_mac = 6" and reply: "rdn reply 0 6 = Some d" "d \<noteq> BROADCAST_MAC" "rdn reply 6 6 = Some gw"
  obtains s u where "peer_main host_ip host_mac gw_ip os_ip src_port reply e = Some s" "started e s"
    "posts u PARENT_ID (proto_code SETUP_PROTO # be_bytes 4 (unat (ntohl host_ip))) s" "node_wf u"
    "WIRE u = [ARPRequest host_mac (mem32 host_ip) (mem32 gw_ip)]" "DST_IP (ADDR u) ! nat PARENT_ID = os_ip"
    "DST_PORT (ADDR u) ! nat PARENT_ID = OS_PORT" "SRC_IP (ADDR u) = host_ip" "SRC_PORT (ADDR u) = src_port"
proof -
  define s0 where "s0 = OpenWebM (globals e)"
  define s1 where "s1 = s0\<lparr>ADDR := (ADDR s0)\<lparr>SRC_PORT := src_port, SRC_IP := host_ip, SRC_MAC := host_mac\<rparr>,
    WIRE := [ARPRequest host_mac (mem32 host_ip) (mem32 gw_ip)], GATEWAY_MAC := gw, IS_GATEWAY_MAC_GET := True\<rparr>"
  have g: "GetGatewayIPandMAC host_ip host_mac gw_ip reply
      (s0\<lparr>ADDR := (ADDR s0)\<lparr>SRC_PORT := src_port, SRC_IP := host_ip, SRC_MAC := host_mac\<rparr>\<rparr>) = Some s1"
    by (subst gateway_reply [OF reply]) (simp_all add: s1_def s0_def OpenWebM_def globals_def)
  have wf1: "node_wf s1" using assms(1) rdn_Some_length [OF reply(3)]
    by (simp add: s1_def s0_def node_wf_def addr_ok_def OpenWebM_def globals_def)
  obtain a where a: "renew_dst os_ip OS_PORT PARENT_ID s1 = Some (s1\<lparr>ADDR := a\<rparr>)" "node_wf (s1\<lparr>ADDR := a\<rparr>)"
    "DST_IP a ! nat PARENT_ID = os_ip" "DST_PORT a ! nat PARENT_ID = OS_PORT" "SRC_IP a = SRC_IP (ADDR s1)"
    "SRC_PORT a = SRC_PORT (ADDR s1)"
    using renew_dst_total [OF wf1, of PARENT_ID os_ip OS_PORT] by auto
  define pa where "pa = node_status0\<lparr>ipaddr := ntohl os_ip, port := OS_PORT, node_id := 0, layer := 0\<rparr>"
  define me where "me = node_status0\<lparr>p_ipaddr := ntohl host_ip\<rparr>"
  define ns where "ns = [node_status0, node_status0, pa, me]"
  define s2 where "s2 = s1\<lparr>ADDR := a, NODES_STATUS := ns, EXCEPT_LIST := [], NODES_LIST := ListPush [] (copy_node node_info0 pa),
    LATEST_BLOCK_SEQ := 0\<rparr>"
  define u where "u = (snd (stamp (InitChildBlocks s2)))\<lparr>SETUP_TIMESTAMP := fst (stamp (InitChildBlocks s2))\<rparr>"
  have n1: "NODES_STATUS s1 = [node_status0, node_status0, node_status0, node_status0]"
    by (simp add: s1_def s0_def OpenWebM_def globals_def eval_nat_numeral)
  have st: "started e u"
    using a(2) by (simp add: started_def u_def s2_def stamp_def InitChildBlocks_blocks node_wf_def slots_ok_def conn_of_def
        conn_ok_def connected_bit ns_def, simp add: s1_def s0_def OpenWebM_def globals_def)
  then have wf: "node_wf u" by (simp add: started_def)
  have nu: "NODES_STATUS u = ns" by (simp add: u_def s2_def stamp_def InitChildBlocks_blocks)
  have pl: "setup_payload (NODES_STATUS u ! 3) = be_bytes 4 (unat (ntohl host_ip))"
    by (simp add: nu ns_def me_def setup_payload_def node_status0_def node_info0_def node_info.defs block_info.defs)
  obtain s where s: "SendSetup u = Some s" "posts u PARENT_ID (proto_code SETUP_PROTO # be_bytes 4 (unat (ntohl host_ip))) s"
    using SendSetup_posts [OF wf] unfolding pl by blast
  have "peer_main host_ip host_mac gw_ip os_ip src_port reply e = SendSetup u"
    unfolding peer_main_def Let_def s0_def [symmetric] g Option.bind.bind_lunit a(1)
    by (simp add: n1 idx_def upd_def PARENT_ID_def MY_ID_def s2_def u_def ns_def pa_def me_def split: prod.split)
  moreover have "started e s"
  proof -
    have "started e (u\<lparr>WIRE := WIRE s\<rparr>)" by (rule started_cong [OF st]) simp_all
    moreover have "s = u\<lparr>WIRE := WIRE s\<rparr>" using s(2) by (simp add: posts_def)
    ultimately show ?thesis by simp
  qed
  moreover have "WIRE u = [ARPRequest host_mac (mem32 host_ip) (mem32 gw_ip)]" "ADDR u = a"
    by (simp_all add: u_def s2_def stamp_def InitChildBlocks_blocks s1_def)
  ultimately show thesis using s wf a(3-6) by (intro that [of s u]) (simp_all add: s1_def)
qed

text \<open>A parent's introduction and the header packet make a started peer ready.\<close>

lemma started_ready:
  assumes st: "started e s0" and empty: "FILE e = []" "1018 \<le> FILE_LIMIT e"
    and s1: "NodeInitialStatus data n s0 = Some s1" and h: "length h \<le> 1000"
  obtains s2 R where "AssembleBlock (BLOCKINFO_START @ h @ stale) (of_nat (18 + length h)) s1 = Some (Ret s2)"
    "ready s2" "CONNECTED_NODES s2 = 4" "closed R = h" "opened R = []" "zero_time R = None"
    "records (NODE_TIMECODE_OFFSET s2) R s2"
proof -
  note j = NodeInitialStatus_joined [OF s1, unfolded joined_def] and sl = NodeInitialStatus_slots [OF s1]
  obtain b where b: "CURRENT_BLOCK s1 = Some b" "cluster_seq (info b) = cluster_seq (prev b)" using j by blast
  obtain c where c: "CURRENT_CLUSTER s1 = Some c" using j by (simp add: InitCluster_def Let_def)
  define m :: u16 where "m = of_nat (18 + length h)"
  have m: "unat m = 18 + length h" using h by (simp add: m_def unat_of_nat del: of_nat_add)
  have start: "18 \<le> length (BLOCKINFO_START @ h @ stale)" "take 18 (BLOCKINFO_START @ h @ stale) = BLOCKINFO_START"
    "take (unat m - 18) (drop 18 (BLOCKINFO_START @ h @ stale)) = h"
    "unat m \<le> length (BLOCKINFO_START @ h @ stale)" "18 \<le> unat m" "unat m \<le> FILE_LIMIT s1"
    using m h empty j st by (simp_all add: BLOCKINFO_START_def started_def)
  have z: "FILE s1 = []" "FP s1 = 0" "CURRENT_BLOCKINFO s1 = [block_info0]" "CURRENT_BLOCK_NUM s1 = 0"
    "TOTAL_FILE_BYTES s1 = 0"
    using j st empty by (simp_all add: started_def)
  obtain s2 where s2: "AssembleBlock (BLOCKINFO_START @ h @ stale) m s1 = Some (Ret s2)" "file_inv h [] s2"
    "WEBM_HEADER_data s2 = Some h" "unat (WEBM_HEADER_total_bytes s2) = length h"
    "cl_seqs s2 = Some (ucast (cluster_seq (info b)), cl_seq (cl_prev c))" "CURRENT_BLOCK s2 = Some b"
    "LATEST_BLOCK_SEQ s2 = LATEST_BLOCK_SEQ s1" "IS_GET_TIMECODE_OFFSET s2 = IS_GET_TIMECODE_OFFSET s1"
    using assemble_begin [OF start(1,2) z(1,2) c b(1) z(3-5) start(5,4,6)] m unfolding start(3) by auto
  define R where "R = \<lparr>closed = h, opened = [], open_seq = cluster_seq (prev b), prev_seq = cl_seq (cl_prev c),
    latest = LATEST_BLOCK_SEQ s1, zero_time = None\<rparr>"
  have R: "records (NODE_TIMECODE_OFFSET s2) R s2" using s2 b j by (simp add: records_def R_def)
  have k: "keeps s1 s2" using run_keepsD [OF AssembleBlock_keeps s2(1)] .
  have "node_wf s1" using st j by (simp add: started_def node_wf_def)
  then have wf: "node_wf s2" using k by (cases s1; cases s2) (simp add: keeps_def node_wf_def)
  have "slots_ok s1" "CONNECTED_NODES s1 = 4"
    using st sl by (auto simp: started_def intro: slots_ok_parent [of s0] simp: connected_bit)
  then have sl2: "slots_ok s2" "CONNECTED_NODES s2 = 4"
    using same_slots_ok [OF keeps_same_slots [OF k]] keeps_same_slots [OF k] by (simp_all add: same_slots_def conn_of_def)
  have "None \<notin> set (CURRENT_CHILD_BLOCK s2)" using k j st by (simp add: keeps_def started_def)
  moreover have "CURRENT_CLUSTER s2 \<noteq> None" using s2(5) by (auto simp: cl_seqs_def)
  ultimately have "ready s2" using wf sl2 s2(3,4) h by (simp add: ready_def)
  with R sl2(2) s2(1) show thesis by (intro that [of s2 R]) (simp_all add: m_def R_def)
qed

text \<open>
  C5: A peer comes up: after its set-up exactly two frames are on the wire, the ARP request and a
  setup request which the node at the address it was given takes for one of this peer; and once a
  parent has introduced itself, with whatever bytes, and the header of the stream is there, the peer
  is ready to serve every message, with its parent as the only neighbour, and its file holds what
  the abstract recorder begins with.
\<close>

theorem peer_starts:
  assumes mac: "length host_mac = 6" and reply: "rdn reply 0 6 = Some d" "d \<noteq> BROADCAST_MAC" "rdn reply 6 6 = Some gw"
    and empty: "FILE e = []" "1018 \<le> FILE_LIMIT e"
    and data: "length data = 1471" "unat n \<le> 1471" and h: "length h \<le> 1000"
  shows "\<exists>s0 s1 s2 f R. peer_main host_ip host_mac gw_ip os_ip src_port reply e = Some s0 \<and>
    WIRE s0 = [ARPRequest host_mac (mem32 host_ip) (mem32 gw_ip), f] \<and>
    (\<forall>os. SRC_IP (ADDR os) = os_ip \<longrightarrow> (\<forall>dispatch stale. receive_frame dispatch OS_PORT (f @ stale) os =
      dispatch (proto_code SETUP_PROTO) (be_bytes 4 (unat (ntohl host_ip)) @ stale) 4 host_ip (htons src_port) os)) \<and>
    NodeInitialStatus data n s0 = Some s1 \<and>
    AssembleBlock (BLOCKINFO_START @ h @ stale) (of_nat (18 + length h)) s1 = Some (Ret s2) \<and>
    ready s2 \<and> CONNECTED_NODES s2 = 4 \<and> closed R = h \<and> opened R = [] \<and> zero_time R = None \<and>
    records (NODE_TIMECODE_OFFSET s2) R s2"
proof -
  obtain s0 u where s0: "peer_main host_ip host_mac gw_ip os_ip src_port reply e = Some s0" "started e s0"
    "posts u PARENT_ID (proto_code SETUP_PROTO # be_bytes 4 (unat (ntohl host_ip))) s0" "node_wf u"
    "WIRE u = [ARPRequest host_mac (mem32 host_ip) (mem32 gw_ip)]" "DST_IP (ADDR u) ! nat PARENT_ID = os_ip"
    "DST_PORT (ADDR u) ! nat PARENT_ID = OS_PORT" "SRC_IP (ADDR u) = host_ip" "SRC_PORT (ADDR u) = src_port"
    by (rule peer_main_ok [OF mac reply])
  obtain f where f: "WIRE s0 = WIRE u @ [f]" using s0(3) by (auto simp: posts_def sends_def)
  have fr: "receive_frame dispatch OS_PORT (f @ st) os =
      dispatch (proto_code SETUP_PROTO) (be_bytes 4 (unat (ntohl host_ip)) @ st) 4 host_ip (htons src_port) os"
    if "SRC_IP (ADDR os) = os_ip" for os st dispatch
    using posts_receive [OF s0(3,4) slot_ix_simps(1) _ _ s0(7), of os] that s0(6,8,9) f by auto
  have l4: "length (NODES_STATUS s0) = 4" using s0(2) by (simp add: started_def node_wf_def)
  obtain s1 where s1: "NodeInitialStatus data n s0 = Some s1"
    using NodeInitialStatus_defined [OF l4, of n data] data by auto
  obtain s2 R where "AssembleBlock (BLOCKINFO_START @ h @ stale) (of_nat (18 + length h)) s1 = Some (Ret s2)"
    "ready s2" "CONNECTED_NODES s2 = 4" "closed R = h" "opened R = []" "zero_time R = None"
    "records (NODE_TIMECODE_OFFSET s2) R s2"
    by (rule started_ready [OF s0(2) empty s1 h])
  with s0(1,5) f fr s1 show ?thesis
    by (intro exI [of _ s0] exI [of _ s1] exI [of _ s2] exI [of _ f] exI [of _ R]) simp
qed

theorem peer_starts_witness:
  "\<exists>s0 s1 s2 f R. peer_main 0x0100a8c0 (replicate 6 1) 0x0300a8c0 0x0200a8c0 5000 (replicate 12 7) node0 = Some s0 \<and>
    WIRE s0 = [ARPRequest (replicate 6 1) (mem32 0x0100a8c0) (mem32 0x0300a8c0), f] \<and>
    NodeInitialStatus (replicate 1471 0) 68 s0 = Some s1 \<and>
    AssembleBlock (BLOCKINFO_START @ [0x1a] @ []) (of_nat (18 + length [0x1a :: u8])) s1 = Some (Ret s2) \<and>
    ready s2 \<and> records (NODE_TIMECODE_OFFSET s2) R s2 \<and> closed R = [0x1a]"
proof -
  have r: "rdn (replicate 12 7) 0 6 = Some (replicate 6 7)" "replicate 6 7 \<noteq> BROADCAST_MAC"
    "rdn (replicate 12 7) 6 6 = Some (replicate 6 7)"
    by (simp_all add: rdn_def BROADCAST_MAC_def)
  have e: "FILE node0 = []" "1018 \<le> FILE_LIMIT node0"
    by (simp_all add: node0_def store0_def webm0_def store.defs webm.defs)
  show ?thesis
    using peer_starts [OF _ r e, of "replicate 6 1" "replicate 1471 0" 68 "[0x1a]" "0x0100a8c0" "0x0300a8c0"
        "0x0200a8c0" 5000 "[]"] by simp blast
qed

end
