(* ===== verification/Cutting.thy ===== *)
theory Cutting
  imports Webm_File
begin

text \<open>
  The blocks of a whole cluster.  What \<^verbatim>\<open>GetNextBlockByBytes\<close> cuts does not depend on what follows
  the bytes it looks at, so the two readers of a file - \<^verbatim>\<open>ReadBlock\<close>, which stops at the end of the
  file, and \<^verbatim>\<open>SendCacheBlock\<close>, which pads with zeros - cut the same blocks.  \<open>cut_cluster\<close> is the
  list of blocks from a position of a file to the end of a cluster.
\<close>

section \<open>The cut does not depend on what follows\<close>

lemma rd_extend: "rd buf i = Some b \<Longrightarrow> rd (buf @ x) i = Some b"
  by (auto simp: rd_def nth_append split: if_splits)

lemma carry_loop_extend: "carry_loop buf i k v = Some w \<Longrightarrow> carry_loop (buf @ x) i k v = Some w"
proof (induction k arbitrary: i v)
  case (Suc k)
  then obtain b where b: "rd buf i = Some b" "carry_loop buf (Suc i) k (push_bit 8 v + ucast b) = Some w"
    by (auto simp: bind_eq_Some_conv)
  then show ?case using Suc.IH [OF b(2)] by (simp add: rd_extend [OF b(1)])
qed simp

lemma GetEBMLID_extend: "GetEBMLID buf = Some r \<Longrightarrow> GetEBMLID (buf @ x) = Some r"
  unfolding GetEBMLID_def Let_def
  by (clarsimp simp: bind_eq_Some_conv) (simp add: rd_extend carry_loop_extend)

lemma GetDataBytes_extend: "GetDataBytes buf = Some r \<Longrightarrow> GetDataBytes (buf @ x) = Some r"
  unfolding GetDataBytes_def Let_def
  by (clarsimp simp: bind_eq_Some_conv) (simp add: rd_extend carry_loop_extend)

lemma GetDataBytes_drop: "GetDataBytes (drop n buf) = Some r \<Longrightarrow> GetDataBytes (drop n (buf @ x)) = Some r"
  by (cases "n \<le> length buf") (auto dest: GetDataBytes_extend)

lemma GetChank_extend: "GetChank buf = Some c \<Longrightarrow> GetChank (buf @ x) = Some c"
  unfolding GetChank_def Let_def
  by (elim bind_SomeE)
    (clarsimp simp: GetEBMLID_extend GetDataBytes_drop simp del: drop_append elim!: bind_SomeE)

lemma GetChank_Nil [simp]: "GetChank [] = None"
  by (simp add: GetChank_def)

lemma GetChank_drop: "GetChank (drop n buf) = Some c \<Longrightarrow> GetChank (drop n (buf @ x)) = Some c"
  by (cases "n \<le> length buf") (auto dest: GetChank_extend)

lemma chank_loop_extend:
  assumes "chank_loop buf req p t st = Some r"
  shows "chank_loop (buf @ x) req p t st = Some r"
proof (rule chank_loop.raw_induct [where P = "\<lambda>buf req p t st r. chank_loop (buf @ x) req p t st = Some r",
      OF _ assms], goal_cases)
  case (1 f buf req p t st r)
  from 1(2) obtain c where c: "GetChank (drop (unat p) buf) = Some c" by (auto simp: bind_eq_Some_conv)
  note c' = GetChank_drop [OF c, of x]
  show ?case using 1(2) unfolding c Option.bind.bind_lunit
    by (subst chank_loop.simps, unfold c' Option.bind.bind_lunit)
      (auto split: if_split_asm simp: 1(1))
qed

lemma chank_loop_nonempty: "chank_loop buf req p t st = Some r \<Longrightarrow> unat p < length buf"
  by (rule ccontr) (simp add: chank_loop.simps [of buf req p t st])

lemma GetChankByBytes_extend:
  "GetChankByBytes b (drop n buf) req = Some r \<Longrightarrow> GetChankByBytes b (drop n (buf @ x)) req = Some r"
proof -
  assume "GetChankByBytes b (drop n buf) req = Some r"
  then obtain t where t: "chank_loop (drop n buf) req 0 0 0 = Some t"
    and r: "r = (b\<lparr>info := (info b)\<lparr>bytes := bytes (info b) + ucast (fst t)\<rparr>\<rparr>, snd t)"
    by (cases r) (auto simp: GetChankByBytes_def bind_eq_Some_conv)
  have "n < length buf" using chank_loop_nonempty [OF t] by simp
  then have "chank_loop (drop n (buf @ x)) req 0 0 0 = Some t" using chank_loop_extend [OF t] by simp
  then show ?thesis by (cases t) (simp add: GetChankByBytes_def r)
qed

lemma Assign_extend:
  "AssignBlockInfoByPiece b (drop n buf) req f = Some b' \<Longrightarrow>
    AssignBlockInfoByPiece b (drop n (buf @ x)) req f = Some b'"
  unfolding AssignBlockInfoByPiece_def Let_def
  by (cases "GetChank (drop n buf)") (simp_all add: GetChank_drop del: drop_append split: if_splits)

text \<open>\<open>extends m m'\<close>: \<open>m'\<close> is defined, with the same value, wherever \<open>m\<close> is.\<close>

definition extends :: "'a option \<Rightarrow> 'a option \<Rightarrow> bool" where
  "extends m m' \<longleftrightarrow> (\<forall>v. m = Some v \<longrightarrow> m' = Some v)"

lemma extends_refl: "extends m m"
  by (simp add: extends_def)

lemma extends_bind:
  "extends m m' \<Longrightarrow> (\<And>a. extends (f a) (g a)) \<Longrightarrow> extends (Option.bind m f) (Option.bind m' g)"
  by (auto simp: extends_def bind_eq_Some_conv)

lemma extends_if: "extends m m' \<Longrightarrow> extends n n' \<Longrightarrow> extends (if c then m else n) (if c then m' else n')"
  by simp

lemma extends_prod: "(\<And>a b. extends (f a b) (g a b)) \<Longrightarrow> extends (case z of (a, b) \<Rightarrow> f a b) (case z of (a, b) \<Rightarrow> g a b)"
  by (cases z) simp

lemma cut_extends:
  "extends (GetChank buf) (GetChank (buf @ x))"
  "extends (GetChankByBytes b buf req) (GetChankByBytes b (buf @ x) req)"
  "extends (GetChankByBytes b (drop n buf) req) (GetChankByBytes b (drop n (buf @ x)) req)"
  "extends (AssignBlockInfoByPiece b buf req f) (AssignBlockInfoByPiece b (buf @ x) req f)"
  "extends (AssignBlockInfoByPiece b (drop n buf) req f) (AssignBlockInfoByPiece b (drop n (buf @ x)) req f)"
  using GetChank_extend GetChankByBytes_extend [of b 0] GetChankByBytes_extend
    Assign_extend [of b 0] Assign_extend
  unfolding extends_def by force+

lemma GetNext_extend:
  assumes "GetNextBlockByBytes b req buf = Some r"
  shows "GetNextBlockByBytes b req (buf @ x) = Some r"
proof -
  have "extends (GetNextBlockByBytes b req buf) (GetNextBlockByBytes b req (buf @ x))"
    unfolding GetNextBlockByBytes_def Let_def
    by (intro extends_if extends_bind extends_prod cut_extends extends_refl)
  with assms show ?thesis by (simp add: extends_def)
qed

section \<open>The blocks of a cluster\<close>

definition start_block :: "u16 \<Rightarrow> Block" where
  "start_block cs = \<lparr>info = block_info0,
     prev = block_info0\<lparr>status := STATUS_INIT, cluster_seq := cs, pos := of_nat CLUSTER_HEADER_BYTES\<rparr>\<rparr>"

lemma RenewBlock_start: "RenewBlock b = start_block (cluster_seq (info b) + 1)"
  by (simp add: RenewBlock_def start_block_def)

lemma ShiftToPreBlock_info: "ShiftToPreBlock b = \<lparr>info = block_info0, prev = info b\<rparr>"
  by (simp add: ShiftToPreBlock_def copy_info_id)

text \<open>
  Block after block from position \<open>off\<close> of the file \<open>f\<close>, up to the one that ends the cluster; each
  is cut from at most 1000 bytes of the file.
\<close>

primrec cut_cluster :: "nat \<Rightarrow> Block \<Rightarrow> nat \<Rightarrow> bytes \<Rightarrow> block_info list option" where
  "cut_cluster 0 b off f = None"
| "cut_cluster (Suc n) b off f = do {
     (b', st) \<leftarrow> GetNextBlockByBytes b (of_nat MAX_BLOCK_BYTES) (take MAX_BLOCK_BYTES (drop off f));
     if st = CLUSTER_END then Some [info b']
     else do {
       is \<leftarrow> cut_cluster n (ShiftToPreBlock b') (off + unat (bytes (info b'))) f;
       Some (info b' # is)
     }
   }"

definition block_bytes :: "block_info list \<Rightarrow> nat" where
  "block_bytes is = (\<Sum>i \<leftarrow> is. unat (bytes i))"

lemma block_bytes_simps [simp]:
  "block_bytes [] = 0" "block_bytes (i # is) = unat (bytes i) + block_bytes is"
  "block_bytes (is @ js) = block_bytes is + block_bytes js"
  by (simp_all add: block_bytes_def)

lemma cut_cluster_extend: "cut_cluster n b off f = Some is \<Longrightarrow> cut_cluster n b off (f @ x) = Some is"
proof (induction n arbitrary: b off "is")
  case (Suc n)
  have t: "take MAX_BLOCK_BYTES (drop off (f @ x)) = take MAX_BLOCK_BYTES (drop off f) @
      take (MAX_BLOCK_BYTES - length (drop off f)) (drop (off - length f) x)" by simp
  from Suc.prems obtain b' st where g:
    "GetNextBlockByBytes b (of_nat MAX_BLOCK_BYTES) (take MAX_BLOCK_BYTES (drop off f)) = Some (b', st)"
    by (auto elim!: bind_SomeE)
  with Suc.prems show ?case
    unfolding cut_cluster.simps t GetNext_extend [OF g] g Option.bind.bind_lunit
    by (auto elim!: bind_SomeE dest!: Suc.IH split: if_splits)
qed simp

lemma cut_cluster_prefix: "cut_cluster n b (length pre + off) (pre @ f) = cut_cluster n b off f"
proof (induction n arbitrary: b off)
  case (Suc n)
  have "length pre + off + k = length pre + (off + k)" for k by simp
  then show ?case by (simp only: cut_cluster.simps Suc.IH drop_append drop_drop) simp
qed simp

text \<open>What the first block of a cluster is depends on its number only.\<close>

lemma GetChankByBytes_prev:
  "GetChankByBytes (b\<lparr>prev := p\<rparr>) buf req = map_option (map_prod (prev_update (\<lambda>_. p)) id) (GetChankByBytes b buf req)"
  by (cases "chank_loop buf req 0 0 0") (auto simp: GetChankByBytes_def)

lemma Assign_first_prev:
  "AssignBlockInfoByPiece (b\<lparr>prev := p\<rparr>) buf req first_flag =
     map_option (prev_update (\<lambda>_. p)) (AssignBlockInfoByPiece b buf req first_flag)"
  by (cases "GetChank buf") (auto simp: AssignBlockInfoByPiece_def first_flag_def Let_def option.map_comp bind_map_option
      split: bind_splits)

text \<open>The part of the first cut behind \<^verbatim>\<open>GetChankByBytes\<close>.\<close>

definition first_cut :: "bytes \<Rightarrow> u16 \<Rightarrow> Block \<Rightarrow> int \<Rightarrow> (Block \<times> int) option" where
  "first_cut buf req b ret =
     (if ret = 0 then do { b \<leftarrow> AssignBlockInfoByPiece b buf req first_flag; Some (b, ret) }
      else if ret = ONLY_TIMECODE then do {
        c \<leftarrow> GetChank buf;
        let b = b\<lparr>info := (info b)\<lparr>total_piece_bytes := ucast (chank_bytes c), bytes := ucast (chank_bytes c)\<rparr>\<rparr>;
        b \<leftarrow> AssignBlockInfoByPiece b (drop (unat (bytes (info b))) buf) (req - bytes (info b)) first_flag;
        Some (b, ret)
      }
      else Some (b\<lparr>info := AssignBlockInfoBySB (info b)\<rparr>, ret))"

lemma first_cut_prev:
  "first_cut buf req (b\<lparr>prev := p\<rparr>) ret =
     map_option (map_prod (prev_update (\<lambda>_. p)) id) (first_cut buf req b ret)"
proof -
  have i: "(b\<lparr>prev := p\<rparr>)\<lparr>info := j\<rparr> = (b\<lparr>info := j\<rparr>)\<lparr>prev := p\<rparr>" for j by simp
  show ?thesis
    by (cases "GetChank buf")
      (simp_all add: first_cut_def Let_def i Assign_first_prev bind_map_option map_option_bind comp_def
        del: Block.update_convs)
qed

lemma GetNext_first_cut:
  assumes "status p = STATUS_INIT"
  shows "GetNextBlockByBytes \<lparr>info = block_info0\<lparr>pos := x\<rparr>, prev = p\<rparr> req buf = do {
    (b, ret) \<leftarrow> GetChankByBytes (\<lparr>info = block_info0\<lparr>cluster_seq := cluster_seq p, seq := 1,
      pos := of_nat CLUSTER_HEADER_BYTES\<rparr>, prev = q\<rparr>\<lparr>prev := p\<rparr>) buf req;
    first_cut buf req b ret
  }"
  using assms
  by (simp add: GetNextBlockByBytes_def first_cut_def Let_def block_info0_def cong: if_cong)

lemma GetNext_start:
  assumes "status p = STATUS_INIT" and "cluster_seq p = cs"
  shows "GetNextBlockByBytes \<lparr>info = block_info0\<lparr>pos := x\<rparr>, prev = p\<rparr> req buf =
    map_option (map_prod (prev_update (\<lambda>_. p)) id) (GetNextBlockByBytes (start_block cs) req buf)"
proof -
  define q where "q = prev (start_block cs)"
  have q: "status q = STATUS_INIT" "cluster_seq q = cs" by (simp_all add: q_def start_block_def)
  have s: "start_block cs = \<lparr>info = block_info0\<lparr>pos := 0\<rparr>, prev = q\<rparr>"
    by (simp add: start_block_def q_def block_info0_def)
  show ?thesis
    unfolding s GetNext_first_cut [OF assms(1), of _ _ _ q] GetNext_first_cut [OF q(1), of _ _ _ q] assms(2) q(2)
      GetChankByBytes_prev [where p = p]
    by (cases "GetChankByBytes (\<lparr>info = block_info0\<lparr>cluster_seq := cs, seq := 1,
      pos := of_nat CLUSTER_HEADER_BYTES\<rparr>, prev = q\<rparr>) buf req") (auto simp: first_cut_prev)
qed

lemma cut_cluster_InitBlock: "cut_cluster n InitBlock off f = cut_cluster n (start_block 0) off f"
proof (cases n)
  case (Suc m)
  have "InitBlock = \<lparr>info = block_info0\<lparr>pos := 12\<rparr>, prev = prev InitBlock\<rparr>"
    "status (prev InitBlock) = STATUS_INIT" "cluster_seq (prev InitBlock) = 0"
    by (simp_all add: InitBlock_def c_eval block_info0_def)
  note g = GetNext_start [OF this(2,3), of 12, folded this(1)]
  show ?thesis
    unfolding Suc cut_cluster.simps g ShiftToPreBlock_info
    by (cases "GetNextBlockByBytes (start_block 0) (of_nat MAX_BLOCK_BYTES) (take MAX_BLOCK_BYTES (drop off f))") auto
qed simp

text \<open>Where the blocks are and how they are numbered.\<close>

lemma cut_cluster_nth:
  assumes "cut_cluster n b off f = Some is" and "j < length is"
  shows "\<exists>b' st. GetNextBlockByBytes (if j = 0 then b else \<lparr>info = block_info0, prev = is ! (j - 1)\<rparr>)
      (of_nat MAX_BLOCK_BYTES) (take MAX_BLOCK_BYTES (drop (off + block_bytes (take j is)) f)) = Some (b', st) \<and>
    info b' = is ! j \<and> (st = CLUSTER_END \<longleftrightarrow> Suc j = length is)"
  using assms
proof (induction n arbitrary: b off "is" j)
  case (Suc n)
  from Suc.prems(1) obtain b' st where g: "GetNextBlockByBytes b (of_nat MAX_BLOCK_BYTES)
      (take MAX_BLOCK_BYTES (drop off f)) = Some (b', st)"
    and r: "(if st = CLUSTER_END then Some [info b'] else do {
       is \<leftarrow> cut_cluster n (ShiftToPreBlock b') (off + unat (bytes (info b'))) f; Some (info b' # is) }) = Some is"
    by (auto elim!: bind_SomeE)
  show ?case
  proof (cases "st = CLUSTER_END")
    case True
    with r g Suc.prems(2) show ?thesis by auto
  next
    case False
    with r obtain js where js: "cut_cluster n (ShiftToPreBlock b') (off + unat (bytes (info b'))) f = Some js"
      "is = info b' # js" by (auto elim!: bind_SomeE)
    then have ne: "js \<noteq> []" by (cases n) (auto elim!: bind_SomeE split: if_splits)
    show ?thesis
    proof (cases j)
      case 0
      with g js(2) False ne show ?thesis by auto
    next
      case (Suc k)
      then have "k < length js" using Suc.prems(2) js(2) by simp
      from Suc.IH [OF js(1) this] show ?thesis
        unfolding ShiftToPreBlock_info by (cases k) (simp_all add: js(2) Suc add.assoc)
    qed
  qed
qed simp

lemma cut_cluster_nonempty: "cut_cluster n b off f = Some is \<Longrightarrow> is \<noteq> []"
  by (cases n) (auto elim!: bind_SomeE split: if_splits)

lemma ucast_16_32: "unat (ucast (s :: u16) :: u32) = unat s"
  by (simp add: unsigned_ucast_eq take_bit_eq_mod mod_less less_trans [OF unat_u16_lt])

lemma cut_status_set:
  "AssignBlockInfoByPiece b buf req f = Some b' \<Longrightarrow> status (info b') = STATUS_PIECE"
  "GetChankByBytes b buf req = Some (b', ret) \<Longrightarrow> status (info b') = status (info b)"
  "status (AssignBlockInfoBySB i) = STATUS_SIMPLEBLOCK"
  by (auto simp: AssignBlockInfoByPiece_def GetChankByBytes_def AssignBlockInfoBySB_def Let_def
      split: if_splits elim!: bind_SomeE)

lemma GetNext_status:
  assumes "GetNextBlockByBytes \<lparr>info = block_info0, prev = p\<rparr> req buf = Some (b', ret)"
  shows "status (info b') \<in> {STATUS_PIECE, STATUS_SIMPLEBLOCK, STATUS_BLOCK}"
proof (cases "status p = STATUS_INIT")
  case True
  then show ?thesis using assms
    by (rule GetNext_init) (auto dest!: cut_status_set(1) simp: cut_status_set(3))
next
  case False
  from False assms refl show ?thesis
    by (cases rule: GetNext_follow) (auto dest!: cut_status_set(1,2) simp: cut_status_set(3))
qed

lemma cut_cluster_status:
  assumes "cut_cluster n (start_block cs) off f = Some is" and "j < length is"
  shows "status (is ! j) \<in> {STATUS_PIECE, STATUS_SIMPLEBLOCK, STATUS_BLOCK}"
proof -
  define q where "q = (if j = 0 then prev (start_block cs) else is ! (j - 1))"
  have "(if j = 0 then start_block cs else \<lparr>info = block_info0, prev = is ! (j - 1)\<rparr>) = \<lparr>info = block_info0, prev = q\<rparr>"
    by (simp add: q_def start_block_def)
  from cut_cluster_nth [OF assms, unfolded this] show ?thesis by (metis GetNext_status)
qed

lemma cut_cluster_numbers:
  assumes "cut_cluster n (start_block cs) off f = Some is" and "j < length is"
  shows "seq (is ! j) = of_nat (Suc j)" "pos (is ! j) = of_nat (12 + block_bytes (take j is))"
    "cluster_seq (is ! j) = cs" 
proof -
  have "seq (is ! j) = of_nat (Suc j) \<and> pos (is ! j) = of_nat (12 + block_bytes (take j is)) \<and> cluster_seq (is ! j) = cs"
    using assms(2)
  proof (induction j)
    case 0
    with cut_cluster_nth [OF assms(1), of 0] obtain b' st where b':
      "GetNextBlockByBytes (start_block cs) (of_nat MAX_BLOCK_BYTES) (take MAX_BLOCK_BYTES (drop off f)) = Some (b', st)"
      "info b' = is ! 0" by auto
    from GetNext_tiles [OF b'(1) [unfolded start_block_def]] b'(2) show ?case by (simp add: start_block_def)
  next
    case (Suc j)
    then obtain b' st where b': "GetNextBlockByBytes \<lparr>info = block_info0, prev = is ! j\<rparr> (of_nat MAX_BLOCK_BYTES)
        (take MAX_BLOCK_BYTES (drop (off + block_bytes (take (Suc j) is)) f)) = Some (b', st)"
      "info b' = is ! Suc j"
      using cut_cluster_nth [OF assms(1), of "Suc j"] by auto
    from Suc.prems have "j < length is" by simp
    then have "status (is ! j) \<noteq> STATUS_INIT" using cut_cluster_status [OF assms(1), of j] by (auto simp: c_eval)
    with GetNext_tiles [OF b'(1)] b'(2) Suc show ?case
      by (simp add: take_Suc_conv_app_nth add.assoc)
  qed
  then show "seq (is ! j) = of_nat (Suc j)" "pos (is ! j) = of_nat (12 + block_bytes (take j is))"
    "cluster_seq (is ! j) = cs" by simp_all
qed

section \<open>Complete clusters\<close>

text \<open>
  Cluster number \<open>cs\<close>, the bytes \<open>c\<close> in front of \<open>rest\<close>, is cut into the blocks \<open>is\<close>: they tile it and fit
  their packets.
\<close>

definition cut_into :: "u16 \<Rightarrow> bytes \<Rightarrow> bytes \<Rightarrow> block_info list \<Rightarrow> bool" where
  "cut_into cs c rest is \<longleftrightarrow> cluster_ok c \<and> cut_cluster (length c) (start_block cs) 12 (c @ rest) = Some is \<and>
     12 + block_bytes is = length c \<and> (\<forall>i \<in> set is. unat (bytes i) \<le> 1000) \<and> length c < 2 ^ 32"

text \<open>The block a reader is at when it has passed the first \<open>m\<close> blocks of a cluster.\<close>

definition block_at :: "u16 \<Rightarrow> block_info list \<Rightarrow> nat \<Rightarrow> Block" where
  "block_at cs is m = (if m = 0 then start_block cs else \<lparr>info = block_info0, prev = is ! (m - 1)\<rparr>)"

lemma cut_into_extend: "cut_into cs c rest is \<Longrightarrow> cut_into cs c (rest @ x) is"
  using cut_cluster_extend [of "length c" "start_block cs" 12 "c @ rest" "is" x] by (simp add: cut_into_def)

lemma block_bytes_take: "block_bytes (take m is) + block_bytes (drop m is) = block_bytes is"
  using block_bytes_simps(3) [of "take m is" "drop m is"] by simp

lemma block_at_next:
  assumes c: "cut_into cs c rest is" and m: "m < length is" and f: "f = pre @ c @ rest"
    and off: "off = length pre + 12 + block_bytes (take m is)"
  obtains b' st where "GetNextBlockByBytes (block_at cs is m) (of_nat MAX_BLOCK_BYTES) (take MAX_BLOCK_BYTES (drop off f)) =
      Some (b', st)" "info b' = is ! m" "st = CLUSTER_END \<longleftrightarrow> Suc m = length is"
    "ShiftToPreBlock b' = block_at cs is (Suc m)" "RenewBlock b' = start_block (cs + 1)"
    "unat (bytes (is ! m)) \<le> 1000" "off + unat (bytes (is ! m)) = length pre + 12 + block_bytes (take (Suc m) is)"
    "off + unat (bytes (is ! m)) \<le> length (pre @ c)"
    "off = length pre + unat (pos (prev (block_at cs is m)) + ucast (bytes (prev (block_at cs is m))))"
    "seq (prev (block_at cs is m)) = of_nat m" "cluster_seq (prev (block_at cs is m)) = cs"
proof -
  from c have k: "cut_cluster (length c) (start_block cs) 12 (c @ rest) = Some is" "12 + block_bytes is = length c"
    "length c < 2 ^ 32" by (simp_all add: cut_into_def)
  have d: "drop off f = drop (12 + block_bytes (take m is)) (c @ rest)" by (simp add: f off)
  obtain b' st where b': "GetNextBlockByBytes (block_at cs is m) (of_nat MAX_BLOCK_BYTES) (take MAX_BLOCK_BYTES (drop off f)) =
      Some (b', st)" "info b' = is ! m" "st = CLUSTER_END \<longleftrightarrow> Suc m = length is"
    using cut_cluster_nth [OF k(1) m] unfolding d block_at_def by blast
  note num = cut_cluster_numbers [OF k(1)]
  have b1: "unat (bytes (is ! m)) \<le> 1000" using c m by (simp add: cut_into_def)
  have o1: "off + unat (bytes (is ! m)) = length pre + 12 + block_bytes (take (Suc m) is)"
    using m by (simp add: off take_Suc_conv_app_nth)
  moreover have "off + unat (bytes (is ! m)) \<le> length (pre @ c)"
    using o1 k(2) block_bytes_take [of "Suc m" "is"] by simp
  moreover have "off = length pre + unat (pos (prev (block_at cs is m)) + ucast (bytes (prev (block_at cs is m))))"
  proof (cases m)
    case 0
    then show ?thesis by (simp add: off block_at_def start_block_def block_info0_def c_eval)
  next
    case (Suc n)
    then have n: "n < length is" using m by simp
    have "12 + block_bytes (take m is) < 2 ^ 32" using k(2,3) block_bytes_take [of m "is"] by simp
    moreover have "block_bytes (take m is) = block_bytes (take n is) + unat (bytes (is ! n))"
      using n Suc by (simp add: take_Suc_conv_app_nth)
    moreover have "unat (ucast (bytes (is ! n)) :: u32) = unat (bytes (is ! n))"
      by (rule ucast_16_32)
    ultimately show ?thesis
      using num(2) [OF n] Suc by (simp add: off block_at_def unat_word_ariths unat_of_nat)
  qed
  moreover have "seq (prev (block_at cs is m)) = of_nat m" "cluster_seq (prev (block_at cs is m)) = cs"
    using num(1,3) [of "m - 1"] m by (cases m; simp add: block_at_def start_block_def block_info0_def)+
  moreover have "ShiftToPreBlock b' = block_at cs is (Suc m)" by (simp add: ShiftToPreBlock_info b' block_at_def)
  moreover have "RenewBlock b' = start_block (cs + 1)" using num(3) [OF m] by (simp add: RenewBlock_start b')
  ultimately show thesis using b' b1 by (intro that)
qed

text \<open>A cluster of whole chunks that fit one block, in front of another cluster or of cues.\<close>

lemma cut_into_small:
  assumes ms: "list_all media_ok ms" and l: "length (media_stream ms) = n" "n \<le> 1000"
    and h: "GetChank (take (1000 - n) rest) = Some h" "chank_id h = CLUSTER_ID \<or> chank_id h = CUE_ID"
  shows "cut_into cs (be_bytes 4 0x1f43b675 @ vint 8 n @ media_stream ms) rest
    [block_info0\<lparr>pos := 12, seq := 1, bytes := of_nat n, cluster_seq := cs, status := STATUS_SIMPLEBLOCK\<rparr>]"
proof -
  define c where "c = be_bytes 4 0x1f43b675 @ vint 8 n @ media_stream ms"
  have lc: "length c = 12 + n" by (simp add: c_def l(1))
  define buf where "buf = media_stream ms @ take (1000 - n) rest"
  have buf: "take MAX_BLOCK_BYTES (drop 12 (c @ rest)) = buf"
    using l by (simp add: c_def buf_def MAX_BLOCK_BYTES_def)
  have "chank_loop buf 1000 0 0 0 = Some (of_nat n, CLUSTER_END)"
    using chank_loop_media [of ms "take (1000 - n) rest" h "[]" 1000 0, OF ms h(1)] h(2) l
    by (auto simp: stops_def cut_status_def buf_def)
  moreover have "(ucast (of_nat n :: u64) :: u16) = of_nat n" using l(2) by (simp add: word_unat_eq_iff ucast_64_16 unat_of_nat)
  moreover have s: "start_block cs = \<lparr>info = block_info0\<lparr>pos := 0\<rparr>, prev = prev (start_block cs)\<rparr>"
    "status (prev (start_block cs)) = STATUS_INIT" "cluster_seq (prev (start_block cs)) = cs"
    by (simp_all add: start_block_def block_info0_def)
  ultimately have "GetNextBlockByBytes (start_block cs) 1000 buf = Some (\<lparr>info = block_info0\<lparr>pos := 12, seq := 1,
      bytes := of_nat n, cluster_seq := cs, status := STATUS_SIMPLEBLOCK\<rparr>, prev = prev (start_block cs)\<rparr>, CLUSTER_END)"
    by (subst s(1), subst GetNext_first_cut [OF s(2), where q = "prev (start_block cs)"])
      (simp add: GetChankByBytes_def first_cut_def CLUSTER_END_def ONLY_TIMECODE_def AssignBlockInfoBySB_def
        CLUSTER_HEADER_BYTES_def block_info0_def)
  then have "cut_cluster (length c) (start_block cs) 12 (c @ rest) = Some [block_info0\<lparr>pos := 12, seq := 1,
      bytes := of_nat n, cluster_seq := cs, status := STATUS_SIMPLEBLOCK\<rparr>]"
    unfolding lc add_Suc numeral_eq_Suc using buf by (simp add: MAX_BLOCK_BYTES_def lc numeral_eq_Suc)
  moreover have "cluster_ok c"
  proof -
    have "vint_ok 8 n" using l by (simp add: vint_ok_def)
    then obtain k where k: "GetChank (be_bytes 4 0x1f43b675 @ vint 8 n @ []) = Some k" "unat (chank_bytes k) = 12 + n"
      using GetChank_enc [of 4 "0x1f43b675" 8 n "[]"] l by (auto simp: id_ok_def unat_word_ariths unat_of_nat)
    moreover have "take 12 c = be_bytes 4 0x1f43b675 @ vint 8 n @ []" by (simp add: c_def)
    ultimately show ?thesis by (simp add: cluster_ok_def lc)
  qed
  moreover have "unat (of_nat n :: u16) = n" using l(2) by (simp add: unat_of_nat)
  ultimately show ?thesis using l lc unfolding c_def [symmetric] by (simp add: cut_into_def block_info0_def)
qed

end
