(* ===== verification/Serving.thy ===== *)
theory Serving
  imports Cutting Streaming
begin

text \<open>
  Serving the children: \<^verbatim>\<open>SendCacheBlock\<close> and \<^verbatim>\<open>SendMulStream\<close> of \<^verbatim>\<open>src/src/common/p2p.c\<close> over a file that
  holds the complete clusters \<open>cs\<close>, cut into the blocks \<open>bss\<close>.  A child's place in the stream is a
  pair \<open>(j, m)\<close>: it has been sent the clusters before number \<open>j\<close> and the first \<open>m\<close> blocks of that one.
\<close>

section \<open>The stream in the file\<close>

definition holds :: "bytes \<Rightarrow> bytes list \<Rightarrow> block_info list list \<Rightarrow> 'a webm_scheme \<Rightarrow> bool" where
  "holds hdr cs bss w \<longleftrightarrow> length bss = length cs \<and> length cs < 2 ^ 16 \<and>
     (\<exists>rest. FILE w = hdr @ concat cs @ rest \<and>
       (\<forall>j < length cs. cut_into (of_nat j) (cs ! j) (concat (drop (Suc j) cs) @ rest) (bss ! j))) \<and>
     TOTAL_FILE_BYTES w = int (length (FILE w)) \<and> length (FILE w) < 2 ^ 62 \<and>
     unat (WEBM_HEADER_total_bytes w) = length hdr \<and> FIRST_CLUSTER_SEQ w = 0"

type_synonym place = "nat \<times> nat"

definition valid :: "block_info list list \<Rightarrow> place \<Rightarrow> bool" where
  "valid bss q = (case q of (j, m) \<Rightarrow> j < length bss \<and> m < length (bss ! j) \<or> j = length bss \<and> m = 0)"

definition advance :: "block_info list list \<Rightarrow> place \<Rightarrow> place" where
  "advance bss q = (case q of (j, m) \<Rightarrow> if Suc m = length (bss ! j) then (Suc j, 0) else (j, Suc m))"

definition block_of :: "block_info list list \<Rightarrow> place \<Rightarrow> Block" where
  "block_of bss q = (case q of (j, m) \<Rightarrow> block_at (of_nat j) (bss ! j) m)"

text \<open>The block at a place: its description, its bytes, and the data of the packet that brings it.\<close>

definition info_at :: "block_info list list \<Rightarrow> place \<Rightarrow> block_info" where
  "info_at bss q = (case q of (j, m) \<Rightarrow> bss ! j ! m)"

definition data_at :: "bytes list \<Rightarrow> block_info list list \<Rightarrow> place \<Rightarrow> bytes" where
  "data_at cs bss q = (case q of (j, m) \<Rightarrow>
     take (unat (bytes (bss ! j ! m))) (drop (12 + block_bytes (take m (bss ! j))) (cs ! j)))"

definition packet_at :: "bytes list \<Rightarrow> block_info list list \<Rightarrow> place \<Rightarrow> bytes" where
  "packet_at cs bss q = info_wire (info_at bss q) @ data_at cs bss q"

lemma cut_cluster_length: "cut_cluster n b off f = Some is \<Longrightarrow> length is \<le> n"
  by (induction n arbitrary: b off "is") (auto elim!: bind_SomeE split: if_splits)

lemma holds_cut:
  assumes "holds hdr cs bss w" and "j < length cs"
  obtains rest where "FILE w = (hdr @ concat (take j cs)) @ cs ! j @ rest" "cut_into (of_nat j) (cs ! j) rest (bss ! j)"
    "list_all cluster_ok (take j cs)" "bss ! j \<noteq> []" "length (bss ! j) < 2 ^ 32"
proof -
  from assms obtain rest where r: "FILE w = hdr @ concat cs @ rest"
    "\<forall>j < length cs. cut_into (of_nat j) (cs ! j) (concat (drop (Suc j) cs) @ rest) (bss ! j)" by (auto simp: holds_def)
  have "concat cs = concat (take j cs) @ cs ! j @ concat (drop (Suc j) cs)"
    by (metis assms(2) concat.simps(2) concat_append id_take_nth_drop)
  moreover have "list_all cluster_ok (take j cs)"
    using r(2) assms(2) by (auto simp: list_all_length cut_into_def)
  moreover have c: "cut_into (of_nat j) (cs ! j) (concat (drop (Suc j) cs) @ rest) (bss ! j)" using r(2) assms(2) by simp
  moreover have "bss ! j \<noteq> []" "length (bss ! j) < 2 ^ 32"
    using c cut_cluster_nonempty cut_cluster_length by (fastforce simp: cut_into_def)+
  ultimately show thesis using r(1) by (intro that [of "concat (drop (Suc j) cs) @ rest"]) simp_all
qed

lemma holds_sel:
  assumes "holds hdr cs bss w"
  shows "length bss = length cs" "length cs < 2 ^ 16" "TOTAL_FILE_BYTES w = int (length (FILE w))"
    "length (FILE w) < 2 ^ 62" "unat (WEBM_HEADER_total_bytes w) = length hdr" "FIRST_CLUSTER_SEQ w = 0"
  using assms by (auto simp: holds_def)

lemma holds_cong:
  assumes "holds hdr cs bss v" and "FILE w = FILE v" "TOTAL_FILE_BYTES w = TOTAL_FILE_BYTES v"
    "WEBM_HEADER_total_bytes w = WEBM_HEADER_total_bytes v" "FIRST_CLUSTER_SEQ w = FIRST_CLUSTER_SEQ v"
  shows "holds hdr cs bss w"
  using assms(1) unfolding holds_def assms(2-) .

lemma place_prev:
  assumes "holds hdr cs bss w" and "valid bss (j, m)"
  shows "unat (cluster_seq (prev (block_of bss (j, m)))) = j" "unat (seq (prev (block_of bss (j, m)))) = m"
proof -
  have "cluster_seq (prev (block_of bss (j, m))) = of_nat j \<and> seq (prev (block_of bss (j, m))) = of_nat m \<and> m < 2 ^ 32"
  proof (cases "j < length cs")
    case True
    with assms have "m < length (bss ! j)" by (auto simp: valid_def holds_sel(1) [OF assms(1)])
    with True show ?thesis
      by (auto simp: block_of_def elim!: holds_cut [OF assms(1)] block_at_next [OF _ _ refl refl])
  next
    case False
    with assms show ?thesis by (auto simp: valid_def holds_sel(1) [OF assms(1)] block_of_def block_at_def start_block_def block_info0_def)
  qed
  moreover have "j < 2 ^ 16" using assms(2) holds_sel(1,2) [OF assms(1)] by (auto simp: valid_def)
  ultimately show "unat (cluster_seq (prev (block_of bss (j, m)))) = j" "unat (seq (prev (block_of bss (j, m)))) = m"
    by (simp_all add: unat_of_nat)
qed

lemma valid_advance:
  assumes "valid bss (j, m)" and "j < length bss" and "\<forall>is \<in> set bss. is \<noteq> []"
  shows "valid bss (advance bss (j, m))"
  using assms by (cases "Suc j < length bss") (auto simp: valid_def advance_def)

section \<open>One block\<close>

text \<open>A frame that carries the data \<open>d\<close> to the node of slot \<open>k\<close>.\<close>

definition carries :: "addressing \<Rightarrow> int \<Rightarrow> bytes \<Rightarrow> bytes \<Rightarrow> bool" where
  "carries a k d f \<longleftrightarrow> (\<exists>u u'. posts u k d u' \<and> node_wf u \<and> ADDR u = a \<and> WIRE u' = WIRE u @ [f])"

lemma carries_receive:
  assumes "carries a k (p # d) f" and "slot_ix k" "length d \<le> 1471"
    and "DST_IP a ! nat k = SRC_IP (ADDR r)" "DST_PORT a ! nat k = my_port"
  shows "receive_frame dispatch my_port (f @ stale) r =
    dispatch p (d @ stale) (int (length d)) (SRC_IP a) (htons (SRC_PORT a)) r"
proof -
  from assms(1) obtain u u' where u: "posts u k (p # d) u'" "node_wf u" "ADDR u = a" "WIRE u' = WIRE u @ [f]"
    by (auto simp: carries_def)
  from posts_receive [OF u(1,2) assms(2,3)] assms(4,5) u(3,4) show ?thesis by auto
qed

lemma serve_block:
  fixes s :: node
  assumes "node_wf s" "slot_ix k" and h: "holds hdr cs bss s" and v: "valid bss (j, m)" "j < length cs"
  obtains st b' s' p q where "SendCacheBlock (block_of bss (j, m)) k s = Some (st, b', s')"
    "posts (s\<lparr>FP := p, CURRENT_FPOS_R := q\<rparr>) k (1 # packet_at cs bss (j, m)) s'"
    "(if st = CLUSTER_END then RenewBlock b' else ShiftToPreBlock b') = block_of bss (advance bss (j, m))"
proof -
  obtain rest where r: "FILE s = (hdr @ concat (take j cs)) @ cs ! j @ rest" "cut_into (of_nat j) (cs ! j) rest (bss ! j)"
    "list_all cluster_ok (take j cs)" using holds_cut [OF h v(2)] by metis
  define pre where "pre = hdr @ concat (take j cs)"
  define off where "off = length pre + 12 + block_bytes (take m (bss ! j))"
  define n where "n = unat (bytes (bss ! j ! m))"
  define b where "b = block_of bss (j, m)"
  have b: "b = block_at (of_nat j) (bss ! j) m" by (simp add: b_def block_of_def)
  have m: "m < length (bss ! j)" using v by (auto simp: valid_def holds_sel(1) [OF h])
  obtain b' st where g: "GetNextBlockByBytes b (of_nat MAX_BLOCK_BYTES) (take MAX_BLOCK_BYTES (drop off (FILE s))) = Some (b', st)"
    "info b' = bss ! j ! m" "st = CLUSTER_END \<longleftrightarrow> Suc m = length (bss ! j)"
    "ShiftToPreBlock b' = block_at (of_nat j) (bss ! j) (Suc m)" "RenewBlock b' = start_block (of_nat j + 1)"
    "n \<le> 1000" "off + n \<le> length (pre @ cs ! j)"
    "off = length pre + unat (pos (prev b) + ucast (bytes (prev b)))"
    using block_at_next [OF r(2) m r(1) [folded pre_def] off_def] unfolding n_def b [symmetric] by metis
  have F: "FILE s = hdr @ concat (take j cs) @ cs ! j @ rest" using r(1) by simp
  have seq: "unat (ucast (cluster_seq (prev b)) - FIRST_CLUSTER_SEQ s :: u32) = length (take j cs)"
    using place_prev(1) [OF h v(1)] holds_sel(6) [OF h] v(2) by (simp add: b_def ucast_16_32)
  have off': "off = length (hdr @ concat (take j cs)) + unat (pos (prev b) + ucast (bytes (prev b)))"
    using g(8) by (simp add: pre_def)
  have le: "off \<le> length (FILE s)" using g(7) by (simp add: r(1) pre_def)
  have cut: "GetNextBlockByBytes b 1000 (cache_body off (FILE s)) = Some (b', st)"
    using GetNext_extend [OF g(1)] by (simp add: cache_body_def MAX_BLOCK_BYTES_def)
  have "n \<le> length (drop off (FILE s))" using g(7) by (simp add: r(1) pre_def)
  then have "take n (cache_body off (FILE s)) = take n (drop off (FILE s))"
    using g(6) by (simp add: cache_body_def min_def)
  also have "\<dots> = data_at cs bss (j, m)"
    using g(7) by (simp add: data_at_def n_def r(1) pre_def off_def)
  finally have d: "take n (cache_body off (FILE s)) = data_at cs bss (j, m)" .
  obtain s' p q where s': "SendCacheBlock b k s = Some (st, b', s')"
    "posts (s\<lparr>FP := p, CURRENT_FPOS_R := q\<rparr>) k (1 # info_wire (info b') @ take (unat (bytes (info b'))) (cache_body off (FILE s))) s'"
    using SendCacheBlock_posts [OF assms(1,2) F r(3) holds_sel(3,4,5) [OF h] seq off' le cut] g(2,6) by (auto simp: n_def)
  have "1 # info_wire (info b') @ take (unat (bytes (info b'))) (cache_body off (FILE s)) = 1 # packet_at cs bss (j, m)"
    using d by (simp add: packet_at_def info_at_def g(2) n_def)
  moreover have "(if st = CLUSTER_END then RenewBlock b' else ShiftToPreBlock b') = block_of bss (advance bss (j, m))"
    using g(3-5) by (simp add: block_of_def advance_def block_at_def add.commute)
  ultimately show thesis using s' unfolding b_def by (intro that) simp_all
qed

section \<open>All children\<close>

text \<open>
  \<open>P\<close> is the number of the cluster before the current one, \<open>L\<close> the latest block of the current one:
  a child is behind when its place is before that.
\<close>

definition behind :: "nat \<Rightarrow> nat \<Rightarrow> place \<Rightarrow> bool" where
  "behind P L q = (case q of (j, m) \<Rightarrow> j < P \<or> j = P \<and> m \<le> L)"

definition children_at :: "block_info list list \<Rightarrow> (nat \<Rightarrow> place) \<Rightarrow> node \<Rightarrow> bool" where
  "children_at bss qs s \<longleftrightarrow> length (CURRENT_CHILD_BLOCK s) = 2 \<and>
     (\<forall>i < 2. connected (CONNECTED_NODES s) i \<longrightarrow> valid bss (qs i) \<and>
        CURRENT_CHILD_BLOCK s ! i = Some (block_of bss (qs i)))"

text \<open>A node that serves its children from complete clusters, the last of them number \<open>P\<close>.\<close>

definition serves :: "bytes \<Rightarrow> bytes list \<Rightarrow> block_info list list \<Rightarrow> (nat \<Rightarrow> place) \<Rightarrow> node \<Rightarrow> bool" where
  "serves hdr cs bss qs s \<longleftrightarrow> node_wf s \<and> holds hdr cs bss s \<and> children_at bss qs s \<and>
     (\<exists>c. CURRENT_CLUSTER s = Some c \<and> length cs = Suc (unat (cl_seq (cl_prev c))))"

abbreviation due :: "bytes list \<Rightarrow> node \<Rightarrow> place \<Rightarrow> bool" where
  "due cs s \<equiv> behind (length cs - 1) (unat (LATEST_BLOCK_SEQ s))"

definition move :: "bytes list \<Rightarrow> block_info list list \<Rightarrow> node \<Rightarrow> nat list \<Rightarrow> (nat \<Rightarrow> place) \<Rightarrow> nat \<Rightarrow> place" where
  "move cs bss s ks qs i =
     (if i \<in> set ks \<and> connected (CONNECTED_NODES s) i \<and> due cs s (qs i) then advance bss (qs i) else qs i)"

lemma serves_due:
  assumes "serves hdr cs bss qs s" and "valid bss q"
  shows "IsOldBlockSeq (prev (block_of bss q)) s = Some (due cs s q)"
    and "due cs s q \<Longrightarrow> fst q < length cs"
proof -
  obtain c where c: "CURRENT_CLUSTER s = Some c" "length cs = Suc (unat (cl_seq (cl_prev c)))"
    and h: "holds hdr cs bss s" using assms(1) by (auto simp: serves_def)
  obtain j m where q: "q = (j, m)" by (cases q)
  note p = place_prev [OF h assms(2) [unfolded q]]
  show "IsOldBlockSeq (prev (block_of bss q)) s = Some (due cs s q)"
    using p by (auto simp: q IsOldBlockSeq_def c behind_def word_less_nat_alt word_le_nat_alt word_unat_eq_iff ucast_16_32 Let_def)
  show "due cs s q \<Longrightarrow> fst q < length cs" by (auto simp: q behind_def c(2))
qed

lemma serves_cong:
  assumes "serves hdr cs bss qs s" and "t = s\<lparr>FP := p, CURRENT_FPOS_R := x, WIRE := w, CURRENT_CHILD_BLOCK := bs\<rparr>"
    and "children_at bss qs' t"
  shows "serves hdr cs bss qs' t"
proof -
  have "length bs = 2" using assms(2,3) by (simp add: children_at_def)
  with assms show ?thesis unfolding serves_def by (auto simp: node_wf_def intro: holds_cong)
qed

text \<open>Serving moves the file position, writes frames and moves the children's blocks; nothing else.\<close>

definition sent_more :: "node \<Rightarrow> bytes list \<Rightarrow> node \<Rightarrow> bool" where
  "sent_more s fs t \<longleftrightarrow> t = s\<lparr>FP := FP t, CURRENT_FPOS_R := CURRENT_FPOS_R t, WIRE := WIRE s @ fs,
     CURRENT_CHILD_BLOCK := CURRENT_CHILD_BLOCK t\<rparr>"

lemma sent_more_refl: "sent_more s [] s"
  by (simp add: sent_more_def)

lemma sent_more_trans: "sent_more s fs t \<Longrightarrow> sent_more t gs u \<Longrightarrow> sent_more s (fs @ gs) u"
  unfolding sent_more_def by (cases s; cases t; cases u) simp

lemma sent_moreI: "t = s\<lparr>FP := p, CURRENT_FPOS_R := x, WIRE := WIRE s @ fs, CURRENT_CHILD_BLOCK := bs\<rparr> \<Longrightarrow> sent_more s fs t"
  by (simp add: sent_more_def)

lemma sent_more_sel:
  assumes "sent_more s fs t"
  shows "ADDR t = ADDR s" "CONNECTED_NODES t = CONNECTED_NODES s" "LATEST_BLOCK_SEQ t = LATEST_BLOCK_SEQ s"
    "WIRE t = WIRE s @ fs" "CURRENT_CLUSTER t = CURRENT_CLUSTER s" "CURRENT_BLOCK t = CURRENT_BLOCK s"
    "FILE t = FILE s" "TOTAL_FILE_BYTES t = TOTAL_FILE_BYTES s" "CURRENT_READ_BYTES t = CURRENT_READ_BYTES s"
    "CURRENT_CHILD_NUM t = CURRENT_CHILD_NUM s" "TOTAL_BLOCK_NUM t = TOTAL_BLOCK_NUM s"
  using assms by (cases s; cases t; simp add: sent_more_def)+

lemma serve_child:
  assumes v: "serves hdr cs bss qs s" and i: "i < 2" "connected (CONNECTED_NODES s) i" "due cs s (qs i)"
  obtains st b' t f where "SendCacheBlock (block_of bss (qs i)) (int i) s = Some (st, b', t)"
    "carries (ADDR s) (int i) (1 # packet_at cs bss (qs i)) f"
    "serves hdr cs bss (qs(i := advance bss (qs i))) (t\<lparr>CURRENT_CHILD_BLOCK := (CURRENT_CHILD_BLOCK t)[i :=
       Some (if st = CLUSTER_END then RenewBlock b' else ShiftToPreBlock b')]\<rparr>)"
    "sent_more s [f] t" "CURRENT_CHILD_BLOCK t = CURRENT_CHILD_BLOCK s"
proof -
  obtain j m where q: "qs i = (j, m)" by (cases "qs i")
  have va: "valid bss (j, m)" using v i q by (auto simp: serves_def children_at_def)
  have j: "j < length cs" using serves_due(2) [OF v va] i(3) q by simp
  have h: "holds hdr cs bss s" and wf: "node_wf s" using v by (auto simp: serves_def)
  have k: "slot_ix (int i)" using i(1) by (simp add: slot_ix_def)
  obtain st b' t p x where t: "SendCacheBlock (block_of bss (j, m)) (int i) s = Some (st, b', t)"
    "posts (s\<lparr>FP := p, CURRENT_FPOS_R := x\<rparr>) (int i) (1 # packet_at cs bss (j, m)) t"
    "(if st = CLUSTER_END then RenewBlock b' else ShiftToPreBlock b') = block_of bss (advance bss (j, m))"
    by (rule serve_block [OF wf k h va j])
  define u where "u = s\<lparr>FP := p, CURRENT_FPOS_R := x\<rparr>"
  from t(2) obtain f where f: "WIRE t = WIRE s @ [f]" by (auto simp: posts_def sends_def)
  have e: "t = u\<lparr>WIRE := WIRE s @ [f]\<rparr>" using t(2) f unfolding u_def by (simp add: posts_def)
  have "carries (ADDR s) (int i) (1 # packet_at cs bss (j, m)) f"
    unfolding carries_def
    by (rule exI [of _ u], rule exI [of _ t]) (use t(2) f wf in \<open>simp add: u_def node_wf_def\<close>)
  moreover have "sent_more s [f] t" "CURRENT_CHILD_BLOCK t = CURRENT_CHILD_BLOCK s"
    by (simp_all add: e u_def sent_more_def)
  moreover have "serves hdr cs bss (qs(i := advance bss (qs i))) (t\<lparr>CURRENT_CHILD_BLOCK := (CURRENT_CHILD_BLOCK t)[i :=
       Some (if st = CLUSTER_END then RenewBlock b' else ShiftToPreBlock b')]\<rparr>)"
  proof (rule serves_cong [OF v])
    have "\<forall>is \<in> set bss. is \<noteq> []"
      using holds_cut [OF h] holds_sel(1) [OF h] by (metis in_set_conv_nth)
    then have "valid bss (advance bss (j, m))" using valid_advance [OF va] j holds_sel(1) [OF h] by simp
    then show "children_at bss (qs(i := advance bss (qs i))) (t\<lparr>CURRENT_CHILD_BLOCK := (CURRENT_CHILD_BLOCK t)[i :=
       Some (if st = CLUSTER_END then RenewBlock b' else ShiftToPreBlock b')]\<rparr>)"
      using v unfolding t(3) by (auto simp: serves_def children_at_def e u_def q nth_list_update)
  qed (simp add: e u_def)
  ultimately show thesis using t(1) by (intro that [of st b' t f]) (simp_all add: q)
qed

lemma mul_loop_serves:
  assumes "serves hdr cs bss qs s" and "distinct ks" "\<forall>i \<in> set ks. i < 2"
  shows "\<exists>fs t. mul_loop ks n s =
      Some (n + int (length (filter (\<lambda>i. connected (CONNECTED_NODES s) i \<and> \<not> due cs s (qs i)) ks)), t) \<and>
    list_all2 (\<lambda>i f. carries (ADDR s) (int i) (1 # packet_at cs bss (qs i)) f)
      (filter (\<lambda>i. connected (CONNECTED_NODES s) i \<and> due cs s (qs i)) ks) fs \<and>
    serves hdr cs bss (move cs bss s ks qs) t \<and> sent_more s fs t"
  using assms
proof (induction ks arbitrary: n s qs)
  case Nil
  have "move cs bss s [] qs = qs" by (simp add: move_def fun_eq_iff)
  with Nil sent_more_refl show ?case by auto
next
  case (Cons i ks)
  have i: "i < 2" "i \<notin> set ks" using Cons.prems by auto
  show ?case
  proof (cases "connected (CONNECTED_NODES s) i")
    case False
    have "move cs bss s (i # ks) qs = move cs bss s ks qs" using False by (auto simp: move_def fun_eq_iff)
    with False Cons.IH [OF Cons.prems(1), of n] Cons.prems show ?thesis by simp
  next
    case True
    have c: "valid bss (qs i)" "CURRENT_CHILD_BLOCK s ! i = Some (block_of bss (qs i))" "length (CURRENT_CHILD_BLOCK s) = 2"
      using Cons.prems(1) i True by (auto simp: serves_def children_at_def)
    have x: "idx (CURRENT_CHILD_BLOCK s) (int i) = Some (Some (block_of bss (qs i)))"
      using c i by (simp add: idx_def)
    note old = serves_due(1) [OF Cons.prems(1) c(1)]
    show ?thesis
    proof (cases "due cs s (qs i)")
      case False
      have "move cs bss s (i # ks) qs = move cs bss s ks qs" using False by (auto simp: move_def fun_eq_iff)
      with False True x old Cons.IH [OF Cons.prems(1), of "n + 1"] Cons.prems show ?thesis
        by (simp add: ac_simps)
    next
      case d: True
      obtain st b' t f where t: "SendCacheBlock (block_of bss (qs i)) (int i) s = Some (st, b', t)"
        "carries (ADDR s) (int i) (1 # packet_at cs bss (qs i)) f"
        "serves hdr cs bss (qs(i := advance bss (qs i))) (t\<lparr>CURRENT_CHILD_BLOCK := (CURRENT_CHILD_BLOCK t)[i :=
           Some (if st = CLUSTER_END then RenewBlock b' else ShiftToPreBlock b')]\<rparr>)"
        "sent_more s [f] t" "CURRENT_CHILD_BLOCK t = CURRENT_CHILD_BLOCK s"
        by (rule serve_child [OF Cons.prems(1) i(1) True d])
      define u where "u = t\<lparr>CURRENT_CHILD_BLOCK := (CURRENT_CHILD_BLOCK t)[i :=
           Some (if st = CLUSTER_END then RenewBlock b' else ShiftToPreBlock b')]\<rparr>"
      define qs' where "qs' = qs(i := advance bss (qs i))"
      have u: "sent_more s [f] u" using t(4) unfolding sent_more_def u_def by (cases s; cases t) simp
      note su = sent_more_sel(1-3) [OF u] t(5)
      have "\<forall>j \<in> set ks. qs' j = qs j" using i by (auto simp: qs'_def)
      then have fe: "filter (\<lambda>i. connected (CONNECTED_NODES u) i \<and> due cs u (qs' i)) ks =
          filter (\<lambda>i. connected (CONNECTED_NODES s) i \<and> due cs s (qs i)) ks"
        "filter (\<lambda>i. connected (CONNECTED_NODES u) i \<and> \<not> due cs u (qs' i)) ks =
          filter (\<lambda>i. connected (CONNECTED_NODES s) i \<and> \<not> due cs s (qs i)) ks"
        by (auto simp: su intro: filter_cong)
      have mv: "move cs bss u ks qs' = move cs bss s (i # ks) qs"
        using i(2) True d by (auto simp: move_def fun_eq_iff su qs'_def)
      have l2: "list_all2 (\<lambda>i f. carries (ADDR s) (int i) (1 # packet_at cs bss (qs' i)) f) xs fs \<longleftrightarrow>
          list_all2 (\<lambda>i f. carries (ADDR s) (int i) (1 # packet_at cs bss (qs i)) f) xs fs" if "set xs \<subseteq> set ks" for xs fs
        using that \<open>\<forall>j \<in> set ks. qs' j = qs j\<close> by (intro list.rel_cong) auto
      from Cons.IH [OF t(3) [folded u_def qs'_def], of n] Cons.prems(2,3) obtain fs v where
        v: "mul_loop ks n u = Some (n + int (length (filter (\<lambda>i. connected (CONNECTED_NODES s) i \<and> \<not> due cs s (qs i)) ks)), v)"
        "list_all2 (\<lambda>i f. carries (ADDR s) (int i) (1 # packet_at cs bss (qs i)) f)
          (filter (\<lambda>i. connected (CONNECTED_NODES s) i \<and> due cs s (qs i)) ks) fs"
        "serves hdr cs bss (move cs bss s (i # ks) qs) v"
        "sent_more u fs v"
        unfolding fe mv unfolding su(1) by (auto simp: l2)
      have up: "upd (CURRENT_CHILD_BLOCK t) (int i) (Some (if st = CLUSTER_END then RenewBlock b' else ShiftToPreBlock b')) =
          Some ((CURRENT_CHILD_BLOCK t)[i := Some (if st = CLUSTER_END then RenewBlock b' else ShiftToPreBlock b')])"
        using c(3) i(1) t(5) by (simp add: upd_def)
      have "mul_loop (i # ks) n s = mul_loop ks n u"
        using True x old d t(1) up by (simp add: u_def Let_def)
      moreover have "sent_more s (f # fs) v" using sent_more_trans [OF u v(4)] by simp
      ultimately show ?thesis using v(1-3) t(2) True d by (intro exI [of _ "f # fs"] exI [of _ v]) simp
    qed
  qed
qed

section \<open>One round\<close>

lemma upt_2: "[0..<MAX_CHILD_NUM] = [0, 1]"
  by (simp add: MAX_CHILD_NUM_def numeral_2_eq_2)

definition due_slots :: "bytes list \<Rightarrow> (nat \<Rightarrow> place) \<Rightarrow> node \<Rightarrow> nat list" where
  "due_slots cs qs s = filter (\<lambda>i. connected (CONNECTED_NODES s) i \<and> due cs s (qs i)) [0, 1]"

lemma in_due_slots:
  "i \<in> set (due_slots cs qs s) \<longleftrightarrow> i < 2 \<and> connected (CONNECTED_NODES s) i \<and> due cs s (qs i)"
  unfolding due_slots_def set_filter by auto

lemma due_slots_Nil: "due_slots cs qs s = [] \<longleftrightarrow> (\<forall>i < 2. \<not> (connected (CONNECTED_NODES s) i \<and> due cs s (qs i)))"
  using in_due_slots [of _ cs qs s] by (metis list.set_intros(1) neq_Nil_conv set_empty empty_iff)

definition served :: "bytes list \<Rightarrow> block_info list list \<Rightarrow> (nat \<Rightarrow> place) \<Rightarrow> node \<Rightarrow> nat \<Rightarrow> place" where
  "served cs bss qs s i = (if i \<in> set (due_slots cs qs s) then advance bss (qs i) else qs i)"

lemma SendMulStream_serves:
  assumes v: "serves hdr cs bss qs s" and ok: "slots_ok s"
  obtains r fs t where "SendMulStream s = Some (r, t)"
    "list_all2 (\<lambda>i f. carries (ADDR s) (int i) (1 # packet_at cs bss (qs i)) f) (due_slots cs qs s) fs"
    "serves hdr cs bss (served cs bss qs s) t" "slots_ok t" "sent_more s fs t" "FP t = FP s" "CURRENT_FPOS_R t = int (FP s)"
    "r = (if due_slots cs qs s = [] then 0 else 1)"
proof -
  define u where "u = s\<lparr>CURRENT_FPOS_R := int (FP s)\<rparr>"
  have vu: "serves hdr cs bss qs u"
    using v by (intro serves_cong [OF v, where p = "FP s" and x = "int (FP s)" and w = "WIRE s" and bs = "CURRENT_CHILD_BLOCK s"])
      (simp_all add: u_def serves_def children_at_def)
  have su: "CONNECTED_NODES u = CONNECTED_NODES s" "LATEST_BLOCK_SEQ u = LATEST_BLOCK_SEQ s" "ADDR u = ADDR s"
    by (simp_all add: u_def)
  define idle where "idle = filter (\<lambda>i. connected (CONNECTED_NODES s) i \<and> \<not> due cs s (qs i)) [0, 1]"
  have mv: "move cs bss u [0, 1] qs = served cs bss qs s"
    by (auto simp: move_def served_def due_slots_def su fun_eq_iff)
  obtain fs w where w: "mul_loop [0, 1] 0 u = Some (int (length idle), w)"
    "list_all2 (\<lambda>i f. carries (ADDR s) (int i) (1 # packet_at cs bss (qs i)) f) (due_slots cs qs s) fs"
    "serves hdr cs bss (served cs bss qs s) w" "sent_more u fs w"
    using mul_loop_serves [OF vu, of "[0, 1]" 0] unfolding su mv due_slots_def idle_def by auto
  define t where "t = w\<lparr>FP := FP s, CURRENT_FPOS_R := int (FP s)\<rparr>"
  have seek: "SeekABSWebM (int (FP s)) FposR w = t"
    by (simp add: t_def file_defs Let_def)
  have sm: "sent_more s fs t"
    using w(4) unfolding sent_more_def t_def u_def by (cases s; cases w) simp
  have count: "CURRENT_CHILD_NUM w = int (length idle) + int (length (due_slots cs qs s))"
    using ok sent_more_sel(10) [OF w(4)] by (auto simp: slots_ok_children children_def idle_def due_slots_def u_def)
  have sent: "SendMulStream s = Some (if due_slots cs qs s = [] then 0 else 1, t)"
    unfolding SendMulStream_def upt_2 using w(1) count
    by (auto simp: UpdateOffsetWebM_def u_def [symmetric] seek)
  have "serves hdr cs bss (served cs bss qs s) t"
    using w(3) by (intro serves_cong [OF w(3), where p = "FP s" and x = "int (FP s)" and w = "WIRE w" and bs = "CURRENT_CHILD_BLOCK w"])
      (simp_all add: t_def serves_def children_at_def)
  moreover have "slots_ok t" using same_slots_ok [OF SendMulStream_slots [OF sent] ok] .
  moreover have "FP t = FP s" "CURRENT_FPOS_R t = int (FP s)" by (simp_all add: t_def)
  ultimately show thesis using w(2) sm sent that by blast
qed

section \<open>Until no child is behind\<close>

text \<open>
  The last loop of the origin's \<^verbatim>\<open>main\<close>, \<^verbatim>\<open>src/src/originsource/main.c\<close>, lines 330 to 334, entered with
  a flag that happens to be set: \<^verbatim>\<open>is_streaming\<close> is not initialised.
\<close>

partial_function (option) stream_out :: "node \<Rightarrow> node option" where
  "stream_out s = do {
     (is_streaming, s) \<leftarrow> SendMulStream s;
     if is_streaming \<noteq> 0 then stream_out s else Some s
   }"

primrec path :: "block_info list list \<Rightarrow> place \<Rightarrow> nat \<Rightarrow> place list" where
  "path bss q 0 = []"
| "path bss q (Suc n) = q # path bss (advance bss q) n"

text \<open>How many blocks there are from a place to the end of the stream.\<close>

definition ahead :: "block_info list list \<Rightarrow> place \<Rightarrow> nat" where
  "ahead bss q = (case q of (j, m) \<Rightarrow> length (concat (drop j bss)) - m)"

lemma ahead_advance:
  assumes "valid bss q" and "fst q < length bss"
  shows "Suc (ahead bss (advance bss q)) = ahead bss q"
proof -
  obtain j m where q: "q = (j, m)" by (cases q)
  have j: "j < length bss" "m < length (bss ! j)" using assms by (auto simp: q valid_def)
  then have "drop j bss = bss ! j # drop (Suc j) bss" by (simp add: Cons_nth_drop_Suc)
  then show ?thesis using j by (auto simp: q ahead_def advance_def)
qed

lemma serves_ahead:
  assumes "serves hdr cs bss qs s" and "i \<in> set (due_slots cs qs s)"
  shows "Suc (ahead bss (advance bss (qs i))) = ahead bss (qs i)"
proof -
  have i: "i < 2" "connected (CONNECTED_NODES s) i" "due cs s (qs i)" using assms(2) by (simp_all add: in_due_slots)
  then have v: "valid bss (qs i)" using assms(1) by (auto simp: serves_def children_at_def)
  have "length bss = length cs" using assms(1) holds_sel(1) by (auto simp: serves_def)
  with serves_due(2) [OF assms(1) v i(3)] show ?thesis by (intro ahead_advance [OF v]) simp
qed

end
