(* ===== verification/Origin.thy ===== *)
theory Origin
  imports Serving Webm_Header
begin

text \<open>
  The origin's loop over the clusters of its file: \<^verbatim>\<open>UpdateClusterFromWebM\<close> of
  \<^verbatim>\<open>src/src/common/webm_parser.c\<close> and lines 292 to 327 of \<^verbatim>\<open>src/src/originsource/main.c\<close>.  The origin waits
  for the encoder and streams while it waits.  \<open>enc k\<close> is the encoder's file at the \<open>k\<close>-th look at its
  size, as in \<open>Webm_Header\<close>.
\<close>

section \<open>The code\<close>

definition WEBM_END :: int where "WEBM_END = 2"

text \<open>The file has less than a cluster header to offer: wait until it grows.\<close>

partial_function (option) wait_growth :: "(nat \<Rightarrow> bytes) \<Rightarrow> nat \<Rightarrow> node \<Rightarrow> (nat \<times> node) option" where
  "wait_growth enc k s =
     (let (grown, s) = look enc k s in if grown \<le> 0 then wait_growth enc (k + 1) s else Some (k + 1, s))"

text \<open>
  Wait for the header of the next cluster; its size must be known, which \<open>FOOTER\<close> says it is not.  The
  buffer is not cleared between two reads.
\<close>

partial_function (option) cluster_header ::
    "(nat \<Rightarrow> bytes) \<Rightarrow> nat \<Rightarrow> bytes \<Rightarrow> node \<Rightarrow> (nat \<times> bytes \<times> node) option" where
  "cluster_header enc k file_buf s = do {
     (file_buf, s) \<leftarrow> ImportWebM file_buf CLUSTER_HEADER_BYTES s;
     chank \<leftarrow> GetChank file_buf;
     if chank_id chank = CLUSTER_ID \<and> file_buf \<noteq> FOOTER then Some (k, file_buf, s)
     else do {
       (_, s) \<leftarrow> SendMulStream s;
       let (_, s) = look enc k s;
       let s = SeekRLTWebM (0 - int CLUSTER_HEADER_BYTES) FposR s;
       cluster_header enc (k + 1) file_buf (UpdateWebM FposR s)
     }
   }"

text \<open>Wait for the rest of the cluster; the comparison is an unsigned one.\<close>

partial_function (option) cluster_body ::
    "(nat \<Rightarrow> bytes) \<Rightarrow> nat \<Rightarrow> u32 \<Rightarrow> u64 \<Rightarrow> node \<Rightarrow> (node, int \<times> nat \<times> node) run option" where
  "cluster_body enc k ebml_id need s =
     (if ebml_id = CLUSTER_ID then
        if (of_int (TOTAL_FILE_BYTES s - CURRENT_FPOS_R s) :: u64) < need then do {
          (_, s) \<leftarrow> SendMulStream s;
          let (_, s) = look enc k s;
          cluster_body enc (k + 1) ebml_id need s
        } else Some (Ret (1, k, s))
      else Some (Exit s))"

definition UpdateClusterFromWebM ::
    "(nat \<Rightarrow> bytes) \<Rightarrow> bytes \<Rightarrow> nat \<Rightarrow> node \<Rightarrow> (node, int \<times> nat \<times> node) run option" where
  "UpdateClusterFromWebM enc file_buf k s =
     (let (_, s) = look enc k s in do {
        (k, s) \<leftarrow> (if int CLUSTER_HEADER_BYTES > TOTAL_FILE_BYTES s - CURRENT_FPOS_R s
                   then wait_growth enc (k + 1) s else Some (k + 1, s));
        (k, file_buf, s) \<leftarrow> cluster_header enc k file_buf s;
        s \<leftarrow> RenewClusterForRead file_buf s;
        c \<leftarrow> CURRENT_CLUSTER s;
        cluster_body enc k (chank_id (cl_info (cl c))) (chank_bytes (cl_info (cl c))) s
      })"

partial_function (option) origin_loop ::
    "(nat \<Rightarrow> bytes) \<Rightarrow> bytes \<Rightarrow> nat \<Rightarrow> node \<Rightarrow> (node, nat \<times> node) run option" where
  "origin_loop enc file_buf k s = do {
     r \<leftarrow> UpdateClusterFromWebM enc file_buf k s;
     case r of
       Exit s \<Rightarrow> Some (Exit s)
     | Ret (st, k, s) \<Rightarrow>
         if st \<noteq> WEBM_END then do { s \<leftarrow> send_cluster s; origin_loop enc file_buf k s }
         else Some (Ret (k, s))
   }"

section \<open>No end of the stream\<close>

lemma cluster_body_status:
  assumes "cluster_body enc k i n s = Some (Ret (st, j, t))"
  shows "st = 1"
proof -
  have "r = Ret (st, j, t) \<longrightarrow> st = 1" if "cluster_body enc k i n s = Some r" for r
    by (rule cluster_body.raw_induct [where P = "\<lambda>enc k i n s r. r = Ret (st, j, t) \<longrightarrow> st = 1", OF _ that])
      (auto simp: Let_def split: if_splits prod.splits elim!: bind_SomeE)
  with assms show ?thesis by simp
qed

lemma UpdateClusterFromWebM_status:
  "UpdateClusterFromWebM enc b k s = Some (Ret (st, j, t)) \<Longrightarrow> st = 1"
  unfolding UpdateClusterFromWebM_def
  by (auto simp: Let_def split: prod.splits elim!: bind_SomeE dest: cluster_body_status)

text \<open>
  C9: The origin never comes to an end of its stream: \<^verbatim>\<open>UpdateClusterFromWebM\<close> knows no \<^verbatim>\<open>WEBM_END\<close>, so the
  loop over the clusters is never left, whatever the encoder writes, and the code behind it is dead.
\<close>

theorem origin_never_ends: "origin_loop enc file_buf k s \<noteq> Some (Ret r)"
proof
  assume "origin_loop enc file_buf k s = Some (Ret r)"
  moreover have "x = Ret r \<longrightarrow> False" if "origin_loop enc file_buf k s = Some x" for x
  proof (rule origin_loop.raw_induct [where P = "\<lambda>enc b k s x. x = Ret r \<longrightarrow> False", OF _ that], goal_cases)
    case (1 loop enc b k s y)
    then show ?case
      by (auto split: run.splits prod.splits if_splits elim!: bind_SomeE dest!: UpdateClusterFromWebM_status
          simp: WEBM_END_def) blast
  qed
  ultimately show False by blast
qed

end
