(* ===== verification/Origin_Run.thy ===== *)
theory Origin_Run
  imports Origin
begin

text \<open>
  What the origin's loop over the clusters does: it waits for a cluster, cuts it and sends it on, and
  while it does, its children are served from the clusters before.
\<close>

section \<open>Serving on the way\<close>

text \<open>The fields the loop changes.\<close>

definition same_node :: "node \<Rightarrow> node \<Rightarrow> bool" where
  "same_node s t \<longleftrightarrow> t = s\<lparr>FILE := FILE t, FP := FP t, TOTAL_FILE_BYTES := TOTAL_FILE_BYTES t,
     CURRENT_FPOS_R := CURRENT_FPOS_R t, CURRENT_READ_BYTES := CURRENT_READ_BYTES t, CURRENT_CLUSTER := CURRENT_CLUSTER t,
     CURRENT_BLOCK := CURRENT_BLOCK t, CURRENT_CHILD_BLOCK := CURRENT_CHILD_BLOCK t, TOTAL_BLOCK_NUM := TOTAL_BLOCK_NUM t,
     LATEST_BLOCK_SEQ := LATEST_BLOCK_SEQ t, WIRE := WIRE t\<rparr>"

lemma same_node_sel:
  assumes "same_node s t"
  shows "ADDR t = ADDR s" "CONNECTED_NODES t = CONNECTED_NODES s" "CURRENT_CHILD_NUM t = CURRENT_CHILD_NUM s"
    "WEBM_HEADER_total_bytes t = WEBM_HEADER_total_bytes s" "FIRST_CLUSTER_SEQ t = FIRST_CLUSTER_SEQ s"
    "NODES_STATUS t = NODES_STATUS s" "GATEWAY_MAC t = GATEWAY_MAC s"
  using assms by (cases s; cases t; simp add: same_node_def)+

lemma same_node_refl: "same_node s s"
  by (simp add: same_node_def)

lemma same_node_trans: "same_node s t \<Longrightarrow> same_node t u \<Longrightarrow> same_node s u"
  unfolding same_node_def by (cases s; cases t; cases u) simp

lemma sent_more_same: "sent_more s fs t \<Longrightarrow> same_node s t"
  unfolding same_node_def sent_more_def by (cases s; cases t) simp

text \<open>What the file of a served stream must be: the part of \<open>holds\<close> that is about the file.\<close>

definition has_stream :: "bytes \<Rightarrow> bytes list \<Rightarrow> block_info list list \<Rightarrow> bytes \<Rightarrow> bool" where
  "has_stream hdr cs bss f \<longleftrightarrow> (\<exists>rest. f = hdr @ concat cs @ rest \<and>
     (\<forall>j < length cs. cut_into (of_nat j) (cs ! j) (concat (drop (Suc j) cs) @ rest) (bss ! j)))"

lemma holds_stream:
  "holds hdr cs bss w \<longleftrightarrow> length bss = length cs \<and> length cs < 2 ^ 16 \<and> has_stream hdr cs bss (FILE w) \<and>
     TOTAL_FILE_BYTES w = int (length (FILE w)) \<and> length (FILE w) < 2 ^ 62 \<and>
     unat (WEBM_HEADER_total_bytes w) = length hdr \<and> FIRST_CLUSTER_SEQ w = 0"
  by (auto simp: holds_def has_stream_def)


text \<open>The number of the cluster before the current one, which decides what a child may get.\<close>

definition before_seq :: "node \<Rightarrow> u32 option" where
  "before_seq s = map_option (\<lambda>c. cl_seq (cl_prev c)) (CURRENT_CLUSTER s)"

lemma serves_alt:
  "serves hdr cs bss qs s \<longleftrightarrow> node_wf s \<and> holds hdr cs bss s \<and> children_at bss qs s \<and>
     (\<exists>n. before_seq s = Some n \<and> length cs = Suc (unat n))"
  by (auto simp: serves_def before_seq_def)

lemma serves_update:
  assumes v: "serves hdr cs bss qs s" and e: "same_node s t" "CURRENT_CHILD_BLOCK t = CURRENT_CHILD_BLOCK s"
    "before_seq t = before_seq s"
    and f: "has_stream hdr cs bss (FILE t)" "TOTAL_FILE_BYTES t = int (length (FILE t))" "length (FILE t) < 2 ^ 62"
  shows "serves hdr cs bss qs t"
  using v f unfolding serves_alt children_at_def node_wf_def holds_stream
  by (simp add: same_node_sel [OF e(1)] e(2,3))

lemma slots_ok_same:
  "slots_ok s \<Longrightarrow> same_node s t \<Longrightarrow> length (CURRENT_CHILD_BLOCK t) = 2 \<Longrightarrow> slots_ok t"
  by (auto simp: slots_ok_children same_node_sel)

text \<open>
  From \<open>s\<close> to \<open>t\<close> frames have been written that bring every slot \<open>i\<close> the next \<open>m i\<close> blocks from its place
  \<open>qs i\<close> on, in order, all of them from the complete clusters.
\<close>

definition moved :: "block_info list list \<Rightarrow> (nat \<Rightarrow> place) \<Rightarrow> (nat \<Rightarrow> nat) \<Rightarrow> nat \<Rightarrow> place" where
  "moved bss qs m i = (advance bss ^^ m i) (qs i)"

definition streamed :: "bytes \<Rightarrow> bytes list \<Rightarrow> block_info list list \<Rightarrow> (nat \<Rightarrow> place) \<Rightarrow> node \<Rightarrow> (nat \<Rightarrow> nat) \<Rightarrow> node \<Rightarrow> bool" where
  "streamed hdr cs bss qs s m t \<longleftrightarrow> same_node s t \<and> serves hdr cs bss (moved bss qs m) t \<and> slots_ok t \<and>
     (\<exists>trace fs. WIRE t = WIRE s @ fs \<and>
       list_all2 (\<lambda>(i, q) f. carries (ADDR s) (int i) (1 # packet_at cs bss q) f) trace fs \<and>
       (\<forall>i < 2. map snd (filter (\<lambda>p. fst p = i) trace) = path bss (qs i) (m i) \<and>
          (\<forall>k < m i. fst ((advance bss ^^ k) (qs i)) < length cs)))"

lemma path_add: "path bss q (m + n) = path bss q m @ path bss ((advance bss ^^ m) q) n"
  by (induction m arbitrary: q) (simp_all add: funpow_swap1)

lemma streamed_refl: "serves hdr cs bss qs s \<Longrightarrow> slots_ok s \<Longrightarrow> streamed hdr cs bss qs s (\<lambda>_. 0) s"
  by (auto simp: streamed_def moved_def [abs_def] same_node_refl intro!: exI [of _ "[]"])

lemma streamed_trans:
  assumes st: "streamed hdr cs bss qs s m t" and tu: "streamed hdr cs bss (moved bss qs m) t n u"
  shows "streamed hdr cs bss qs s (\<lambda>i. m i + n i) u"
proof -
  have f: "(advance bss ^^ b) ((advance bss ^^ a) q) = (advance bss ^^ (a + b)) q" for a b q
    using funpow_add [of b a "advance bss"] by (simp add: add.commute)
  then have mv: "moved bss (moved bss qs m) n = moved bss qs (\<lambda>i. m i + n i)" by (simp add: moved_def fun_eq_iff)
  obtain trace fs where 1: "WIRE t = WIRE s @ fs" "list_all2 (\<lambda>(i, q) f. carries (ADDR s) (int i) (1 # packet_at cs bss q) f) trace fs"
    "\<forall>i < 2. map snd (filter (\<lambda>p. fst p = i) trace) = path bss (qs i) (m i) \<and>
       (\<forall>k < m i. fst ((advance bss ^^ k) (qs i)) < length cs)"
    using st by (auto simp: streamed_def)
  obtain trace' gs where 2: "WIRE u = WIRE t @ gs" "list_all2 (\<lambda>(i, q) f. carries (ADDR t) (int i) (1 # packet_at cs bss q) f) trace' gs"
    "\<forall>i < 2. map snd (filter (\<lambda>p. fst p = i) trace') = path bss (moved bss qs m i) (n i) \<and>
       (\<forall>k < n i. fst ((advance bss ^^ k) (moved bss qs m i)) < length cs)"
    using tu by (auto simp: streamed_def)
  have sa: "same_node s t" "same_node t u" using st tu by (auto simp: streamed_def)
  have "fst ((advance bss ^^ k) (qs i)) < length cs" if "i < 2" "k < m i + n i" for i k
  proof (cases "k < m i")
    case False
    with that 2(3) have "fst ((advance bss ^^ (k - m i)) (moved bss qs m i)) < length cs" by auto
    then show ?thesis using False by (simp add: moved_def f)
  qed (use that 1(3) in auto)
  moreover have "list_all2 (\<lambda>(i, q) f. carries (ADDR s) (int i) (1 # packet_at cs bss q) f) (trace @ trace') (fs @ gs)"
    using 1(2) 2(2) same_node_sel(1) [OF sa(1)] by (simp add: list_all2_appendI)
  moreover have "map snd (filter (\<lambda>p. fst p = i) (trace @ trace')) = path bss (qs i) (m i + n i)" if "i < 2" for i
    using that 1(3) 2(3) by (simp add: path_add moved_def)
  ultimately show ?thesis
    using tu 1(1) 2(1) same_node_trans [OF sa] unfolding streamed_def mv
    by (intro conjI exI [of _ "trace @ trace'"] exI [of _ "fs @ gs"]) auto
qed

lemma streamed_more:
  assumes "streamed hdr cs bss qs s m t" and "same_node t u" "CURRENT_CHILD_BLOCK u = CURRENT_CHILD_BLOCK t"
    "WIRE u = WIRE t" "before_seq u = before_seq t" "has_stream hdr cs bss (FILE u)"
    "TOTAL_FILE_BYTES u = int (length (FILE u))" "length (FILE u) < 2 ^ 62"
  shows "streamed hdr cs bss qs s m u"
proof -
  have t: "serves hdr cs bss (moved bss qs m) t" "slots_ok t" "same_node s t" using assms(1) by (simp_all add: streamed_def)
  then have "length (CURRENT_CHILD_BLOCK u) = 2" by (simp add: assms(3) serves_def children_at_def)
  with serves_update [OF t(1) assms(2,3,5-8)] slots_ok_same [OF t(2) assms(2)] same_node_trans [OF t(3) assms(2)] assms(1,4)
  show ?thesis by (simp add: streamed_def)
qed

text \<open>One call of \<^verbatim>\<open>SendMulStream\<close>.\<close>

lemma SendMulStream_streamed:
  assumes "serves hdr cs bss qs s" "slots_ok s"
  obtains r t m where "SendMulStream s = Some (r, t)" "streamed hdr cs bss qs s m t" "sent_more s (drop (length (WIRE s)) (WIRE t)) t"
    "FP t = FP s" "CURRENT_FPOS_R t = int (FP s)"
    "\<forall>i < 2. m i = (if connected (CONNECTED_NODES s) i \<and> due cs s (qs i) then 1 else 0)"
    "r = (if due_slots cs qs s = [] then 0 else 1)"
proof -
  obtain r fs t where t: "SendMulStream s = Some (r, t)"
    "list_all2 (\<lambda>i f. carries (ADDR s) (int i) (1 # packet_at cs bss (qs i)) f) (due_slots cs qs s) fs"
    "serves hdr cs bss (served cs bss qs s) t" "slots_ok t" "sent_more s fs t" "FP t = FP s" "CURRENT_FPOS_R t = int (FP s)"
    "r = (if due_slots cs qs s = [] then 0 else 1)"
    by (rule SendMulStream_serves [OF assms])
  define m where "m i = (if i \<in> set (due_slots cs qs s) then 1 else 0 :: nat)" for i
  have mv: "moved bss qs m = served cs bss qs s" by (auto simp: moved_def m_def served_def fun_eq_iff)
  have w: "WIRE t = WIRE s @ fs" using sent_more_sel(4) [OF t(5)] .
  define trace where "trace = map (\<lambda>i. (i, qs i)) (due_slots cs qs s)"
  have tr: "map snd (filter (\<lambda>p. fst p = i) trace) = path bss (qs i) (m i)" if "i < 2" for i
    using that by (auto simp: trace_def m_def due_slots_def less_2_cases_iff)
  have du: "fst (qs i) < length cs" if "i \<in> set (due_slots cs qs s)" for i
  proof -
    have i: "i < 2" "connected (CONNECTED_NODES s) i" "due cs s (qs i)" using that by (simp_all add: in_due_slots)
    then have "valid bss (qs i)" using assms(1) by (auto simp: serves_def children_at_def)
    from serves_due(2) [OF assms(1) this i(3)] show ?thesis .
  qed
  have "list_all2 (\<lambda>(i, q) f. carries (ADDR s) (int i) (1 # packet_at cs bss q) f) trace fs"
    using t(2) by (simp add: trace_def list_all2_map1)
  moreover have "\<forall>i < 2. \<forall>k < m i. fst ((advance bss ^^ k) (qs i)) < length cs" using du by (auto simp: m_def)
  ultimately have "streamed hdr cs bss qs s m t"
    unfolding streamed_def mv using t(3,4) w tr sent_more_same [OF t(5)] by blast
  moreover have "\<forall>i < 2. m i = (if connected (CONNECTED_NODES s) i \<and> due cs s (qs i) then 1 else 0)"
    by (auto simp: m_def in_due_slots)
  moreover have "sent_more s (drop (length (WIRE s)) (WIRE t)) t" using t(5) by (simp add: w)
  ultimately show thesis using t(1,6-8) that by blast
qed


text \<open>The loop behind the clusters, if it were reached, would end when no child is behind.\<close>

lemma stream_out_ends:
  assumes "serves hdr cs bss qs s" and "slots_ok s"
  shows "\<exists>m t. stream_out s = Some t \<and> streamed hdr cs bss qs s m t \<and>
    (\<forall>i < 2. connected (CONNECTED_NODES s) i \<longrightarrow> \<not> due cs s (moved bss qs m i))"
  using assms
proof (induction "ahead bss (qs 0) + ahead bss (qs 1)" arbitrary: qs s rule: less_induct)
  case less
  obtain r t m where t: "SendMulStream s = Some (r, t)" "streamed hdr cs bss qs s m t"
    "sent_more s (drop (length (WIRE s)) (WIRE t)) t"
    "\<forall>i < 2. m i = (if connected (CONNECTED_NODES s) i \<and> due cs s (qs i) then 1 else 0)"
    "r = (if due_slots cs qs s = [] then 0 else 1)"
    by (rule SendMulStream_streamed [OF less.prems])
  show ?case
  proof (cases "due_slots cs qs s = []")
    case True
    then have nd: "\<forall>i < 2. \<not> (connected (CONNECTED_NODES s) i \<and> due cs s (qs i))" by (simp only: due_slots_Nil)
    with t(4) have "\<forall>i < 2. m i = 0" by auto
    with nd have "\<forall>i < 2. connected (CONNECTED_NODES s) i \<longrightarrow> \<not> due cs s (moved bss qs m i)" by (simp add: moved_def)
    moreover have "stream_out s = Some t" using t(1,5) True by (subst stream_out.simps) simp
    ultimately show ?thesis using t(2) by blast
  next
    case False
    have v: "serves hdr cs bss (moved bss qs m) t" "slots_ok t" using t(2) by (simp_all add: streamed_def)
    have d: "ahead bss (moved bss qs m i) = (if connected (CONNECTED_NODES s) i \<and> due cs s (qs i)
        then ahead bss (qs i) - 1 else ahead bss (qs i)) \<and> (connected (CONNECTED_NODES s) i \<and> due cs s (qs i) \<longrightarrow> 0 < ahead bss (qs i))"
      if "i < 2" for i
      using that t(4) serves_ahead [OF less.prems(1), of i] by (auto simp: moved_def in_due_slots)
    have "\<exists>i < 2. connected (CONNECTED_NODES s) i \<and> due cs s (qs i)" using False by (auto simp: due_slots_Nil)
    then have "ahead bss (moved bss qs m 0) + ahead bss (moved bss qs m 1) < ahead bss (qs 0) + ahead bss (qs 1)"
      using d [of 0] d [of 1] by (auto simp: less_2_cases_iff)
    from less.hyps [OF this v] obtain n u where u: "stream_out t = Some u" "streamed hdr cs bss (moved bss qs m) t n u"
      "\<forall>i < 2. connected (CONNECTED_NODES t) i \<longrightarrow> \<not> due cs t (moved bss (moved bss qs m) n i)" by blast
    have "moved bss (moved bss qs m) n = moved bss qs (\<lambda>i. m i + n i)"
      by (simp add: moved_def fun_eq_iff add.commute [of "m _"] funpow_add)
    with u(3) have "\<forall>i < 2. connected (CONNECTED_NODES s) i \<longrightarrow> \<not> due cs s (moved bss qs (\<lambda>i. m i + n i) i)"
      using sent_more_sel(2,3) [OF t(3)] by simp
    moreover have "stream_out s = Some u" using t(1,5) False u(1) by (subst stream_out.simps) simp
    ultimately show ?thesis using streamed_trans [OF t(2) u(2)] by blast
  qed
qed

section \<open>Looking at the file\<close>

text \<open>Waiting changes the file, the positions in it, the wire and the children's blocks.\<close>

definition waited :: "node \<Rightarrow> node \<Rightarrow> bool" where
  "waited s t \<longleftrightarrow> t = s\<lparr>FILE := FILE t, FP := FP t, TOTAL_FILE_BYTES := TOTAL_FILE_BYTES t,
     CURRENT_FPOS_R := CURRENT_FPOS_R t, CURRENT_READ_BYTES := CURRENT_READ_BYTES t,
     CURRENT_CHILD_BLOCK := CURRENT_CHILD_BLOCK t, WIRE := WIRE t\<rparr>"

lemma waited_same: "waited s t \<Longrightarrow> same_node s t"
  unfolding waited_def same_node_def by (cases s; cases t) simp

lemma waited_sel:
  assumes "waited s t"
  shows "CURRENT_CLUSTER t = CURRENT_CLUSTER s" "CURRENT_BLOCK t = CURRENT_BLOCK s"
    "LATEST_BLOCK_SEQ t = LATEST_BLOCK_SEQ s" "CONNECTED_NODES t = CONNECTED_NODES s" "ADDR t = ADDR s"
  using assms by (cases s; cases t; simp add: waited_def)+

lemma waited_refl: "waited s s"
  by (simp add: waited_def)

lemma waited_trans: "waited s t \<Longrightarrow> waited t u \<Longrightarrow> waited s u"
  unfolding waited_def by (cases s; cases t; cases u) simp

lemma sent_more_waited: "sent_more s fs t \<Longrightarrow> waited s t"
  unfolding waited_def sent_more_def by (cases s; cases t) simp

lemma waited_sent_more_read: "sent_more s fs t \<Longrightarrow> CURRENT_READ_BYTES t = CURRENT_READ_BYTES s"
  by (rule sent_more_sel(9))

lemma look_grown:
  assumes "TOTAL_FILE_BYTES s = int (length (FILE s))" and "length (FILE s) \<le> length (enc k)"
  shows "look enc k s = (if length (FILE s) < length (enc k) then 1 else 0,
    s\<lparr>FILE := enc k, TOTAL_FILE_BYTES := int (length (enc k))\<rparr>)"
  using assms by (auto simp: look_def CheckWebMSize_def Let_def)

lemma ImportWebM_read:
  assumes "0 \<le> CURRENT_FPOS_R s" "CURRENT_FPOS_R s \<le> int (FP s)" "FP s \<le> length (FILE s)"
    and "TOTAL_FILE_BYTES s = int (length (FILE s))" "length (FILE s) < 2 ^ 62" "n < 2 ^ 62"
    and "xs = take n (drop (FP s) (FILE s))" "length xs \<le> length buf"
  shows "ImportWebM buf n s = Some (xs @ drop (length xs) buf,
    s\<lparr>FP := FP s + length xs, CURRENT_READ_BYTES := of_nat (length xs)\<rparr>)"
proof -
  define d where "d = nat (TOTAL_FILE_BYTES s - CURRENT_FPOS_R s)"
  have r: "read_bytes n (TOTAL_FILE_BYTES s - CURRENT_FPOS_R s) = min n d"
    using assms unfolding d_def by (intro read_bytes_le) auto
  have "length (FILE s) - FP s \<le> d" using assms by (simp add: d_def)
  then have t: "take (min n d) (drop (FP s) (FILE s)) = xs"
    unfolding assms(7) by (auto simp: min_def)
  have "fread (min n d) s = (xs, s\<lparr>FP := FP s + length xs\<rparr>)" unfolding fread_def Let_def t ..
  then show ?thesis using assms(8) by (simp add: ImportWebM_def r wrn_def)
qed

text \<open>One round of waiting: the children are served, and the size of the file is looked at.\<close>

definition served_rounds :: "bytes list \<Rightarrow> block_info list list \<Rightarrow> (nat \<Rightarrow> place) \<Rightarrow> node \<Rightarrow> nat \<Rightarrow> (nat \<Rightarrow> nat) \<Rightarrow> bool" where
  "served_rounds cs bss qs s n m \<longleftrightarrow> (\<forall>i < 2. (\<forall>k < m i. due cs s ((advance bss ^^ k) (qs i))) \<and>
     (connected (CONNECTED_NODES s) i \<longrightarrow> \<not> due cs s (moved bss qs m i) \<or>
        ahead bss (moved bss qs m i) + n \<le> ahead bss (qs i)))"

lemma served_rounds_0: "served_rounds cs bss qs s 0 (\<lambda>_. 0)"
  by (simp add: served_rounds_def moved_def)

lemma served_rounds_add:
  assumes "served_rounds cs bss qs s a m" "served_rounds cs bss (moved bss qs m) t b n"
    and "LATEST_BLOCK_SEQ t = LATEST_BLOCK_SEQ s" "CONNECTED_NODES t = CONNECTED_NODES s"
  shows "served_rounds cs bss qs s (a + b) (\<lambda>i. m i + n i)"
  unfolding served_rounds_def
proof (intro allI impI conjI)
  fix i :: nat assume i: "i < 2"
  have f: "(advance bss ^^ x) ((advance bss ^^ y) q) = (advance bss ^^ (y + x)) q" for x y q
    using funpow_add [of x y "advance bss"] by (simp add: add.commute)
  have mv: "moved bss qs (\<lambda>i. m i + n i) i = moved bss (moved bss qs m) n i" by (simp add: moved_def f)
  have 1: "\<forall>k < m i. due cs s ((advance bss ^^ k) (qs i))"
    "connected (CONNECTED_NODES s) i \<longrightarrow> \<not> due cs s (moved bss qs m i) \<or> ahead bss (moved bss qs m i) + a \<le> ahead bss (qs i)"
    using assms(1) i by (auto simp: served_rounds_def)
  have 2: "\<forall>k < n i. due cs s ((advance bss ^^ k) (moved bss qs m i))"
    "connected (CONNECTED_NODES s) i \<longrightarrow> \<not> due cs s (moved bss (moved bss qs m) n i) \<or>
       ahead bss (moved bss (moved bss qs m) n i) + b \<le> ahead bss (moved bss qs m i)"
    using assms(2-4) i by (auto simp: served_rounds_def)
  show "due cs s ((advance bss ^^ k) (qs i))" if "k < m i + n i" for k
  proof (cases "k < m i")
    case False
    with that 2(1) have "due cs s ((advance bss ^^ (k - m i)) (moved bss qs m i))" by auto
    then show ?thesis using False by (simp add: moved_def f)
  qed (use 1(1) in simp)
  assume c: "connected (CONNECTED_NODES s) i"
  have "n i = 0" if "\<not> due cs s (moved bss qs m i)" using 2(1) that by (cases "n i") auto
  then have "\<not> due cs s (moved bss (moved bss qs m) n i)" if "\<not> due cs s (moved bss qs m i)"
    using that by (simp add: moved_def [of bss "moved bss qs m"])
  with 1(2) 2(2) c show "\<not> due cs s (moved bss qs (\<lambda>i. m i + n i) i) \<or>
      ahead bss (moved bss qs (\<lambda>i. m i + n i) i) + (a + b) \<le> ahead bss (qs i)"
    unfolding mv by auto
qed

lemma stream_and_look:
  assumes v: "serves hdr cs bss qs s" "slots_ok s"
    and e: "has_stream hdr cs bss (enc k)" "length (FILE s) \<le> length (enc k)" "length (enc k) < 2 ^ 62"
  obtains r t g u m where "SendMulStream s = Some (r, t)" "look enc k t = (g, u)" "streamed hdr cs bss qs s m u"
    "served_rounds cs bss qs s 1 m" "waited s u" "FILE u = enc k" "TOTAL_FILE_BYTES u = int (length (enc k))" "FP u = FP s"
    "CURRENT_FPOS_R u = int (FP s)"
proof -
  obtain r t m where t: "SendMulStream s = Some (r, t)" "streamed hdr cs bss qs s m t"
    "sent_more s (drop (length (WIRE s)) (WIRE t)) t" "FP t = FP s" "CURRENT_FPOS_R t = int (FP s)"
    "\<forall>i < 2. m i = (if connected (CONNECTED_NODES s) i \<and> due cs s (qs i) then 1 else 0)"
    by (rule SendMulStream_streamed [OF v])
  define u where "u = t\<lparr>FILE := enc k, TOTAL_FILE_BYTES := int (length (enc k))\<rparr>"
  have "TOTAL_FILE_BYTES t = int (length (FILE t))" "FILE t = FILE s"
    using sent_more_sel(7,8) [OF t(3)] v(1) by (auto simp: serves_def holds_def)
  then have l: "look enc k t = (if length (FILE t) < length (enc k) then 1 else 0, u)"
    using look_grown [of t enc k] e(2) by (simp add: u_def)
  have "same_node t u" by (simp add: u_def same_node_def)
  from streamed_more [OF t(2) this] e(1,3) have st: "streamed hdr cs bss qs s m u" by (simp add: u_def before_seq_def)
  have "waited t u" by (simp add: u_def waited_def)
  then have w: "waited s u" using waited_trans [OF sent_more_waited [OF t(3)]] by blast
  have "served_rounds cs bss qs s 1 m"
  proof -
    have "Suc (ahead bss (advance bss (qs i))) = ahead bss (qs i)"
      if "i < 2" "connected (CONNECTED_NODES s) i" "due cs s (qs i)" for i
      using that by (intro serves_ahead [OF v(1)]) (simp add: in_due_slots)
    then show ?thesis using t(6) unfolding served_rounds_def moved_def by (auto split: if_splits)
  qed
  with st w l t(1,4,5) show thesis by (intro that [of r t _ u m]) (simp_all add: u_def)
qed


section \<open>Waiting for the header\<close>

lemma cluster_hdr_vint:
  assumes "n < 2 ^ 56"
  shows "cluster_hdr n = be_bytes 4 0x1f43b675 @ vint 8 n"
proof -
  have "be_val (be_bytes 7 (n + 2 ^ 56)) = n" using assms by (simp add: be_val_be_bytes)
  then have "be_bytes 7 (n + 2 ^ 56) = be_bytes 7 n" using be_bytes_be_val [of 7 "be_bytes 7 (n + 2 ^ 56)"] by simp
  moreover have "(n + 2 ^ 56) div 256 ^ 7 = 1" using assms by simp
  ultimately have "vint 8 n = 1 # be_bytes 7 n"
    using be_bytes_Suc [of 7 "n + 2 ^ 56"] by (simp add: vint_def)
  moreover have "(4 :: nat) = Suc (Suc (Suc (Suc 0)))" by simp
  then have "be_bytes 4 0x1f43b675 = [0x1f, 0x43, 0xb6, 0x75]" by (simp only: be_bytes_Suc be_bytes_0) simp
  ultimately show ?thesis by (simp add: cluster_hdr_def)
qed

definition cluster_chank :: "nat \<Rightarrow> Chank" where
  "cluster_chank n = \<lparr>chank_id = CLUSTER_ID, id_bytes = 4, data_header_position = 12, data_bytes = of_nat n,
     chank_bytes = of_nat (12 + n)\<rparr>"

lemma GetChank_cluster_hdr:
  assumes "n < 2 ^ 56 - 1"
  shows "GetChank (cluster_hdr n) = Some (cluster_chank n)" and "cluster_hdr n \<noteq> FOOTER"
proof -
  have v: "vint_ok 8 n" "id_ok 4 0x1f43b675" using assms by (simp_all add: vint_ok_def id_ok_def)
  show "GetChank (cluster_hdr n) = Some (cluster_chank n)"
    using GetChank_enc [OF v(2,1), of "[]"] assms
    by (simp add: cluster_hdr_vint Let_def cluster_chank_def CLUSTER_ID_def)
  have "be_val (drop 5 (cluster_hdr n)) = n" using assms by (simp add: cluster_hdr_def be_val_be_bytes)
  moreover have "be_val (drop 5 FOOTER) = 2 ^ 56 - 1" by (simp add: FOOTER_hdr cluster_hdr_def be_val_be_bytes)
  ultimately show "cluster_hdr n \<noteq> FOOTER" using assms by auto
qed

text \<open>What is at the place of the next cluster: its header, or something to wait at.\<close>

definition header_at :: "bytes \<Rightarrow> nat \<Rightarrow> nat \<Rightarrow> bool" where
  "header_at f p n \<longleftrightarrow> p + 12 \<le> length f \<and> take 12 (drop p f) = cluster_hdr n \<and> n < 2 ^ 56 - 1"

definition not_yet :: "bytes \<Rightarrow> nat \<Rightarrow> bool" where
  "not_yet f p \<longleftrightarrow> p + 12 \<le> length f \<and> (\<exists>h. GetChank (take 12 (drop p f)) = Some h \<and>
     (chank_id h \<noteq> CLUSTER_ID \<or> take 12 (drop p f) = FOOTER))"

lemma read_header:
  assumes "FP s = p" "CURRENT_FPOS_R s = int p" "p + 12 \<le> length (FILE s)" "length buf = 12"
    and "TOTAL_FILE_BYTES s = int (length (FILE s))" "length (FILE s) < 2 ^ 62"
  shows "ImportWebM buf CLUSTER_HEADER_BYTES s =
    Some (take 12 (drop p (FILE s)), s\<lparr>FP := p + 12, CURRENT_READ_BYTES := 12\<rparr>)"
  using ImportWebM_read [of s 12 "take 12 (drop p (FILE s))" buf] assms by (simp add: CLUSTER_HEADER_BYTES_def)

text \<open>The file of the encoder grows and keeps the stream that is served.\<close>

definition encoder :: "(nat \<Rightarrow> bytes) \<Rightarrow> nat \<Rightarrow> bytes \<Rightarrow> bytes list \<Rightarrow> block_info list list \<Rightarrow> bool" where
  "encoder enc k hdr cs bss \<longleftrightarrow> (\<forall>j \<ge> k. has_stream hdr cs bss (enc j) \<and> length (enc j) < 2 ^ 62 \<and>
     length (enc j) \<le> length (enc (Suc j)))"

lemma encoderD:
  assumes "encoder enc k hdr cs bss" "k \<le> j"
  shows "has_stream hdr cs bss (enc j)" "length (enc j) < 2 ^ 62" "length (enc j) \<le> length (enc (Suc j))"
    "encoder enc j hdr cs bss"
  using assms by (auto simp: encoder_def)

lemma cluster_header_waits:
  assumes "encoder enc k hdr cs bss" "serves hdr cs bss qs s" "slots_ok s"
    and "FILE s = enc k" "FP s = p" "CURRENT_FPOS_R s = int p" "length buf = 12"
    and "\<forall>i < n. not_yet (enc (k + i)) p" "header_at (enc (k + n)) p d"
  shows "\<exists>t m. cluster_header enc (Suc k) buf s = Some (Suc (k + n), cluster_hdr d, t) \<and>
    streamed hdr cs bss qs s m t \<and> served_rounds cs bss qs s n m \<and> waited s t \<and>
    FILE t = enc (k + n) \<and> FP t = p + 12 \<and> CURRENT_FPOS_R t = int p"
  using assms
proof (induction n arbitrary: k s qs buf)
  case 0
  have T: "TOTAL_FILE_BYTES s = int (length (FILE s))" "length (FILE s) < 2 ^ 62"
    using "0.prems"(2) by (auto simp: serves_def holds_def)
  define t where "t = s\<lparr>FP := p + 12, CURRENT_READ_BYTES := 12\<rparr>"
  have h: "p + 12 \<le> length (FILE s)" "take 12 (drop p (FILE s)) = cluster_hdr d" "d < 2 ^ 56 - 1"
    using "0.prems"(4,9) by (auto simp: header_at_def)
  have "ImportWebM buf CLUSTER_HEADER_BYTES s = Some (cluster_hdr d, t)"
    using read_header [OF "0.prems"(5,6) h(1) "0.prems"(7) T] by (simp add: h(2) t_def)
  then have "cluster_header enc (Suc k) buf s = Some (Suc k, cluster_hdr d, t)"
    using GetChank_cluster_hdr [OF h(3)] by (subst cluster_header.simps) (simp add: cluster_chank_def)
  moreover have "streamed hdr cs bss qs s (\<lambda>_. 0) t"
    using streamed_more [OF streamed_refl [OF "0.prems"(2,3)], of t] T encoderD(1) [OF "0.prems"(1) order.refl] "0.prems"(4)
    by (simp add: t_def same_node_def before_seq_def)
  moreover have "waited s t" by (simp add: t_def waited_def)
  ultimately show ?case using "0.prems"(4,6) served_rounds_0 by (auto simp: t_def)
next
  case (Suc n)
  have T: "TOTAL_FILE_BYTES s = int (length (FILE s))" "length (FILE s) < 2 ^ 62"
    using Suc.prems(2) by (auto simp: serves_def holds_def)
  define s1 where "s1 = s\<lparr>FP := p + 12, CURRENT_READ_BYTES := 12\<rparr>"
  define buf1 where "buf1 = take 12 (drop p (FILE s))"
  have "not_yet (enc k) p" using Suc.prems(8) by (metis add_0_right zero_less_Suc)
  then obtain h where h: "p + 12 \<le> length (FILE s)" "GetChank buf1 = Some h" "chank_id h \<noteq> CLUSTER_ID \<or> buf1 = FOOTER"
    using Suc.prems(4) by (auto simp: not_yet_def buf1_def)
  have i: "ImportWebM buf CLUSTER_HEADER_BYTES s = Some (buf1, s1)"
    using read_header [OF Suc.prems(5,6) h(1) Suc.prems(7) T] by (simp add: buf1_def s1_def)
  have st1: "streamed hdr cs bss qs s (\<lambda>_. 0) s1"
    using streamed_more [OF streamed_refl [OF Suc.prems(2,3)], of s1] T encoderD(1) [OF Suc.prems(1) order.refl] Suc.prems(4)
    by (simp add: s1_def same_node_def before_seq_def)
  then have v1: "serves hdr cs bss qs s1" "slots_ok s1" by (simp_all add: streamed_def moved_def [abs_def])
  have e: "has_stream hdr cs bss (enc (Suc k))" "length (FILE s1) \<le> length (enc (Suc k))" "length (enc (Suc k)) < 2 ^ 62"
    using encoderD [OF Suc.prems(1), of "Suc k"] encoderD(3) [OF Suc.prems(1) order.refl] Suc.prems(4) by (simp_all add: s1_def)
  obtain r t g u m where u: "SendMulStream s1 = Some (r, t)" "look enc (Suc k) t = (g, u)" "streamed hdr cs bss qs s1 m u"
    "served_rounds cs bss qs s1 1 m" "waited s1 u" "FILE u = enc (Suc k)" "TOTAL_FILE_BYTES u = int (length (enc (Suc k)))"
    "FP u = FP s1" "CURRENT_FPOS_R u = int (FP s1)"
    by (rule stream_and_look [where enc = enc and k = "Suc k", OF v1 e])
  define w where "w = u\<lparr>FP := p, CURRENT_FPOS_R := int p\<rparr>"
  have seek: "UpdateWebM FposR (SeekRLTWebM (- int CLUSTER_HEADER_BYTES) FposR u) = w"
    using u(8) by (simp add: UpdateWebM_def OpenWebM_def file_defs Let_def CLUSTER_HEADER_BYTES_def w_def s1_def)
  have step: "cluster_header enc (Suc k) buf s = cluster_header enc (Suc (Suc k)) buf1 w"
    using i h(2,3) u(1,2) by (subst cluster_header.simps) (auto simp: seek Let_def)
  have sw: "streamed hdr cs bss qs s1 m w"
    using streamed_more [OF u(3), of w] e(1,3) u(6,7) by (simp add: w_def same_node_def before_seq_def)
  then have v2: "serves hdr cs bss (moved bss qs m) w" "slots_ok w" by (simp_all add: streamed_def)
  have ww: "waited s1 w" using waited_trans [OF u(5), of w] by (simp add: w_def waited_def)
  have w1: "waited s s1" by (simp add: s1_def waited_def)
  have p: "\<forall>i < n. not_yet (enc (Suc k + i)) p" "header_at (enc (Suc k + n)) p d"
    using Suc.prems(8,9) by auto
  obtain t' m' where t': "cluster_header enc (Suc (Suc k)) buf1 w = Some (Suc (Suc k + n), cluster_hdr d, t')"
    "streamed hdr cs bss (moved bss qs m) w m' t'" "served_rounds cs bss (moved bss qs m) w n m'" "waited w t'"
    "FILE t' = enc (Suc k + n)" "FP t' = p + 12" "CURRENT_FPOS_R t' = int p"
    using Suc.IH [OF encoderD(4) [OF Suc.prems(1)] v2 _ _ _ _ p, of buf1] h(1) u(6) by (auto simp: w_def buf1_def)
  have "streamed hdr cs bss qs s (\<lambda>i. m i + m' i) t'"
    using streamed_trans [OF st1, of "\<lambda>i. m i + m' i" t'] streamed_trans [OF sw t'(2)] by (simp add: moved_def [abs_def])
  moreover have "served_rounds cs bss qs s1 (1 + n) (\<lambda>i. m i + m' i)"
    using served_rounds_add [OF u(4) t'(3)] waited_sel(3,4) [OF ww] by simp
  then have "served_rounds cs bss qs s (Suc n) (\<lambda>i. m i + m' i)" by (simp add: served_rounds_def s1_def)
  ultimately show ?case
    using t'(1,5-7) waited_trans [OF w1 waited_trans [OF ww t'(4)]] unfolding step by auto
qed


section \<open>Waiting for the body\<close>

lemma short_of:
  assumes "x \<le> length f" "length f < 2 ^ 62"
  shows "(of_int (int (length f) - int x) :: u64) < need \<longleftrightarrow> length f < x + unat need"
proof -
  have "(of_int (int (length f) - int x) :: u64) = of_nat (length f - x)" using assms(1) by (simp add: of_nat_diff)
  moreover have "unat (of_nat (length f - x) :: u64) = length f - x" using assms(2) by (simp add: unat_of_nat)
  ultimately show ?thesis using assms(1) by (simp add: word_less_nat_alt less_diff_conv2 add.commute)
qed

text \<open>
  \<open>x\<close> is where the position variable stands: at the header when the loop begins, 12 bytes further after
  the first round, so that from then on 12 bytes more are asked for than the cluster has.
\<close>

lemma cluster_body_waits:
  assumes "encoder enc k hdr cs bss" "serves hdr cs bss qs s" "slots_ok s"
    and "FILE s = enc k" "FP s = p + 12" "CURRENT_FPOS_R s = int x" "x \<le> p + 12" "p + 12 \<le> length (enc k)"
    and "\<forall>i < n. length (enc (k + i)) < (if i = 0 then x else p + 12) + unat need"
    and "(if n = 0 then x else p + 12) + unat need \<le> length (enc (k + n))"
  shows "\<exists>t m. cluster_body enc (Suc k) CLUSTER_ID need s = Some (Ret (1, Suc (k + n), t)) \<and>
    streamed hdr cs bss qs s m t \<and> served_rounds cs bss qs s n m \<and> waited s t \<and>
    FILE t = enc (k + n) \<and> FP t = p + 12 \<and> 0 \<le> CURRENT_FPOS_R t \<and> CURRENT_FPOS_R t \<le> int (p + 12)"
  using assms
proof (induction n arbitrary: k s qs x)
  case 0
  have T: "TOTAL_FILE_BYTES s = int (length (FILE s))" "length (FILE s) < 2 ^ 62" "x \<le> length (FILE s)"
    using "0.prems"(2,4,7,8) by (auto simp: serves_def holds_def)
  have "cluster_body enc (Suc k) CLUSTER_ID need s = Some (Ret (1, Suc k, s))"
    using short_of [OF T(3,2), of need] "0.prems"(4,6,10) by (subst cluster_body.simps) (simp add: T(1))
  then show ?case using "0.prems"(4-7) streamed_refl [OF "0.prems"(2,3)] served_rounds_0 waited_refl by auto
next
  case (Suc n)
  have T: "TOTAL_FILE_BYTES s = int (length (FILE s))" "length (FILE s) < 2 ^ 62" "x \<le> length (FILE s)"
    using Suc.prems(2,4,7,8) by (auto simp: serves_def holds_def)
  have "length (enc k) < x + unat need" using Suc.prems(9) [rule_format, of 0] by simp
  then have short: "(of_int (TOTAL_FILE_BYTES s - CURRENT_FPOS_R s) :: u64) < need"
    using short_of [OF T(3,2), of need] Suc.prems(4,6) by (simp add: T(1))
  have e: "has_stream hdr cs bss (enc (Suc k))" "length (FILE s) \<le> length (enc (Suc k))" "length (enc (Suc k)) < 2 ^ 62"
    using encoderD [OF Suc.prems(1), of "Suc k"] encoderD(3) [OF Suc.prems(1) order.refl] Suc.prems(4) by simp_all
  obtain r t g u m where u: "SendMulStream s = Some (r, t)" "look enc (Suc k) t = (g, u)" "streamed hdr cs bss qs s m u"
    "served_rounds cs bss qs s 1 m" "waited s u" "FILE u = enc (Suc k)" "TOTAL_FILE_BYTES u = int (length (enc (Suc k)))"
    "FP u = FP s" "CURRENT_FPOS_R u = int (FP s)"
    by (rule stream_and_look [where enc = enc and k = "Suc k", OF Suc.prems(2,3) e])
  have step: "cluster_body enc (Suc k) CLUSTER_ID need s = cluster_body enc (Suc (Suc k)) CLUSTER_ID need u"
    using short u(1,2) by (subst cluster_body.simps) simp
  have v2: "serves hdr cs bss (moved bss qs m) u" "slots_ok u" using u(3) by (simp_all add: streamed_def)
  have p: "\<forall>i < n. length (enc (Suc k + i)) < (if i = 0 then p + 12 else p + 12) + unat need"
    "(if n = 0 then p + 12 else p + 12) + unat need \<le> length (enc (Suc k + n))" "p + 12 \<le> length (enc (Suc k))"
    using Suc.prems(8-10) e(2) Suc.prems(4) by auto
  obtain t' m' where t': "cluster_body enc (Suc (Suc k)) CLUSTER_ID need u = Some (Ret (1, Suc (Suc k + n), t'))"
    "streamed hdr cs bss (moved bss qs m) u m' t'" "served_rounds cs bss (moved bss qs m) u n m'" "waited u t'"
    "FILE t' = enc (Suc k + n)" "FP t' = p + 12" "0 \<le> CURRENT_FPOS_R t'" "CURRENT_FPOS_R t' \<le> int (p + 12)"
    using Suc.IH [OF encoderD(4) [OF Suc.prems(1)] v2 u(6) _ _ order.refl p(3,1,2)] u(8,9) Suc.prems(5) by auto
  have "streamed hdr cs bss qs s (\<lambda>i. m i + m' i) t'" by (rule streamed_trans [OF u(3) t'(2)])
  moreover have "served_rounds cs bss qs s (Suc n) (\<lambda>i. m i + m' i)"
    using served_rounds_add [OF u(4) t'(3)] waited_sel(3,4) [OF u(5)] by simp
  ultimately show ?case
    using t'(1,5-8) waited_trans [OF u(5) t'(4)] unfolding step by auto
qed

text \<open>Without those 12 bytes the wait has no end.\<close>

lemma cluster_body_hangs:
  assumes "encoder enc k hdr cs bss" "serves hdr cs bss qs s" "slots_ok s"
    and "FILE s = enc k" "FP s = p + 12" "CURRENT_FPOS_R s = int x" "x \<le> p + 12" "p + 12 \<le> length (enc k)"
    and "length (enc k) < x + unat need" "\<forall>j > k. length (enc j) < p + 12 + unat need"
  shows "cluster_body enc (Suc k) CLUSTER_ID need s = None"
proof -
  define stuck where "stuck i need s \<longleftrightarrow> (\<exists>j qs x. i = Suc j \<and> encoder enc j hdr cs bss \<and> serves hdr cs bss qs s \<and> slots_ok s \<and>
    FILE s = enc j \<and> FP s = p + 12 \<and> CURRENT_FPOS_R s = int x \<and> x \<le> p + 12 \<and> p + 12 \<le> length (enc j) \<and>
    length (enc j) < x + unat need \<and> (\<forall>l > j. length (enc l) < p + 12 + unat need))" for i and need :: u64 and s
  have "\<not> (e = enc \<and> id = CLUSTER_ID \<and> stuck i n s)" if "cluster_body e i id n s = Some r" for e i id n s r
  proof (rule cluster_body.raw_induct [where P = "\<lambda>e i id n s r. \<not> (e = enc \<and> id = CLUSTER_ID \<and> stuck i n s)", OF _ that],
      goal_cases)
    case (1 loop e i id n s r)
    show ?case
    proof
      assume a: "e = enc \<and> id = CLUSTER_ID \<and> stuck i n s"
      then obtain j qs x where j: "i = Suc j" "encoder enc j hdr cs bss" "serves hdr cs bss qs s" "slots_ok s"
        "FILE s = enc j" "FP s = p + 12" "CURRENT_FPOS_R s = int x" "x \<le> p + 12" "p + 12 \<le> length (enc j)"
        "length (enc j) < x + unat n" "\<forall>l > j. length (enc l) < p + 12 + unat n"
        by (auto simp: stuck_def)
      have T: "TOTAL_FILE_BYTES s = int (length (FILE s))" "length (FILE s) < 2 ^ 62" "x \<le> length (FILE s)"
        using j by (auto simp: serves_def holds_def)
      have short: "(of_int (TOTAL_FILE_BYTES s - CURRENT_FPOS_R s) :: u64) < n"
        using short_of [OF T(3,2), of n] j(5,7,10) by (simp add: T(1))
      have e: "has_stream hdr cs bss (enc (Suc j))" "length (FILE s) \<le> length (enc (Suc j))" "length (enc (Suc j)) < 2 ^ 62"
        using encoderD [OF j(2), of "Suc j"] encoderD(3) [OF j(2) order.refl] j(5) by simp_all
      obtain r' t g u m where u: "SendMulStream s = Some (r', t)" "look enc (Suc j) t = (g, u)" "streamed hdr cs bss qs s m u"
        "served_rounds cs bss qs s 1 m" "waited s u" "FILE u = enc (Suc j)" "TOTAL_FILE_BYTES u = int (length (enc (Suc j)))"
        "FP u = FP s" "CURRENT_FPOS_R u = int (FP s)"
        by (rule stream_and_look [where enc = enc and k = "Suc j", OF j(3,4) e])
      have "stuck (Suc i) n u"
        unfolding stuck_def
      proof (rule exI [of _ i], rule exI [of _ "moved bss qs m"], rule exI [of _ "p + 12"], intro conjI)
        show "serves hdr cs bss (moved bss qs m) u" "slots_ok u" using u(3) by (simp_all add: streamed_def)
        show "encoder enc i hdr cs bss" using encoderD(4) [OF j(2), of "Suc j"] j(1) by simp
        show "length (enc i) < p + 12 + unat n" "\<forall>l > i. length (enc l) < p + 12 + unat n" using j(1,11) by auto
        show "p + 12 \<le> length (enc i)" using e(2) j(1,5,9) by simp
      qed (use u(6,8,9) j(1,6) in auto)
      moreover have "loop enc (Suc i) CLUSTER_ID n u = Some r"
        using 1(2) a short u(1,2) j(1) by (simp add: Let_def)
      ultimately show False using 1(1) a by blast
    qed
  qed
  moreover have "stuck (Suc k) need s" using assms unfolding stuck_def by blast
  ultimately show ?thesis by (cases "cluster_body enc (Suc k) CLUSTER_ID need s") blast+
qed


section \<open>The next cluster\<close>

lemma next_cluster:
  assumes "encoder enc k hdr cs bss" "serves hdr cs bss qs s" "slots_ok s" "length (FILE s) \<le> length (enc k)"
    and "FP s = p" "CURRENT_FPOS_R s = int p" "length buf = 12"
    and h: "\<forall>i < n. not_yet (enc (k + i)) p" "header_at (enc (k + n)) p d"
    and b: "\<forall>i < b. length (enc (k + n + i)) < (if i = 0 then p else p + 12) + (12 + d)"
      "(if b = 0 then p else p + 12) + (12 + d) \<le> length (enc (k + n + b))"
    and c: "CURRENT_CLUSTER s = Some c" "cl_option (cl_prev c) \<noteq> 0xffffffff"
  shows "\<exists>t m. UpdateClusterFromWebM enc buf k s = Some (Ret (1, Suc (k + n + b), t)) \<and>
    streamed hdr cs bss qs s m t \<and> served_rounds cs bss qs s (n + b) m \<and>
    FILE t = enc (k + n + b) \<and> FP t = p + 12 \<and> 0 \<le> CURRENT_FPOS_R t \<and> CURRENT_FPOS_R t \<le> int (p + 12) \<and>
    CURRENT_BLOCK t = CURRENT_BLOCK s \<and> LATEST_BLOCK_SEQ t = LATEST_BLOCK_SEQ s \<and>
    CURRENT_CLUSTER t = Some (c\<lparr>cl := \<lparr>cl_info = cluster_chank d, cl_pos = int p, cl_seq = cl_seq (cl_prev c) + 1,
      cl_option = 0\<rparr>\<rparr>)"
proof -
  have T: "TOTAL_FILE_BYTES s = int (length (FILE s))" using assms(2) by (auto simp: serves_def holds_def)
  note ek = encoderD [OF assms(1) order.refl]
  define s0 where "s0 = s\<lparr>FILE := enc k, TOTAL_FILE_BYTES := int (length (enc k))\<rparr>"
  have l: "look enc k s = (if length (FILE s) < length (enc k) then 1 else 0, s0)"
    using look_grown [where enc = enc and k = k, OF T assms(4)] by (simp add: s0_def)
  have st0: "streamed hdr cs bss qs s (\<lambda>_. 0) s0"
    using streamed_more [OF streamed_refl [OF assms(2,3)], of s0] ek(1,2) by (simp add: s0_def same_node_def before_seq_def)
  then have v0: "serves hdr cs bss qs s0" "slots_ok s0" by (simp_all add: streamed_def moved_def [abs_def])
  have "p + 12 \<le> length (enc k)"
    using h by (cases n) (auto simp: header_at_def not_yet_def dest: spec [of _ 0])
  then have room: "\<not> int CLUSTER_HEADER_BYTES > TOTAL_FILE_BYTES s0 - CURRENT_FPOS_R s0"
    using assms(6) by (simp add: s0_def CLUSTER_HEADER_BYTES_def)
  obtain t1 m1 where t1: "cluster_header enc (Suc k) buf s0 = Some (Suc (k + n), cluster_hdr d, t1)"
    "streamed hdr cs bss qs s0 m1 t1" "served_rounds cs bss qs s0 n m1" "waited s0 t1"
    "FILE t1 = enc (k + n)" "FP t1 = p + 12" "CURRENT_FPOS_R t1 = int p"
    using cluster_header_waits [OF assms(1) v0 _ _ _ assms(7) h] assms(5,6) by (auto simp: s0_def)
  have d: "d < 2 ^ 56 - 1" "p + 12 \<le> length (enc (k + n))" using h(2) by (simp_all add: header_at_def)
  define c' where "c' = c\<lparr>cl := \<lparr>cl_info = cluster_chank d, cl_pos = int p, cl_seq = cl_seq (cl_prev c) + 1, cl_option = 0\<rparr>\<rparr>"
  define t2 where "t2 = t1\<lparr>CURRENT_CLUSTER := Some c'\<rparr>"
  have c1: "CURRENT_CLUSTER t1 = Some c" using waited_sel(1) [OF t1(4)] c(1) by (simp add: s0_def)
  have r: "RenewClusterForRead (cluster_hdr d) t1 = Some t2"
    using c1 c(2) t1(7) by (simp add: RenewClusterForRead_def GetChank_cluster_hdr [OF d(1)] t2_def c'_def)
  note en = encoderD [OF assms(1), of "k + n", OF le_add1]
  have "TOTAL_FILE_BYTES t1 = int (length (FILE t1))" using t1(2) by (auto simp: streamed_def serves_def holds_def)
  then have st2: "streamed hdr cs bss qs s0 m1 t2"
    using streamed_more [OF t1(2), of t2] en(1,2) t1(5) c1 by (simp add: t2_def same_node_def before_seq_def c'_def)
  then have v2: "serves hdr cs bss (moved bss qs m1) t2" "slots_ok t2" by (simp_all add: streamed_def)
  have need: "unat (of_nat (12 + d) :: u64) = 12 + d" using d(1) by (simp add: unat_of_nat del: of_nat_add)
  obtain t m where t: "cluster_body enc (Suc (k + n)) CLUSTER_ID (of_nat (12 + d)) t2 = Some (Ret (1, Suc (k + n + b), t))"
    "streamed hdr cs bss (moved bss qs m1) t2 m t" "served_rounds cs bss (moved bss qs m1) t2 b m" "waited t2 t"
    "FILE t = enc (k + n + b)" "FP t = p + 12" "0 \<le> CURRENT_FPOS_R t" "CURRENT_FPOS_R t \<le> int (p + 12)"
    using cluster_body_waits [OF en(4) v2, of p p b "of_nat (12 + d)"] b d(2) t1(5-7) unfolding need
    by (auto simp: t2_def)
  have "UpdateClusterFromWebM enc buf k s = Some (Ret (1, Suc (k + n + b), t))"
    using l room t1(1) r t(1) by (simp add: UpdateClusterFromWebM_def t2_def c'_def cluster_chank_def)
  moreover have "streamed hdr cs bss qs s (\<lambda>i. m1 i + m i) t"
    using streamed_trans [OF st0, of "\<lambda>i. m1 i + m i" t] streamed_trans [OF st2 t(2)] by (simp add: moved_def [abs_def])
  moreover have "served_rounds cs bss qs s0 (n + b) (\<lambda>i. m1 i + m i)"
    using served_rounds_add [OF t1(3) t(3)] waited_sel(3,4) [OF t1(4)] by (simp add: t2_def)
  then have "served_rounds cs bss qs s (n + b) (\<lambda>i. m1 i + m i)" by (simp add: served_rounds_def s0_def)
  ultimately show ?thesis
    using t(5-8) waited_sel(1-3) [OF t(4)] waited_sel(2,3) [OF t1(4)] unfolding c'_def [symmetric]
    by (intro exI [of _ t] exI [of _ "\<lambda>i. m1 i + m i"]) (simp add: t2_def s0_def)
qed

section \<open>Sending a cluster\<close>

lemma seek_next_block:
  assumes "CURRENT_READ_BYTES s = of_nat n" "n \<le> 1000" "n \<le> FP s" "unat (bytes (info b)) = l"
  shows "SeekForNextBlock b s = s\<lparr>FP := FP s - n + l, CURRENT_FPOS_R := int (FP s - n + l)\<rparr>"
proof -
  have "l < 2 ^ 16" using assms(4) unat_u16_lt [of "bytes (info b)"] by simp
  moreover have "(ucast (bytes (info b)) :: u64) = of_nat l"
    by (simp add: word_unat_eq_iff ucast_16_64 unat_of_nat assms(4) flip: assms(4))
  ultimately have "off64 (ucast (bytes (info b)) - CURRENT_READ_BYTES s) = int l - int n"
    using off64_diff [of l n] assms(1,2) by simp
  then show ?thesis using assms(3) by (simp add: SeekForNextBlock_def file_defs Let_def)
qed

lemma read_block:
  assumes "0 \<le> CURRENT_FPOS_R s" "CURRENT_FPOS_R s \<le> int (FP s)" "FP s \<le> length (FILE s)"
    and "TOTAL_FILE_BYTES s = int (length (FILE s))" "length (FILE s) < 2 ^ 62"
    and g: "GetNextBlockByBytes b (of_nat MAX_BLOCK_BYTES) (take MAX_BLOCK_BYTES (drop (FP s) (FILE s))) = Some (b', st)"
    and n: "n = min MAX_BLOCK_BYTES (length (FILE s) - FP s)"
  shows "ReadBlock b s = Some (st, b', s\<lparr>FP := FP s + n, CURRENT_READ_BYTES := of_nat n, TOTAL_BLOCK_NUM := TOTAL_BLOCK_NUM s + 1\<rparr>)"
proof -
  define xs where "xs = take MAX_BLOCK_BYTES (drop (FP s) (FILE s))"
  have n': "length xs = n" "n \<le> 1000" by (simp_all add: xs_def n MAX_BLOCK_BYTES_def min_def)
  have "ImportWebM (replicate MAX_DATA_BYTES 0) MAX_BLOCK_BYTES s =
      Some (xs @ drop (length xs) (replicate MAX_DATA_BYTES 0), s\<lparr>FP := FP s + length xs, CURRENT_READ_BYTES := of_nat (length xs)\<rparr>)"
    by (rule ImportWebM_read [OF assms(1-5) _ xs_def]) (use n' in \<open>simp_all add: MAX_BLOCK_BYTES_def MAX_DATA_BYTES_def\<close>)
  then show ?thesis using g n' by (simp add: ReadBlock_def xs_def [symmetric] unat_of_nat)
qed

lemma send_cluster_streams:
  assumes "serves hdr cs bss qs s" "slots_ok s"
    and f: "FILE s = pre @ c @ rest" and cut: "cut_into n c rest is" and m: "m < length is"
    and b: "CURRENT_BLOCK s = Some (block_at n is m)"
    and p: "FP s = length pre + 12 + block_bytes (take m is)" "0 \<le> CURRENT_FPOS_R s" "CURRENT_FPOS_R s \<le> int (FP s)"
    and c: "CURRENT_CLUSTER s = Some k"
  shows "\<exists>t ms. send_cluster s = Some (t\<lparr>CURRENT_CLUSTER := Some (ShiftToPreCluster k)\<rparr>) \<and>
    streamed hdr cs bss qs s ms t \<and> FILE t = FILE s \<and> FP t = length (pre @ c) \<and>
    CURRENT_FPOS_R t = int (length (pre @ c)) \<and> CURRENT_BLOCK t = Some (start_block (n + 1)) \<and>
    LATEST_BLOCK_SEQ t = of_nat (length is) \<and> CURRENT_CLUSTER t = Some k"
  using assms(1,2,3) m b p c
proof (induction "length is - m" arbitrary: s m qs)
  case 0
  then show ?case by simp
next
  case (Suc x)
  have T: "TOTAL_FILE_BYTES s = int (length (FILE s))" "length (FILE s) < 2 ^ 62" "has_stream hdr cs bss (FILE s)"
    using Suc.prems(1) by (auto simp: serves_def holds_stream)
  obtain b' st where g: "GetNextBlockByBytes (block_at n is m) (of_nat MAX_BLOCK_BYTES)
      (take MAX_BLOCK_BYTES (drop (FP s) (FILE s))) = Some (b', st)" "info b' = is ! m" "st = CLUSTER_END \<longleftrightarrow> Suc m = length is"
    "ShiftToPreBlock b' = block_at n is (Suc m)" "RenewBlock b' = start_block (n + 1)"
    "unat (bytes (is ! m)) \<le> 1000" "FP s + unat (bytes (is ! m)) = length pre + 12 + block_bytes (take (Suc m) is)"
    "FP s + unat (bytes (is ! m)) \<le> length (pre @ c)"
    using block_at_next [OF cut Suc.prems(4,3,6)] by metis
  define l where "l = unat (bytes (is ! m))"
  define r where "r = min MAX_BLOCK_BYTES (length (FILE s) - FP s)"
  have le: "FP s \<le> length (FILE s)" "r \<le> 1000" using g(8) Suc.prems(3) by (simp_all add: r_def MAX_BLOCK_BYTES_def)
  define s1 where "s1 = s\<lparr>FP := FP s + r, CURRENT_READ_BYTES := of_nat r, TOTAL_BLOCK_NUM := TOTAL_BLOCK_NUM s + 1\<rparr>"
  have rb: "ReadBlock (block_at n is m) s = Some (st, b', s1)"
    using read_block [OF Suc.prems(7,8) le(1) T(1,2) g(1) r_def] by (simp add: s1_def)
  have num: "seq (is ! m) = of_nat (Suc m)" using cut_cluster_numbers(1) [of _ n _ _ "is" m] cut Suc.prems(4) by (auto simp: cut_into_def)
  define s2 where "s2 = s1\<lparr>CURRENT_BLOCK := Some b', LATEST_BLOCK_SEQ := of_nat (Suc m)\<rparr>"
  have st2: "streamed hdr cs bss qs s (\<lambda>_. 0) s2"
    using streamed_more [OF streamed_refl [OF Suc.prems(1,2)], of s2] T by (simp add: s2_def s1_def same_node_def before_seq_def)
  then have v2: "serves hdr cs bss qs s2" "slots_ok s2" by (simp_all add: streamed_def moved_def [abs_def])
  have seek: "SeekForNextBlock b' t = t\<lparr>FP := FP s + l, CURRENT_FPOS_R := int (FP s + l)\<rparr>"
    if "CURRENT_READ_BYTES t = of_nat r" "FP t = FP s + r" for t :: node
    using seek_next_block [OF that(1) le(2) _ refl, of b'] that(2) by (simp add: g(2) l_def)
  show ?case
  proof (cases "Suc m = length is")
    case True
    define t where "t = s2\<lparr>FP := FP s + l, CURRENT_FPOS_R := int (FP s + l), CURRENT_BLOCK := Some (start_block (n + 1))\<rparr>"
    have "FP s + l = length (pre @ c)" using g(7) True cut by (simp add: l_def cut_into_def)
    moreover have "send_cluster s = Some (t\<lparr>CURRENT_CLUSTER := Some (ShiftToPreCluster k)\<rparr>)"
      using Suc.prems(5,9) rb True g(2,3,5) seek [of s2] num
      by (subst send_cluster.simps) (simp add: s2_def s1_def t_def)
    moreover have "streamed hdr cs bss qs s (\<lambda>_. 0) t"
      using streamed_more [OF st2, of t] T by (simp add: t_def s2_def s1_def same_node_def before_seq_def)
    ultimately show ?thesis
      using True Suc.prems(9) by (intro exI [of _ t] exI [of _ "\<lambda>_. 0"]) (simp add: t_def s2_def s1_def)
  next
    case False
    obtain r' t m' where t: "SendMulStream s2 = Some (r', t)" "streamed hdr cs bss qs s2 m' t"
      "sent_more s2 (drop (length (WIRE s2)) (WIRE t)) t" "FP t = FP s2" "CURRENT_FPOS_R t = int (FP s2)"
      by (rule SendMulStream_streamed [OF v2])
    define u where "u = t\<lparr>FP := FP s + l, CURRENT_FPOS_R := int (FP s + l), CURRENT_BLOCK := Some (block_at n is (Suc m))\<rparr>"
    have ft: "FILE t = FILE s" "CURRENT_READ_BYTES t = of_nat r" "CURRENT_CLUSTER t = Some k"
      "TOTAL_FILE_BYTES t = TOTAL_FILE_BYTES s"
      using sent_more_sel(5,7,8,9) [OF t(3)] Suc.prems(9) by (simp_all add: s2_def s1_def)
    have step: "send_cluster s = send_cluster u"
      using Suc.prems(5) rb False g(2-4) seek [of t] num t(1,4) ft(2)
      by (subst send_cluster.simps) (simp add: u_def s2_def s1_def)
    have su: "streamed hdr cs bss qs s2 m' u"
      using streamed_more [OF t(2), of u] T ft(1,4) by (simp add: u_def same_node_def before_seq_def)
    then have vu: "serves hdr cs bss (moved bss qs m') u" "slots_ok u" by (simp_all add: streamed_def)
    have "x = length is - Suc m" "Suc m < length is" using Suc.hyps(2) Suc.prems(4) False by auto
    from Suc.hyps(1) [OF this(1) vu _ this(2)] obtain v ms where
      v: "send_cluster u = Some (v\<lparr>CURRENT_CLUSTER := Some (ShiftToPreCluster k)\<rparr>)" "streamed hdr cs bss (moved bss qs m') u ms v"
      "FILE v = FILE u" "FP v = length (pre @ c)" "CURRENT_FPOS_R v = int (length (pre @ c))"
      "CURRENT_BLOCK v = Some (start_block (n + 1))" "LATEST_BLOCK_SEQ v = of_nat (length is)" "CURRENT_CLUSTER v = Some k"
      using g(7) Suc.prems(3) ft(1,3) by (auto simp: u_def l_def)
    have "streamed hdr cs bss qs s (\<lambda>i. m' i + ms i) v"
      using streamed_trans [OF st2, of "\<lambda>i. m' i + ms i" v] streamed_trans [OF su v(2)] by (simp add: moved_def [abs_def])
    then show ?thesis using v(1,3-8) ft(1) unfolding step by (auto simp: u_def)
  qed
qed


section \<open>A turn of the loop\<close>

text \<open>The origin between two clusters: those before are complete and served, the next one is at its position.\<close>

definition origin_at :: "bytes \<Rightarrow> bytes list \<Rightarrow> block_info list list \<Rightarrow> (nat \<Rightarrow> place) \<Rightarrow> node \<Rightarrow> bool" where
  "origin_at hdr cs bss qs s \<longleftrightarrow> serves hdr cs bss qs s \<and> slots_ok s \<and> FP s = length (hdr @ concat cs) \<and>
     CURRENT_FPOS_R s = int (FP s) \<and> CURRENT_BLOCK s = Some (start_block (of_nat (length cs))) \<and>
     LATEST_BLOCK_SEQ s = of_nat (length (last bss)) \<and>
     (\<exists>c. CURRENT_CLUSTER s = Some c \<and> cl_option (cl_prev c) \<noteq> 0xffffffff)"

text \<open>
  The encoder writes the header of cluster \<open>d\<close> at \<open>p\<close> after \<open>n\<close> looks, and its body after \<open>b\<close> more: if the
  origin sees the header without the whole body, 12 bytes behind the body are needed, too.
\<close>

definition arrives :: "(nat \<Rightarrow> bytes) \<Rightarrow> nat \<Rightarrow> nat \<Rightarrow> nat \<Rightarrow> nat \<Rightarrow> nat \<Rightarrow> bool" where
  "arrives enc k p d n b \<longleftrightarrow> (\<forall>i < n. not_yet (enc (k + i)) p) \<and> header_at (enc (k + n)) p d \<and>
     (\<forall>i < b. length (enc (k + n + i)) < (if i = 0 then p else p + 12) + (12 + d)) \<and>
     (if b = 0 then p else p + 12) + (12 + d) \<le> length (enc (k + n + b))"

lemma has_stream_snoc:
  assumes "has_stream hdr cs bss f" "f = hdr @ concat cs @ c @ rest" "length bss = length cs"
    and "cut_into (of_nat (length cs)) c rest is"
  shows "has_stream hdr (cs @ [c]) (bss @ [is]) f"
proof -
  from assms(1,2) have a: "\<forall>j < length cs. cut_into (of_nat j) (cs ! j) (concat (drop (Suc j) cs) @ c @ rest) (bss ! j)"
    by (auto simp: has_stream_def)
  have "cut_into (of_nat j) ((cs @ [c]) ! j) (concat (drop (Suc j) (cs @ [c])) @ rest) ((bss @ [is]) ! j)"
    if "j < Suc (length cs)" for j
    using that a assms(3,4) by (cases "j = length cs") (auto simp: nth_append)
  then show ?thesis using assms(2) by (auto simp: has_stream_def)
qed

lemma children_at_snoc:
  assumes "children_at bss qs s" "is \<noteq> []"
  shows "children_at (bss @ [is]) qs s"
proof -
  have "valid (bss @ [is]) q \<and> block_of (bss @ [is]) q = block_of bss q" if "valid bss q" for q
    using that assms(2) by (cases q) (auto simp: valid_def block_of_def nth_append block_at_def)
  then show ?thesis using assms(1) by (simp add: children_at_def)
qed

section \<open>An example\<close>

text \<open>
  A header of one byte, a complete cluster of seven bytes of data, and a second one of six; the child in
  the first slot is at the beginning.
\<close>

definition first_cluster :: bytes where
  "first_cluster = be_bytes 4 0x1f43b675 @ vint 8 7 @ media_stream [Timecode 1 [5], SimpleBlock 1 [1, 2]]"

definition second_data :: bytes where
  "second_data = media_stream [Timecode 1 [9], SimpleBlock 1 [3]]"

definition first_blocks :: "block_info list" where
  "first_blocks = [block_info0\<lparr>pos := 12, seq := 1, bytes := 7, cluster_seq := 0, status := STATUS_SIMPLEBLOCK\<rparr>]"

definition second_blocks :: "block_info list" where
  "second_blocks = [block_info0\<lparr>pos := 12, seq := 1, bytes := 6, cluster_seq := 1, status := STATUS_SIMPLEBLOCK\<rparr>]"

definition relaying_parent :: node where
  "relaying_parent = parent1\<lparr>FILE := [9] @ first_cluster @ FOOTER, TOTAL_FILE_BYTES := 32,
     WEBM_HEADER_total_bytes := 1, FIRST_CLUSTER_SEQ := 0, CONNECTED_NODES := 1, CURRENT_CHILD_NUM := 1,
     LATEST_BLOCK_SEQ := 1, CURRENT_CHILD_BLOCK := [Some (start_block 0), None],
     FP := 20, CURRENT_FPOS_R := 20, CURRENT_BLOCK := Some (start_block 1)\<rparr>"

text \<open>The second cluster arrives with the second look.\<close>

definition slow_encoder :: "nat \<Rightarrow> bytes" where
  "slow_encoder j = [9] @ first_cluster @ (if j = 0 then FOOTER else cluster_enc second_data @ FOOTER)"

lemma first_cluster_bytes:
  "media_stream [Timecode 1 [5], SimpleBlock 1 [1, 2]] = [0xe7, 0x81, 5, 0xa3, 0x82, 1, 2]"
  "drop 12 first_cluster = [0xe7, 0x81, 5, 0xa3, 0x82, 1, 2]" "drop 15 first_cluster = [0xa3, 0x82, 1, 2]" "length first_cluster = 19"
  "timecode_element 1 [5] = [0xe7, 0x81, 5]" "timecode_element (Suc 0) [x] = [0xe7, 0x81, x]"
  "second_data = [0xe7, 0x81, 9, 0xa3, 0x81, 3]" "length second_data = 6"
proof -
  show b: "media_stream [Timecode 1 [5], SimpleBlock 1 [1, 2]] = [0xe7, 0x81, 5, 0xa3, 0x82, 1, 2]"
    by (simp add: media_stream_def vint_def be_bytes_Suc be_bytes_0)
  show "drop 12 first_cluster = [0xe7, 0x81, 5, 0xa3, 0x82, 1, 2]" "drop 15 first_cluster = [0xa3, 0x82, 1, 2]" "length first_cluster = 19"
    unfolding first_cluster_def b by simp_all
  show "timecode_element 1 [5] = [0xe7, 0x81, 5]" "timecode_element (Suc 0) [x] = [0xe7, 0x81, x]"
    by (simp_all add: timecode_element_def vint_def be_bytes_Suc be_bytes_0)
  show "second_data = [0xe7, 0x81, 9, 0xa3, 0x81, 3]" "length second_data = 6"
    by (simp_all add: second_data_def media_stream_def vint_def be_bytes_Suc be_bytes_0)
qed

lemma GetChank_hdr_front:
  assumes "n < 2 ^ 56"
  obtains h where "GetChank (cluster_hdr n @ x) = Some h" "chank_id h = CLUSTER_ID"
proof -
  have v: "vint_ok 8 n" "id_ok 4 0x1f43b675" using assms by (simp_all add: vint_ok_def id_ok_def)
  show thesis using GetChank_enc [OF v(2,1), of x] that by (simp add: cluster_hdr_vint [OF assms] Let_def CLUSTER_ID_def)
qed

lemma first_cluster_cut:
  assumes "n < 2 ^ 56"
  shows "cut_into 0 first_cluster (cluster_hdr n @ x) first_blocks"
    and "cut_into 1 (cluster_enc second_data) (cluster_hdr n @ x) second_blocks"
proof -
  have ms: "list_all media_ok [Timecode 1 [5], SimpleBlock 1 [1, 2]]" "list_all media_ok [Timecode 1 [9], SimpleBlock 1 [3]]"
    by (simp_all add: vint_ok_def)
  obtain h where h: "GetChank (cluster_hdr n @ take 981 x) = Some h" "chank_id h = CLUSTER_ID"
    by (rule GetChank_hdr_front [OF assms])
  obtain h' where h': "GetChank (cluster_hdr n @ take 982 x) = Some h'" "chank_id h' = CLUSTER_ID"
    by (rule GetChank_hdr_front [OF assms])
  have "GetChank (take (1000 - 7) (cluster_hdr n @ x)) = Some h" "GetChank (take (1000 - 6) (cluster_hdr n @ x)) = Some h'"
    using h(1) h'(1) by simp_all
  note g = cut_into_small [OF ms(1) _ _ this(1), of 0] cut_into_small [OF ms(2) _ _ this(2), of 1]
  show "cut_into 0 first_cluster (cluster_hdr n @ x) first_blocks"
    using g(1) h(2) by (simp add: first_cluster_bytes(1) [simplified] first_cluster_def first_blocks_def)
  have c: "cluster_enc second_data = be_bytes 4 0x1f43b675 @ vint 8 6 @ second_data"
    using cluster_hdr_vint [of 6] by (simp add: cluster_enc_def first_cluster_bytes(8))
  show "cut_into 1 (cluster_enc second_data) (cluster_hdr n @ x) second_blocks"
    using g(2) h'(2) first_cluster_bytes(8) unfolding c unfolding second_data_def second_blocks_def by simp
qed

lemma example_stream:
  assumes "n < 2 ^ 56"
  shows "has_stream [9] [first_cluster] [first_blocks] ([9] @ first_cluster @ cluster_hdr n @ x)"
  using first_cluster_cut(1) [OF assms, of x] by (auto simp: has_stream_def)

lemma FOOTER_front: "[9] @ first_cluster @ FOOTER @ x = [9] @ first_cluster @ cluster_hdr (2 ^ 56 - 1) @ x"
  by (simp add: FOOTER_hdr)

lemma relaying_parent_at: "origin_at [9] [first_cluster] [first_blocks] (\<lambda>i. (0, 0)) relaying_parent"
proof -
  have w: "node_wf relaying_parent" using parent1_ok(1) by (simp add: relaying_parent_def node_wf_def)
  have "has_stream [9] [first_cluster] [first_blocks] ([9] @ first_cluster @ FOOTER)"
    using example_stream [of "2 ^ 56 - 1" "[]"] by (simp add: FOOTER_hdr)
  then have h: "holds [9] [first_cluster] [first_blocks] relaying_parent"
    using first_cluster_bytes(4) by (simp add: holds_stream relaying_parent_def FOOTER_hdr)
  have c: "connected (CONNECTED_NODES relaying_parent) i \<longleftrightarrow> i = 0" if "i < 2" for i
    using that by (auto simp: relaying_parent_def connected_bit less_2_cases_iff)
  have "children_at [first_blocks] (\<lambda>i. (0, 0)) relaying_parent"
    using c by (simp add: children_at_def valid_def block_of_def block_at_def first_blocks_def)
      (simp add: relaying_parent_def)
  moreover have k: "CURRENT_CLUSTER relaying_parent = CURRENT_CLUSTER node1"
    by (simp add: relaying_parent_def parent1_def)
  ultimately have "serves [9] [first_cluster] [first_blocks] (\<lambda>i. (0, 0)) relaying_parent"
    using w h by (simp add: serves_def node1_def)
  moreover have "slots_ok relaying_parent"
    using parent1_ok(2) by (simp add: relaying_parent_def slots_ok_children children_def connected_bit)
  ultimately show ?thesis using k first_cluster_bytes(4)
    by (simp add: origin_at_def node1_def) (simp add: relaying_parent_def first_blocks_def)
qed

lemma slow_encoder_ok:
  "encoder slow_encoder 0 [9] [first_cluster] [first_blocks]" "arrives slow_encoder 0 20 6 1 0"
  "length (FILE relaying_parent) \<le> length (slow_encoder 0)"
proof -
  have l: "length (slow_encoder j) = (if j = 0 then 32 else 50)" for j
    using first_cluster_bytes(4,8) by (simp add: slow_encoder_def FOOTER_hdr cluster_enc_def)
  have "has_stream [9] [first_cluster] [first_blocks] (slow_encoder j)" for j
    using example_stream [of "2 ^ 56 - 1" "[]"] example_stream [of 6 "second_data @ FOOTER"] first_cluster_bytes(8)
    by (simp add: slow_encoder_def FOOTER_hdr cluster_enc_def)
  then show "encoder slow_encoder 0 [9] [first_cluster] [first_blocks]" using l by (auto simp: encoder_def)
  have d: "drop 20 (slow_encoder 0) = FOOTER" "take 12 (drop 20 (slow_encoder 1)) = cluster_hdr 6"
    using first_cluster_bytes(4,8) by (simp_all add: slow_encoder_def cluster_enc_def)
  obtain h where "GetChank (cluster_hdr (2 ^ 56 - 1) @ []) = Some h" using GetChank_hdr_front [of "2 ^ 56 - 1" "[]"] by auto
  then show "arrives slow_encoder 0 20 6 1 0"
    using l d by (simp add: arrives_def not_yet_def header_at_def FOOTER_hdr)
  show "length (FILE relaying_parent) \<le> length (slow_encoder 0)" by (simp add: relaying_parent_def slow_encoder_def)
qed



text \<open>
  C8: The origin can wait for ever for a cluster that is complete: when the header is there and the body
  is not, the position has moved to the body before the next comparison with the size of the whole
  cluster, so 12 bytes more are asked for.  A last cluster is never sent this way.
\<close>

theorem last_cluster_hangs:
  assumes s: "origin_at hdr cs bss qs s" and e: "encoder enc k hdr cs bss" "length (FILE s) \<le> length (enc k)"
    and "length buf = 12" and h: "header_at (enc k) (length (hdr @ concat cs)) d"
    and "length (enc k) < length (hdr @ concat cs) + 12 + d"
    and "\<forall>j > k. length (enc j) < length (hdr @ concat cs) + 24 + d"
  shows "UpdateClusterFromWebM enc buf k s = None"
proof -
  define p where "p = length (hdr @ concat cs)"
  obtain c where s': "serves hdr cs bss qs s" "slots_ok s" "FP s = p" "CURRENT_FPOS_R s = int p"
    "CURRENT_CLUSTER s = Some c" "cl_option (cl_prev c) \<noteq> 0xffffffff"
    using s by (auto simp: origin_at_def p_def)
  have T: "TOTAL_FILE_BYTES s = int (length (FILE s))" using s'(1) by (auto simp: serves_def holds_def)
  note ek = encoderD [OF e(1) order.refl]
  have hd: "p + 12 \<le> length (enc k)" "take 12 (drop p (enc k)) = cluster_hdr d" "d < 2 ^ 56 - 1"
    using h by (simp_all add: header_at_def p_def)
  define c' where "c' = c\<lparr>cl := \<lparr>cl_info = cluster_chank d, cl_pos = int p, cl_seq = cl_seq (cl_prev c) + 1, cl_option = 0\<rparr>\<rparr>"
  define s0 where "s0 = s\<lparr>FILE := enc k, TOTAL_FILE_BYTES := int (length (enc k))\<rparr>"
  define s1 where "s1 = s0\<lparr>FP := p + 12, CURRENT_READ_BYTES := 12\<rparr>"
  define s2 where "s2 = s1\<lparr>CURRENT_CLUSTER := Some c'\<rparr>"
  have l: "look enc k s = (if length (FILE s) < length (enc k) then 1 else 0, s0)"
    using look_grown [where enc = enc and k = k, OF T e(2)] by (simp add: s0_def)
  have "ImportWebM buf CLUSTER_HEADER_BYTES s0 = Some (cluster_hdr d, s1)"
    using read_header [of s0 p buf] s'(3,4) hd(1,2) ek(2) assms(4) by (simp add: s0_def s1_def)
  then have "cluster_header enc (Suc k) buf s0 = Some (Suc k, cluster_hdr d, s1)"
    using GetChank_cluster_hdr [OF hd(3)] by (subst cluster_header.simps) (simp add: cluster_chank_def)
  moreover have "RenewClusterForRead (cluster_hdr d) s1 = Some s2"
    using s'(4-6) by (simp add: RenewClusterForRead_def GetChank_cluster_hdr [OF hd(3)] s2_def c'_def s1_def s0_def)
  moreover have "cluster_body enc (Suc k) CLUSTER_ID (of_nat (12 + d)) s2 = None"
  proof (rule cluster_body_hangs [OF e(1), where x = p])
    have "streamed hdr cs bss qs s (\<lambda>_. 0) s2"
      using streamed_more [OF streamed_refl [OF s'(1,2)], of s2] ek(1,2) s'(5)
      by (simp add: s2_def s1_def s0_def c'_def same_node_def before_seq_def)
    then show "serves hdr cs bss qs s2" "slots_ok s2" by (simp_all add: streamed_def moved_def [abs_def])
    have "unat (of_nat (12 + d) :: u64) = 12 + d" using hd(3) by (simp add: unat_of_nat del: of_nat_add)
    then show "length (enc k) < p + unat (of_nat (12 + d) :: u64)" "\<forall>j > k. length (enc j) < p + 12 + unat (of_nat (12 + d) :: u64)"
      using assms(6,7) by (auto simp: p_def ac_simps)
  qed (use hd(1) s'(4) in \<open>simp_all add: s2_def s1_def s0_def\<close>)
  ultimately show ?thesis
    using l hd(1) s'(4) by (simp add: UpdateClusterFromWebM_def s0_def s2_def c'_def cluster_chank_def CLUSTER_HEADER_BYTES_def)
qed


theorem last_cluster_hangs_witness:
  "UpdateClusterFromWebM (\<lambda>j. [9] @ first_cluster @ cluster_hdr 6 @ (if j = 0 then [] else second_data))
    (replicate 12 0) 0 relaying_parent = None"
proof -
  let ?e = "\<lambda>j :: nat. [9] @ first_cluster @ cluster_hdr 6 @ (if j = 0 then [] else second_data)"
  have l: "length (?e j) = (if j = 0 then 32 else 38)" for j using first_cluster_bytes(4,8) by simp
  have "has_stream [9] [first_cluster] [first_blocks] (?e j)" for j by (rule example_stream) simp
  then have e: "encoder ?e 0 [9] [first_cluster] [first_blocks]"
    using first_cluster_bytes(4,8) by (auto simp: encoder_def)
  have f: "length (FILE relaying_parent) \<le> length (?e 0)"
    using first_cluster_bytes(4) by (simp add: relaying_parent_def FOOTER_hdr)
  have h: "header_at (?e 0) (length ([9] @ concat [first_cluster])) 6"
    using first_cluster_bytes(4) by (simp add: header_at_def)
  show ?thesis
    by (rule last_cluster_hangs [OF relaying_parent_at e f _ h]) (use first_cluster_bytes(4,8) in simp_all)
qed

end
