(* ===== verification/Relay.thy ===== *)
theory Relay
  imports Origin_Run
begin

text \<open>
  The stream from node to node: what a child has in its file when it has received every block its
  parent has sent it.  Clusters begin with their timecode, which the child rewrites; everything else
  arrives as it is.
\<close>

section \<open>The packets of a stream\<close>

text \<open>\<open>tc j\<close>: the width of the size field and the bytes of the timestamp of cluster \<open>j\<close>.\<close>

type_synonym timecodes = "nat \<Rightarrow> nat \<times> bytes"

definition timed :: "timecodes \<Rightarrow> bytes list \<Rightarrow> block_info list list \<Rightarrow> bool" where
  "timed tc cs bss \<longleftrightarrow> (\<forall>j < length cs. case tc j of (k, t) \<Rightarrow> vint_ok k (length t) \<and> length t \<le> 8 \<and>
     (\<exists>r. drop 12 (cs ! j) = timecode_element k t @ r) \<and>
     length (timecode_element k t) \<le> unat (bytes (hd (bss ! j))))"

definition payload_at :: "timecodes \<Rightarrow> bytes list \<Rightarrow> block_info list list \<Rightarrow> place \<Rightarrow> payload" where
  "payload_at tc cs bss q = (case q of (j, m) \<Rightarrow>
     if m = 0 then (case tc j of (k, t) \<Rightarrow> Timed k t (drop (length (timecode_element k t)) (data_at cs bss q)))
     else Plain (data_at cs bss q))"

definition packet_of :: "timecodes \<Rightarrow> bytes list \<Rightarrow> block_info list list \<Rightarrow> bytes \<Rightarrow> place \<Rightarrow> packet" where
  "packet_of tc cs bss stale q = (info_at bss q, payload_at tc cs bss q, stale)"

lemma length_data_at:
  assumes "holds hdr cs bss w" and "j < length cs" "m < length (bss ! j)"
  shows "length (data_at cs bss (j, m)) = unat (bytes (bss ! j ! m))" "unat (bytes (bss ! j ! m)) \<le> 1000"
proof -
  obtain rest where c: "cut_into (of_nat j) (cs ! j) rest (bss ! j)" using holds_cut [OF assms(1,2)] by metis
  have "block_bytes (take (Suc m) (bss ! j)) \<le> block_bytes (bss ! j)"
    using block_bytes_take [of "Suc m" "bss ! j"] by simp
  then show "length (data_at cs bss (j, m)) = unat (bytes (bss ! j ! m))" "unat (bytes (bss ! j ! m)) \<le> 1000"
    using c assms(3) by (auto simp: data_at_def cut_into_def take_Suc_conv_app_nth min_def)
qed

lemma payload_at_enc:
  assumes h: "holds hdr cs bss w" and t: "timed tc cs bss" and j: "j < length cs" "m < length (bss ! j)"
  shows "payload_enc (payload_at tc cs bss (j, m)) = data_at cs bss (j, m)" "payload_ok (payload_at tc cs bss (j, m))"
proof -
  obtain k ts where k: "tc j = (k, ts)" by fastforce
  with t j(1) obtain r where ok: "vint_ok k (length ts)" "length ts \<le> 8"
    "drop 12 (cs ! j) = timecode_element k ts @ r" "length (timecode_element k ts) \<le> unat (bytes (hd (bss ! j)))"
    by (auto simp: timed_def)
  have "take (length (timecode_element k ts)) (data_at cs bss (j, 0)) = timecode_element k ts" if "m = 0"
  proof -
    have "bss ! j \<noteq> []" using j(2) by auto
    then have "length (timecode_element k ts) \<le> unat (bytes (bss ! j ! 0))" using ok(4) by (simp add: hd_conv_nth)
    then show ?thesis by (simp add: data_at_def ok(3) min_def)
  qed
  then show "payload_enc (payload_at tc cs bss (j, m)) = data_at cs bss (j, m)" "payload_ok (payload_at tc cs bss (j, m))"
    using ok k append_take_drop_id [of "length (timecode_element k ts)" "data_at cs bss (j, 0)"]
    by (auto simp: payload_at_def simp del: append_take_drop_id)
qed

lemma info_at_numbers:
  assumes h: "holds hdr cs bss w" and j: "j < length cs" "m < length (bss ! j)"
  shows "seq (info_at bss (j, m)) = of_nat (Suc m)" "cluster_seq (info_at bss (j, m)) = of_nat j"
    "unat (seq (info_at bss (j, m))) = Suc m" "unat (cluster_seq (info_at bss (j, m))) = j"
proof -
  obtain rest where c: "cut_into (of_nat j) (cs ! j) rest (bss ! j)" using holds_cut [OF h j(1)] by metis
  then have cc: "cut_cluster (length (cs ! j)) (start_block (of_nat j)) 12 (cs ! j @ rest) = Some (bss ! j)"
    "length (cs ! j) < 2 ^ 32" by (simp_all add: cut_into_def)
  show s: "seq (info_at bss (j, m)) = of_nat (Suc m)" "cluster_seq (info_at bss (j, m)) = of_nat j"
    using cut_cluster_numbers(1,3) [OF cc(1) j(2)] by (simp_all add: info_at_def)
  have "Suc m < 2 ^ 32" using cut_cluster_length [OF cc(1)] cc(2) j(2) by simp
  moreover have "j < 2 ^ 16" using holds_sel(2) [OF h] j(1) by simp
  ultimately show "unat (seq (info_at bss (j, m))) = Suc m" "unat (cluster_seq (info_at bss (j, m))) = j"
    unfolding s by (simp_all add: unat_of_nat del: of_nat_Suc)
qed

lemma packet_of_ok:
  assumes h: "holds hdr cs bss w" and t: "timed tc cs bss" and j: "j < length cs" "m < length (bss ! j)"
  shows "packet_ok (packet_of tc cs bss stale (j, m))"
    and "packet_mem (packet_of tc cs bss stale (j, m)) = packet_at cs bss (j, m) @ stale"
    and "packet_size (packet_of tc cs bss stale (j, m)) = of_nat (length (packet_at cs bss (j, m)))"
proof -
  note e = payload_at_enc [OF h t j] and n = info_at_numbers [OF h j] and l = length_data_at [OF h j]
  have "is_timed (payload_at tc cs bss (j, m)) \<longleftrightarrow> m = 0"
    by (simp add: payload_at_def is_timed_def split: prod.split)
  moreover have "seq (info_at bss (j, m)) = 1 \<longleftrightarrow> m = 0" using n(3) by (auto simp: word_unat_eq_iff)
  moreover have "info_wire (info_at bss (j, m)) \<noteq> BLOCKINFO_START" "info_wire (info_at bss (j, m)) \<noteq> BLOCKINFO_END"
  proof -
    obtain rest where "cut_into (of_nat j) (cs ! j) rest (bss ! j)" using holds_cut [OF h j(1)] by metis
    then have "status (info_at bss (j, m)) \<in> {STATUS_PIECE, STATUS_SIMPLEBLOCK, STATUS_BLOCK}"
      using cut_cluster_status [OF _ j(2)] by (auto simp: cut_into_def info_at_def)
    moreover have "info_wire i ! 16 = status i" for i :: block_info by (simp add: info_wire_def nth_append)
    moreover have "BLOCKINFO_START ! 16 = 0" "BLOCKINFO_END ! 16 = 0xff"
      by (simp_all add: BLOCKINFO_START_def BLOCKINFO_END_def)
    ultimately show "info_wire (info_at bss (j, m)) \<noteq> BLOCKINFO_START" "info_wire (info_at bss (j, m)) \<noteq> BLOCKINFO_END"
      by (auto simp: STATUS_PIECE_def STATUS_SIMPLEBLOCK_def STATUS_BLOCK_def dest!: arg_cong [where f = "\<lambda>xs. xs ! 16"])
  qed
  ultimately show "packet_ok (packet_of tc cs bss stale (j, m))"
    using e l by (simp add: packet_ok_def packet_of_def info_at_def)
  show "packet_mem (packet_of tc cs bss stale (j, m)) = packet_at cs bss (j, m) @ stale"
    "packet_size (packet_of tc cs bss stale (j, m)) = of_nat (length (packet_at cs bss (j, m)))"
    using e(1) by (simp_all add: packet_mem_def packet_size_def packet_of_def packet_at_def)
qed

section \<open>Receiving a stream\<close>

text \<open>The frames of a slot, received one after another, each with the stale bytes \<open>stale\<close> behind it.\<close>

fun receive_all :: "bytes \<Rightarrow> u16 \<Rightarrow> bytes list \<Rightarrow> node \<Rightarrow> (node, node) run option" where
  "receive_all stale my_port [] r = Some (Ret r)"
| "receive_all stale my_port (f # fs) r = do {
     x \<leftarrow> receive_frame dispatch_peer my_port (f @ stale) r;
     cont x (receive_all stale my_port fs)
   }"

lemma receive_all_records:
  fixes s r :: node
  assumes "holds hdr cs bss w" "timed tc cs bss" and "records nd R r"
    and "\<forall>q \<in> set qs. fst q < length cs \<and> snd q < length (bss ! fst q)"
    and "list_all2 (\<lambda>q f. carries a (int i) (1 # packet_at cs bss q) f) qs fs" and "i < 2"
    and to: "DST_IP a ! i = SRC_IP (ADDR r)" "DST_PORT a ! i = my_port"
    and room: "rec_size R + (\<Sum>q \<leftarrow> qs. 12 + length (data_at cs bss q)) < 2 ^ 56"
      "rec_size R + (\<Sum>q \<leftarrow> qs. 12 + length (data_at cs bss q)) \<le> FILE_LIMIT r"
  shows "\<exists>r'. receive_all stale my_port fs r = Some (Ret r') \<and>
    records nd (fold (absorb nd) (map (packet_of tc cs bss stale) qs) R) r'"
  using assms(3-)
proof (induction qs arbitrary: fs R r)
  case Nil
  then show ?case by simp
next
  case (Cons q qs)
  obtain j m where q: "q = (j, m)" by (cases q)
  have j: "j < length cs" "m < length (bss ! j)" using Cons.prems(2) q by auto
  obtain f gs where fs: "fs = f # gs" "carries a (int i) (1 # packet_at cs bss (j, m)) f"
    "list_all2 (\<lambda>q f. carries a (int i) (1 # packet_at cs bss q) f) qs gs"
    using Cons.prems(3) q by (auto simp: list_all2_Cons1)
  note p = packet_of_ok [OF assms(1,2) j, of stale] and e = payload_at_enc [OF assms(1,2) j]
  have len: "length (packet_at cs bss (j, m)) \<le> 1471"
    using length_data_at [OF assms(1) j] by (simp add: packet_at_def)
  have k: "slot_ix (int i)" using assms(6) by (simp add: slot_ix_def)
  have "receive_frame dispatch_peer my_port (f @ stale) r = dispatch_peer 1 (packet_at cs bss (j, m) @ stale)
      (int (length (packet_at cs bss (j, m)))) (SRC_IP a) (htons (SRC_PORT a)) r"
    using carries_receive [OF fs(2) k len] Cons.prems(5,6) by simp
  then have rf: "receive_frame dispatch_peer my_port (f @ stale) r =
      AssembleBlock (packet_mem (packet_of tc cs bss stale (j, m))) (packet_size (packet_of tc cs bss stale (j, m))) r"
    by (simp add: dispatch_peer_def p(2,3))
  define x where "x = payload_at tc cs bss (j, m)"
  have po: "packet_of tc cs bss stale (j, m) = (info_at bss (j, m), x, stale)" by (simp add: packet_of_def x_def)
  obtain r1 where r1: "AssembleBlock (packet_mem (info_at bss (j, m), x, stale)) (packet_size (packet_of tc cs bss stale (j, m))) r = Some (Ret r1)"
    "records nd (absorb nd (info_at bss (j, m), x, stale) R) r1" "FILE_LIMIT r1 = FILE_LIMIT r"
    by (rule absorb_step [OF Cons.prems(1) p(1) [unfolded po]])
      (use Cons.prems(7,8) q e(1) x_def in auto)
  have "keeps r r1" using run_keepsD [OF AssembleBlock_keeps r1(1)] .
  then have "ADDR r1 = ADDR r" by (cases r; cases r1) (simp add: keeps_def)
  moreover have "rec_size (absorb nd (info_at bss (j, m), x, stale) R) \<le> rec_size R + 12 + length (data_at cs bss (j, m))"
    using absorb_size [of x nd "info_at bss (j, m)" stale R] e by (simp add: x_def)
  ultimately obtain r' where "receive_all stale my_port gs r1 = Some (Ret r')"
    "records nd (fold (absorb nd) (map (packet_of tc cs bss stale) qs) (absorb nd (info_at bss (j, m), x, stale) R)) r'"
    using Cons.IH [OF r1(2) _ fs(3)] Cons.prems(2,4-) r1(3) q by auto
  then show ?case using r1(1) rf by (simp add: fs(1) q po)
qed

section \<open>Recording a cluster\<close>

definition fresh_from :: "recording \<Rightarrow> nat \<Rightarrow> nat \<Rightarrow> bool" where
  "fresh_from R j m \<longleftrightarrow> unat (prev_seq R) < j \<or> unat (prev_seq R) = j \<and> unat (latest R) \<le> m"

text \<open>The data of cluster \<open>j\<close> as they are recorded when the time \<open>z\<close> has become zero.\<close>

definition recorded :: "u64 \<Rightarrow> u64 \<Rightarrow> timecodes \<Rightarrow> bytes list \<Rightarrow> nat \<Rightarrow> bytes" where
  "recorded nd z tc cs j = (case tc j of (k, t) \<Rightarrow>
     timecode_element k (be_bytes (length t) (unat (of_nat (be_val t) + nd - z))) @
     drop (12 + length (timecode_element k t)) (cs ! j))"

definition zero_at :: "u64 \<Rightarrow> timecodes \<Rightarrow> nat \<Rightarrow> recording \<Rightarrow> u64" where
  "zero_at nd tc j R = (case zero_time R of None \<Rightarrow> of_nat (be_val (snd (tc j))) + nd | Some z \<Rightarrow> z)"

lemma fresh_packet:
  assumes "holds hdr cs bss w" and "j < length cs" "m < length (bss ! j)"
  shows "fresh (info_at bss (j, m)) R \<longleftrightarrow> fresh_from R j m"
  using info_at_numbers(3,4) [OF assms]
  by (auto simp: fresh_def fresh_from_def word_less_nat_alt word_unat_eq_iff ucast_16_32)

lemma data_concat:
  assumes "n \<le> length (bss ! j)"
  shows "concat (map (\<lambda>m. data_at cs bss (j, m)) [0..<n]) = take (block_bytes (take n (bss ! j))) (drop 12 (cs ! j))"
  using assms
proof (induction n)
  case (Suc n)
  then show ?case
    by (simp add: data_at_def take_Suc_conv_app_nth take_add add.commute)
qed simp

lemma data_all:
  assumes "holds hdr cs bss w" and "j < length cs"
  shows "concat (map (\<lambda>m. data_at cs bss (j, m)) [0..<length (bss ! j)]) = drop 12 (cs ! j)"
proof -
  obtain rest where "cut_into (of_nat j) (cs ! j) rest (bss ! j)" using holds_cut [OF assms] by metis
  then have "block_bytes (bss ! j) = length (drop 12 (cs ! j))" by (auto simp: cut_into_def)
  then show ?thesis using data_concat [of "length (bss ! j)" bss j cs] by simp
qed

text \<open>The blocks behind the first one are appended as they are.\<close>

lemma absorb_rest:
  assumes "holds hdr cs bss w" and "j < length cs" and "open_seq R = of_nat j" "fresh_from R j 1"
    and "1 \<le> n" "n \<le> length (bss ! j)"
  shows "fold (absorb nd) (map (\<lambda>m. packet_of tc cs bss stale (j, m)) [1..<n]) R =
    R\<lparr>opened := opened R @ concat (map (\<lambda>m. data_at cs bss (j, m)) [1..<n]),
      latest := (if n = 1 then latest R else of_nat n)\<rparr>"
  using assms(5,6)
proof (induction n rule: dec_induct)
  case base
  then show ?case by simp
next
  case (step n)
  define Q where "Q = R\<lparr>opened := opened R @ concat (map (\<lambda>m. data_at cs bss (j, m)) [1..<n]),
      latest := (if n = 1 then latest R else of_nat n)\<rparr>"
  have n: "n < length (bss ! j)" using step by simp
  note num = info_at_numbers [OF assms(1,2) n]
  have "unat (of_nat n :: u32) = n"
    using num(3) unat_u32_lt [of "seq (info_at bss (j, n))"] by (simp add: unat_of_nat)
  then have "fresh_from Q j n" using assms(4) step(1) by (auto simp: fresh_from_def Q_def)
  then have "absorb nd (packet_of tc cs bss stale (j, n)) Q = Q\<lparr>opened := opened Q @ data_at cs bss (j, n), latest := of_nat (Suc n)\<rparr>"
    using fresh_packet [OF assms(1,2) n, of Q] num(1,2) assms(3) step(1)
    by (simp add: absorb_def packet_of_def payload_at_def Q_def)
  moreover have "[1..<Suc n] = [1..<n] @ [n]" using step(1) by simp
  ultimately show ?case using step by (simp add: Q_def)
qed

lemma absorb_first:
  assumes h: "holds hdr cs bss w" "timed tc cs bss" and j: "j < length cs" and f: "fresh_from R j 0"
    and "z = zero_at nd tc j R"
  shows "absorb nd (packet_of tc cs bss stale (j, 0)) R =
    \<lparr>closed = closed R @ (if open_seq R = of_nat j then [] else cluster_enc (opened R)),
     opened = (if open_seq R = of_nat j then opened R else []) @
       (case tc j of (k, t) \<Rightarrow> timecode_element k (be_bytes (length t) (unat (of_nat (be_val t) + nd - z))) @
         drop (length (timecode_element k t)) (data_at cs bss (j, 0))),
     open_seq = of_nat j, prev_seq = (if open_seq R = of_nat j then prev_seq R else ucast (open_seq R)),
     latest = 1, zero_time = Some z\<rparr>"
proof -
  obtain rest where "bss ! j \<noteq> []" using holds_cut [OF h(1) j] by metis
  then have m: "0 < length (bss ! j)" by simp
  obtain k t where tc: "tc j = (k, t)" by fastforce
  have "fresh (info_at bss (j, 0)) R" using fresh_packet [OF h(1) j m] f by simp
  then show ?thesis
    using info_at_numbers(1,2) [OF h(1) j m] assms(5)
    by (cases R) (auto simp: absorb_def packet_of_def payload_at_def tc Let_def zero_at_def split: option.split)
qed

text \<open>A whole cluster closes the one before and leaves its own open.\<close>

lemma absorb_cluster:
  assumes h: "holds hdr cs bss w" "timed tc cs bss" and j: "j < length cs"
    and f: "fresh_from R j 0" "unat (open_seq R) \<le> j" and z: "z = zero_at nd tc j R"
  shows "fold (absorb nd) (map (\<lambda>m. packet_of tc cs bss stale (j, m)) [0..<length (bss ! j)]) R =
    \<lparr>closed = closed R @ (if open_seq R = of_nat j then [] else cluster_enc (opened R)),
     opened = (if open_seq R = of_nat j then opened R else []) @ recorded nd z tc cs j,
     open_seq = of_nat j, prev_seq = (if open_seq R = of_nat j then prev_seq R else ucast (open_seq R)),
     latest = of_nat (length (bss ! j)), zero_time = Some z\<rparr>"
proof -
  define n where "n = length (bss ! j)"
  obtain rest where "bss ! j \<noteq> []" using holds_cut [OF h(1) j] by metis
  then have n: "1 \<le> n" by (simp add: n_def Suc_le_eq)
  obtain k t where tc: "tc j = (k, t)" by fastforce
  define e where "e = length (timecode_element k t)"
  define Q where "Q = absorb nd (packet_of tc cs bss stale (j, 0)) R"
  note Q = absorb_first [OF h j f(1) z, of stale, folded Q_def]
  have j16: "unat (of_nat j :: u16) = j" using j holds_sel(2) [OF h(1)] by (simp add: unat_of_nat)
  have "fresh_from Q j 1"
    using f j16 by (auto simp: Q fresh_from_def ucast_16_32 word_unat_eq_iff)
  note rest = absorb_rest [OF h(1) j _ this n, unfolded n_def, of nd tc stale]
  have up: "[0..<length (bss ! j)] = 0 # [1..<length (bss ! j)]" using n upt_conv_Cons [of 0 n] \<open>bss ! j \<noteq> []\<close> by (simp add: n_def)
  have "drop e (data_at cs bss (j, 0)) @ concat (map (\<lambda>m. data_at cs bss (j, m)) [1..<length (bss ! j)]) =
      drop e (drop 12 (cs ! j))"
  proof -
    have "e \<le> length (data_at cs bss (j, 0))"
      using h(2) j tc length_data_at(1) [OF h(1) j, of 0] n \<open>bss ! j \<noteq> []\<close>
      by (auto simp: timed_def e_def n_def hd_conv_nth)
    then show ?thesis using data_all [OF h(1) j] unfolding up by (metis drop_append diff_is_0_eq drop0 concat.simps(2) list.simps(9))
  qed
  moreover have "(1 :: u32) = of_nat n" if "n = 1" using that by simp
  ultimately show ?thesis
    unfolding up
    using rest by (auto simp: Q_def [symmetric] Q tc recorded_def e_def add.commute n_def)
qed

section \<open>Recording a stream\<close>

definition cluster_places :: "block_info list list \<Rightarrow> nat \<Rightarrow> nat \<Rightarrow> place list" where
  "cluster_places bss j0 j1 = concat (map (\<lambda>j. map (Pair j) [0..<length (bss ! j)]) [j0..<j1])"

lemma absorb_clusters:
  assumes h: "holds hdr cs bss w" "timed tc cs bss" and j: "P < length cs" "j0 \<le> P"
    and f: "fresh_from R j0 0" "unat (open_seq R) \<le> j0" "open_seq R = of_nat j0 \<longrightarrow> opened R = []"
    and z: "z = zero_at nd tc j0 R"
  shows "\<exists>ps. fold (absorb nd) (map (packet_of tc cs bss stale) (cluster_places bss j0 (Suc P))) R =
    \<lparr>closed = closed R @ (if open_seq R = of_nat j0 then [] else cluster_enc (opened R)) @
       concat (map (\<lambda>j. cluster_enc (recorded nd z tc cs j)) [j0..<P]),
     opened = recorded nd z tc cs P, open_seq = of_nat P, prev_seq = ps,
     latest = of_nat (length (bss ! P)), zero_time = Some z\<rparr> \<and> unat ps \<le> P"
  using j(2,1)
proof (induction P rule: dec_induct)
  case base
  have "unat (if open_seq R = of_nat j0 then prev_seq R else ucast (open_seq R)) \<le> j0"
    using f(1,2) by (auto simp: fresh_from_def ucast_16_32)
  then show ?case
    using absorb_cluster [OF h base f(1,2) z, of stale] f(3) by (auto simp: cluster_places_def comp_def)
next
  case (step P)
  define Q where "Q = fold (absorb nd) (map (packet_of tc cs bss stale) (cluster_places bss j0 (Suc P))) R"
  obtain ps where ps: "Q = \<lparr>closed = closed R @ (if open_seq R = of_nat j0 then [] else cluster_enc (opened R)) @
       concat (map (\<lambda>j. cluster_enc (recorded nd z tc cs j)) [j0..<P]),
     opened = recorded nd z tc cs P, open_seq = of_nat P, prev_seq = ps,
     latest = of_nat (length (bss ! P)), zero_time = Some z\<rparr>" "unat ps \<le> P"
    using step.IH step.prems by (auto simp: Q_def)
  have P16: "unat (of_nat P :: u16) = P" "unat (of_nat (Suc P) :: u16) = Suc P"
    using step.prems holds_sel(2) [OF h(1)] by (simp_all add: unat_of_nat del: of_nat_Suc)
  then have ne: "open_seq Q \<noteq> of_nat (Suc P)" by (metis ps(1) recording.select_convs(3) n_not_Suc_n)
  have fq: "fresh_from Q (Suc P) 0" "unat (open_seq Q) \<le> Suc P" "z = zero_at nd tc (Suc P) Q"
    using ps(2) P16 by (auto simp: ps(1) fresh_from_def zero_at_def)
  have cp: "cluster_places bss j0 (Suc (Suc P)) = cluster_places bss j0 (Suc P) @ map (Pair (Suc P)) [0..<length (bss ! Suc P)]"
    using step.hyps by (simp add: cluster_places_def)
  have "unat (ucast (of_nat P :: u16) :: u32) \<le> Suc P" by (simp add: ucast_16_32 P16 del: of_nat_Suc)
  moreover have "fold (absorb nd) (map (packet_of tc cs bss stale) (cluster_places bss j0 (Suc (Suc P)))) R =
      fold (absorb nd) (map (\<lambda>m. packet_of tc cs bss stale (Suc P, m)) [0..<length (bss ! Suc P)]) Q"
    unfolding cp by (simp add: Q_def comp_def)
  ultimately show ?case
    using absorb_cluster [OF h step.prems fq, of stale] ne step.hyps
    by (intro exI [of _ "ucast (of_nat P :: u16)"]) (simp add: ps(1) del: of_nat_Suc)
qed

text \<open>The places of a stream, one block after another.\<close>

lemma path_cluster:
  assumes "n \<le> length (bss ! j)" and "bss ! j \<noteq> []"
  shows "path bss (j, 0) n = map (Pair j) [0..<n]"
    "(advance bss ^^ n) (j, 0) = (if n = length (bss ! j) then (Suc j, 0) else (j, n))"
proof -
  have "path bss (j, 0) n = map (Pair j) [0..<n] \<and>
      (advance bss ^^ n) (j, 0) = (if n = length (bss ! j) then (Suc j, 0) else (j, n))"
    using assms(1)
  proof (induction n)
    case 0
    then show ?case using assms(2) by simp
  next
    case (Suc n)
    then have "(advance bss ^^ n) (j, 0) = (j, n)" "path bss (j, 0) n = map (Pair j) [0..<n]" by auto
    then have a: "(advance bss ^^ Suc n) (j, 0) = advance bss (j, n)" by simp
    have "path bss (j, 0) (n + Suc 0) = map (Pair j) [0..<n] @ [(j, n)]"
      unfolding path_add using \<open>(advance bss ^^ n) (j, 0) = (j, n)\<close> \<open>path bss (j, 0) n = map (Pair j) [0..<n]\<close> by simp
    moreover have "advance bss (j, n) = (if Suc n = length (bss ! j) then (Suc j, 0) else (j, Suc n))"
      by (simp add: advance_def)
    ultimately show ?case unfolding a by simp
  qed
  then show "path bss (j, 0) n = map (Pair j) [0..<n]"
    "(advance bss ^^ n) (j, 0) = (if n = length (bss ! j) then (Suc j, 0) else (j, n))" by auto
qed

lemma path_clusters:
  assumes "\<forall>is \<in> set bss. is \<noteq> []" and "j0 \<le> j1" "j1 \<le> length bss"
  shows "path bss (j0, 0) (length (cluster_places bss j0 j1)) = cluster_places bss j0 j1 \<and>
    (advance bss ^^ length (cluster_places bss j0 j1)) (j0, 0) = (j1, 0)"
  using assms(2,3)
proof (induction j1 rule: dec_induct)
  case base
  then show ?case by (simp add: cluster_places_def)
next
  case (step j)
  then have ne: "bss ! j \<noteq> []" using assms(1) by simp
  have cp: "cluster_places bss j0 (Suc j) = cluster_places bss j0 j @ map (Pair j) [0..<length (bss ! j)]"
    using step.hyps by (simp add: cluster_places_def)
  have l: "length (cluster_places bss j0 (Suc j)) = length (bss ! j) + length (cluster_places bss j0 j)"
    by (simp add: cp)
  have "(advance bss ^^ length (cluster_places bss j0 (Suc j))) (j0, 0) =
      (advance bss ^^ length (bss ! j)) ((advance bss ^^ length (cluster_places bss j0 j)) (j0, 0))"
    unfolding l funpow_add by simp
  moreover have "path bss (j0, 0) (length (cluster_places bss j0 (Suc j))) =
      path bss (j0, 0) (length (cluster_places bss j0 j)) @
      path bss ((advance bss ^^ length (cluster_places bss j0 j)) (j0, 0)) (length (bss ! j))"
    using path_add [of bss "(j0, 0)" "length (cluster_places bss j0 j)" "length (bss ! j)"] by (simp add: l add.commute)
  ultimately show ?case using step path_cluster [OF order.refl ne] by (simp add: cp)
qed

lemma path_nth: "k < n \<Longrightarrow> path bss q n ! k = (advance bss ^^ k) q"
proof (induction n arbitrary: q k)
  case (Suc n)
  then show ?case by (cases k) (simp_all add: funpow_Suc_right del: funpow.simps(2))
qed simp

lemma in_cluster_places: "(j, m) \<in> set (cluster_places bss j0 j1) \<longleftrightarrow> j0 \<le> j \<and> j < j1 \<and> m < length (bss ! j)"
  by (auto simp: cluster_places_def image_iff)

text \<open>A child that starts with a cluster has been sent whole clusters when there were rounds enough.\<close>

lemma rounds_clusters:
  assumes st: "streamed hdr cs bss qs s m t" and sr: "served_rounds cs bss qs s n m"
    and i: "i < 2" "connected (CONNECTED_NODES s) i"
    and q: "qs i = (j0, 0)" "j0 < length cs" and L: "length (last bss) \<le> unat (LATEST_BLOCK_SEQ s)"
    and n: "ahead bss (j0, 0) \<le> n"
  shows "path bss (qs i) (m i) = cluster_places bss j0 (length cs)"
proof -
  have h: "holds hdr cs bss t" using st by (simp add: streamed_def serves_def)
  have lb: "length bss = length cs" using holds_sel(1) [OF h] .
  have ne: "\<forall>is \<in> set bss. is \<noteq> []" using holds_cut [OF h] lb by (metis in_set_conv_nth)
  define N where "N = length (cluster_places bss j0 (length cs))"
  have p: "path bss (j0, 0) N = cluster_places bss j0 (length cs)" "(advance bss ^^ N) (j0, 0) = (length cs, 0)"
    using path_clusters [OF ne, of j0 "length cs"] q(2) lb by (simp_all add: N_def)
  have "\<forall>k < m i. fst ((advance bss ^^ k) (j0, 0)) < length cs" using st i(1) q(1) by (auto simp: streamed_def)
  then have "m i \<le> N" using p(2) by (metis fst_conv less_irrefl not_le_imp_less)
  moreover have "\<not> m i < N"
  proof
    assume l: "m i < N"
    then have "(advance bss ^^ m i) (j0, 0) \<in> set (cluster_places bss j0 (length cs))"
      using path_nth [of "m i" N bss "(j0, 0)"] p(1) by (metis N_def nth_mem)
    moreover obtain j k where e: "(advance bss ^^ m i) (j0, 0) = (j, k)" by fastforce
    ultimately have jk: "moved bss qs m i = (j, k)" "j < length cs" "k < length (bss ! j)"
      by (simp_all add: in_cluster_places moved_def q(1))
    have "bss \<noteq> []" using lb q(2) by auto
    then have "k \<le> unat (LATEST_BLOCK_SEQ s)" if "j = length cs - 1"
      using that L jk(3) lb by (auto simp: last_conv_nth)
    then have "due cs s (j, k)" using jk(2) by (auto simp: behind_def)
    with sr i q(1) n have "ahead bss (j, k) = 0" by (auto simp: served_rounds_def jk(1))
    moreover have "0 < ahead bss (j, k)"
      using jk(2,3) lb by (simp add: ahead_def Cons_nth_drop_Suc [symmetric])
    ultimately show False by simp
  qed
  ultimately have "m i = N" by simp
  then show ?thesis using p(1) q(1) by simp
qed

definition frames_of :: "nat \<Rightarrow> (nat \<times> place) list \<Rightarrow> bytes list \<Rightarrow> bytes list" where
  "frames_of i trace fs = map snd (filter (\<lambda>x. fst (fst x) = i) (zip trace fs))"

lemma frames_of_slot:
  assumes "list_all2 (\<lambda>(i, q) f. C i q f) trace fs"
  shows "list_all2 (C i) (map snd (filter (\<lambda>p. fst p = i) trace)) (frames_of i trace fs)"
  using assms by (induction rule: list_all2_induct) (auto simp: frames_of_def)


text \<open>A child that has the header only.\<close>

definition new_child :: node where
  "new_child = recording_child\<lparr>FILE := cluster_hdr 0, FP := 12, LATEST_BLOCK_SEQ := 0, CURRENT_CLUSTER := Some \<lparr>
     cl = \<lparr>cl_info = Chank0\<lparr>id_bytes := 4\<rparr>, cl_pos = 0, cl_seq = 0, cl_option = 0\<rparr>,
     cl_prev = \<lparr>cl_info = Chank0, cl_pos = 0, cl_seq = 0, cl_option = 0\<rparr>\<rparr>\<rparr>"

definition new_recording :: recording where
  "new_recording = \<lparr>closed = [], opened = [], open_seq = 0, prev_seq = 0, latest = 0, zero_time = None\<rparr>"

lemma new_child_records: "records 0 new_recording new_child"
  by (auto simp: records_def new_child_def recording_child_def new_recording_def file_inv_def cl_seqs_def block_info0_def Chank0_def)


end
