(* ===== verification/C_Text.thy ===== *)
theory C_Text
  imports Prelude
begin

text \<open>
  C strings in fixed buffers, for the HTTP client \<^verbatim>\<open>src/src/common/upnp.c\<close>: a buffer is the list of its
  characters, a string ends at its first zero character, and writing past the end or reading a buffer
  without a zero has no outcome.  Addresses are printed and read in dotted decimal.
\<close>

section \<open>Strings in buffers\<close>

definition NUL :: char where "NUL = CHR 0x00"

text \<open>\<^verbatim>\<open>cstr b\<close>: what a \<^verbatim>\<open>%s\<close> or \<^verbatim>\<open>strcat\<close> reads at \<open>b\<close>.\<close>

definition cstr :: "string \<Rightarrow> string option" where
  "cstr b = (if NUL \<in> set b then Some (takeWhile (\<lambda>c. c \<noteq> NUL) b) else None)"

definition put_str :: "string \<Rightarrow> nat \<Rightarrow> string \<Rightarrow> string option" where
  "put_str b p s = (if p + length s < length b then Some (take p b @ s @ [NUL] @ drop (p + length s + 1) b) else None)"

definition bzero :: "string \<Rightarrow> nat \<Rightarrow> string option" where
  "bzero b n = (if n \<le> length b then Some (replicate n NUL @ drop n b) else None)"

text \<open>\<^verbatim>\<open>sprintf\<close> of the finished text \<open>s\<close>, and \<^verbatim>\<open>strcat\<close>.\<close>

definition sprintf :: "string \<Rightarrow> string \<Rightarrow> string option" where
  "sprintf b s = put_str b 0 s"

definition strcat :: "string \<Rightarrow> string \<Rightarrow> string option" where
  "strcat b s = do { t \<leftarrow> cstr b; put_str b (length t) s }"

text \<open>Fresh memory: \<open>mem k\<close> are the contents of the \<open>k\<close>-th block a function allocates.\<close>

type_synonym memory = "nat \<Rightarrow> nat \<Rightarrow> char"

definition malloc :: "memory \<Rightarrow> nat \<Rightarrow> nat \<Rightarrow> string" where
  "malloc mem k n = map (mem k) [0..<n]"

text \<open>A string without a zero inside, and the buffer \<open>n\<close> characters long that holds it and zeros.\<close>

definition c_string :: "string \<Rightarrow> bool" where
  "c_string s \<longleftrightarrow> NUL \<notin> set s"

definition padded :: "nat \<Rightarrow> string \<Rightarrow> string" where
  "padded n s = s @ replicate (n - length s) NUL"

lemma length_malloc [simp]: "length (malloc mem k n) = n"
  by (simp add: malloc_def)

lemma c_string_simps [simp]:
  "c_string []" "c_string (c # s) \<longleftrightarrow> c \<noteq> NUL \<and> c_string s" "c_string (s @ t) \<longleftrightarrow> c_string s \<and> c_string t"
  by (auto simp: c_string_def)

lemma cstr_put [simp]: "c_string s \<Longrightarrow> cstr (s @ NUL # r) = Some s"
  by (auto simp: cstr_def c_string_def takeWhile_append takeWhile_eq_all_conv)

lemma cstr_padded: "c_string s \<Longrightarrow> length s < n \<Longrightarrow> cstr (padded n s) = Some s"
  by (cases "n - length s") (simp_all add: padded_def)

lemma cstr_sprintf: "c_string s \<Longrightarrow> sprintf b s = Some b' \<Longrightarrow> cstr b' = Some s"
  by (auto simp: sprintf_def put_str_def split: if_splits)

lemma sprintf_None: "sprintf b s = None \<longleftrightarrow> length b \<le> length s"
  by (auto simp: sprintf_def put_str_def)

lemma strcat_padded:
  assumes "c_string s" "length s < n"
  shows "strcat (padded n s) t = (if length s + length t < n then Some (padded n (s @ t)) else None)"
proof -
  have "NUL # replicate (n - Suc (length s + length t)) NUL = replicate (n - (length s + length t)) NUL"
    if "length s + length t < n"
    using that by (simp add: Suc_diff_Suc flip: replicate_Suc)
  then show ?thesis using assms(2)
    by (simp add: strcat_def cstr_padded [OF assms]) (auto simp: put_str_def padded_def)
qed

lemma bzero_padded: "length b = n \<Longrightarrow> bzero b n = Some (padded n [])"
  by (simp add: bzero_def padded_def)

section \<open>Numbers and addresses\<close>

fun dec :: "nat \<Rightarrow> string" where
  "dec n = (if n < 10 then [char_of (48 + n)] else dec (n div 10) @ [char_of (48 + n mod 10)])"

declare dec.simps [simp del]

lemma digit_chars:
  "char_of (48 :: nat) = CHR ''0''" "char_of (49 :: nat) = CHR ''1''" "char_of (50 :: nat) = CHR ''2''"
  "char_of (51 :: nat) = CHR ''3''" "char_of (52 :: nat) = CHR ''4''" "char_of (53 :: nat) = CHR ''5''"
  "char_of (54 :: nat) = CHR ''6''" "char_of (55 :: nat) = CHR ''7''" "char_of (56 :: nat) = CHR ''8''"
  "char_of (57 :: nat) = CHR ''9''"
  by code_simp+

lemmas dec_eval = dec.simps [of 0] dec.simps [of 1] dec.simps [of "Suc 0"] dec.simps [of "numeral k" for k] digit_chars

definition digit :: "char \<Rightarrow> nat option" where
  "digit c = (if 48 \<le> (of_char c :: nat) \<and> (of_char c :: nat) \<le> 57 then Some (of_char c - 48) else None)"

text \<open>The value of a decimal number; a number with a leading zero would be octal and is not read here.\<close>

fun digits :: "nat \<Rightarrow> string \<Rightarrow> nat option" where
  "digits n [] = Some n"
| "digits n (c # cs) = do { d \<leftarrow> digit c; digits (10 * n + d) cs }"

definition number :: "string \<Rightarrow> nat option" where
  "number s = (if s = [] \<or> hd s = CHR ''0'' \<and> tl s \<noteq> [] then None else digits 0 s)"

fun fields :: "string \<Rightarrow> string list" where
  "fields [] = [[]]"
| "fields (c # cs) = (if c = CHR ''.'' then [] # fields cs else
     case fields cs of [] \<Rightarrow> [[c]] | f # fs \<Rightarrow> (c # f) # fs)"

text \<open>An address is held in network order, so its bytes in memory are the numbers in the text's order.\<close>

definition dotted :: "bytes \<Rightarrow> string" where
  "dotted bs = (case map (\<lambda>b. dec (unat b)) bs of
     [a, b, c, d] \<Rightarrow> a @ ''.'' @ b @ ''.'' @ c @ ''.'' @ d | _ \<Rightarrow> [])"

definition inet_ntoa :: "u32 \<Rightarrow> string" where
  "inet_ntoa a = dotted (mem32 a)"

definition inet_aton :: "string \<Rightarrow> u32 option" where
  "inet_aton s = (case map number (fields s) of
     [Some a, Some b, Some c, Some d] \<Rightarrow>
       if a < 256 \<and> b < 256 \<and> c < 256 \<and> d < 256
       then Some (load32 [of_nat a, of_nat b, of_nat c, of_nat d]) else None
   | _ \<Rightarrow> None)"

lemma digit_dec: "d < 10 \<Longrightarrow> digit (char_of (48 + d)) = Some d"
  by (simp add: digit_def)

lemma digits_append: "digits n (s @ t) = do { m \<leftarrow> digits n s; digits m t }"
  by (induction s arbitrary: n) (auto split: bind_splits)

lemma digits_dec: "digits 0 (dec n) = Some n"
proof (induction n rule: dec.induct)
  case (1 n)
  then show ?case by (subst dec.simps) (simp add: digits_append digit_dec)
qed

lemma char_of_48: "(d :: nat) < 10 \<Longrightarrow> char_of (48 + d) = CHR ''0'' \<longleftrightarrow> d = 0"
proof -
  have "char_of (48 :: nat) = CHR ''0''" "digit CHR ''0'' = Some 0" by code_simp+
  moreover assume "d < 10"
  ultimately show ?thesis using digit_dec [of d] by auto
qed

lemma dec_head: "dec n \<noteq> [] \<and> (hd (dec n) = CHR ''0'' \<longrightarrow> n = 0)"
proof (induction n rule: dec.induct)
  case (1 n)
  then show ?case by (subst (1 2) dec.simps) (auto simp: char_of_48 dec.simps [of 0])
qed

lemma number_dec: "number (dec n) = Some n"
proof -
  have "tl (dec n) = []" if "hd (dec n) = CHR ''0''" using that dec_head [of n] by (simp add: dec.simps [of 0])
  then show ?thesis using dec_head [of n] by (auto simp: number_def digits_dec)
qed

lemma dec_chars: "c \<in> set (dec n) \<Longrightarrow> \<exists>d < (10 :: nat). c = char_of (48 + d)"
proof (induction n rule: dec.induct)
  case (1 n)
  from 1(2) show ?case
    by (subst (asm) dec.simps) (use 1(1) in \<open>auto split: if_splits intro: exI [of _ "n mod 10"]\<close>)
qed

lemma dec_plain: "CHR ''.'' \<notin> set (dec n)" "c_string (dec n)"
proof -
  have "c \<noteq> CHR ''.'' \<and> c \<noteq> NUL" if c: "c \<in> set (dec n)" for c
  proof -
    obtain d :: nat where "d < 10" "c = char_of (48 + d)" using dec_chars [OF c] by auto
    then have "digit c = Some d" by (simp add: digit_dec)
    then show ?thesis by (auto simp: digit_def NUL_def)
  qed
  then show "CHR ''.'' \<notin> set (dec n)" "c_string (dec n)" by (auto simp: c_string_def)
qed

lemma fields_plain: "CHR ''.'' \<notin> set s \<Longrightarrow> fields s = [s]"
  by (induction s) auto

lemma fields_dot: "CHR ''.'' \<notin> set s \<Longrightarrow> fields (s @ CHR ''.'' # t) = s # fields t"
  by (induction s) auto

lemma mem32_four: obtains a b c d where "mem32 v = [a, b, c, d]"
  using length_mem(2) [of v] by (auto simp: numeral_eq_Suc length_Suc_conv simp del: length_mem)

lemma inet_roundtrip: "inet_aton (inet_ntoa v) = Some v"
proof -
  obtain a b c d where m: "mem32 v = [a, b, c, d]" by (rule mem32_four)
  have u: "unat (x :: u8) < 256" for x by (rule unat_byte_lt)
  have "load32 [a, b, c, d] = v" using load32_mem32 [of v "[]"] by (simp add: m)
  then show ?thesis
    by (simp add: inet_ntoa_def inet_aton_def dotted_def m fields_dot fields_plain dec_plain number_dec u)
qed

lemma dec_length: "n < 10 ^ Suc k \<Longrightarrow> length (dec n) \<le> Suc k"
proof (induction k arbitrary: n)
  case 0
  then show ?case by (subst dec.simps) simp
next
  case (Suc k)
  then have "n div 10 < 10 ^ Suc k" by simp
  from Suc.IH [OF this] show ?case by (subst dec.simps) simp
qed

lemma inet_ntoa_props: "c_string (inet_ntoa v)" "length (inet_ntoa v) \<le> 15"
proof -
  obtain a b c d where m: "mem32 v = [a, b, c, d]" by (rule mem32_four)
  have l: "length (dec (unat x)) \<le> 3" for x :: u8
    using dec_length [of "unat x" 2] unat_byte_lt [of x] by (simp del: unat_byte_lt)
  show "c_string (inet_ntoa v)" by (simp add: inet_ntoa_def dotted_def m dec_plain) (simp add: NUL_def)
  show "length (inet_ntoa v) \<le> 15"
    using l [of a] l [of b] l [of c] l [of d] by (simp add: inet_ntoa_def dotted_def m)
qed

end
