(* ===== verification/Upnp.thy ===== *)
theory Upnp
  imports C_Text
begin

text \<open>
  The UPnP client \<^verbatim>\<open>src/src/common/upnp.c\<close>, a program of its own: it looks for a router by SSDP, fetches
  its description over HTTP and asks it for the external address by SOAP.  The requests are built line
  by line in buffers of 128 characters and joined in a message buffer of 10000.  The network is the
  record \<open>net\<close>: what the program did to its sockets, and what the environment answers.
\<close>

section \<open>Sockets\<close>

record sockaddr_in =
  sin_family :: u16
  sin_port :: u16
  sin_addr :: u32

datatype sock = DGRAM | STREAM

datatype event = Socket nat sock | Bind nat sockaddr_in | Connect nat sockaddr_in | SendTo nat sockaddr_in string |
  Send nat string | Close nat

text \<open>
  \<open>SD\<close> counts the sockets opened; \<open>BIND_OK\<close> and \<open>SEND_OK\<close> tell whether these calls succeed, by socket;
  \<open>REPLY\<close> is what arrives on a socket, or that receiving from it fails.
\<close>

record net =
  TRAFFIC :: "event list"
  SD :: nat
  BIND_OK :: "nat \<Rightarrow> bool"
  SEND_OK :: "nat \<Rightarrow> bool"
  REPLY :: "nat \<Rightarrow> string option"

definition AF_INET :: u16 where "AF_INET = 2"
definition MAX_MSG :: nat where "MAX_MSG = 10000"
definition LOCAL_ADDR :: string where "LOCAL_ADDR = ''192.168.20.11''"
definition GATEWAY_ADDR :: string where "GATEWAY_ADDR = ''192.168.20.1''"
definition SSDP_MUL_ADDR :: string where "SSDP_MUL_ADDR = ''239.255.255.250''"
definition SSDP_PORT :: int where "SSDP_PORT = 1900"
definition GET_REQUEST :: int where "GET_REQUEST = 1"
definition SSDP_REQUEST :: int where "SSDP_REQUEST = 2"
definition SOAP_REQUEST :: int where "SOAP_REQUEST = 3"
definition WIP :: string where "WIP = ''urn:schemas-upnp-org:service:WANIPConnection:1''"
definition WPPP :: string where "WPPP = ''urn:schemas-upnp-org:service:WANPPPConnection:1''"
definition WROOT :: string where "WROOT = ''upnp:rootdevice''"

definition event :: "event \<Rightarrow> net \<Rightarrow> net" where
  "event e n = n\<lparr>TRAFFIC := TRAFFIC n @ [e]\<rparr>"

text \<open>Printing a message with \<^verbatim>\<open>%s\<close> reads it up to its zero.\<close>

definition UDP_Init :: "sockaddr_in \<Rightarrow> net \<Rightarrow> (net, nat \<times> net) run option" where
  "UDP_Init saddr n =
     (let sd = SD n; n = event (Socket sd DGRAM) (n\<lparr>SD := SD n + 1\<rparr>)
      in if BIND_OK n sd then Some (Ret (sd, event (Bind sd saddr) n)) else Some (Exit n))"

definition UDP_Send :: "nat \<Rightarrow> sockaddr_in \<Rightarrow> string \<Rightarrow> net \<Rightarrow> (net, net) run option" where
  "UDP_Send sd daddr msg n =
     (if \<not> SEND_OK n sd then Some (Exit (event (Close sd) n))
      else if length msg < MAX_MSG then None
      else do { _ \<leftarrow> cstr msg; Some (Ret (event (SendTo sd daddr (take MAX_MSG msg)) n)) })"

definition UDP_Receive :: "nat \<Rightarrow> string \<Rightarrow> net \<Rightarrow> (net, string \<times> net) run option" where
  "UDP_Receive sd msg n = do {
     msg \<leftarrow> bzero msg MAX_MSG;
     case REPLY n sd of
       None \<Rightarrow> Some (Exit n)
     | Some d \<Rightarrow> (let msg = take MAX_MSG d @ drop (length (take MAX_MSG d)) msg
         in do { _ \<leftarrow> cstr msg; Some (Ret (msg, n)) })
   }"

definition TCP_Init :: "sockaddr_in \<Rightarrow> sockaddr_in \<Rightarrow> net \<Rightarrow> nat \<times> net" where
  "TCP_Init saddr daddr n =
     (let sd = SD n; n = event (Socket sd STREAM) (n\<lparr>SD := SD n + 1\<rparr>) in (sd, event (Connect sd daddr) n))"

definition TCP_Send :: "nat \<Rightarrow> string \<Rightarrow> net \<Rightarrow> (net, net) run option" where
  "TCP_Send sd msg n =
     (if \<not> SEND_OK n sd then Some (Exit (event (Close sd) n))
      else if length msg < MAX_MSG then None
      else do { _ \<leftarrow> cstr msg; Some (Ret (event (Send sd (take MAX_MSG msg)) n)) })"

definition TCP_Receive :: "nat \<Rightarrow> string \<Rightarrow> net \<Rightarrow> (net, string \<times> net) run option" where
  "TCP_Receive sd msg n = do {
     msg \<leftarrow> bzero msg MAX_MSG;
     case REPLY n sd of
       None \<Rightarrow> Some (Exit n)
     | Some d \<Rightarrow> (let msg = take MAX_MSG d @ drop (length (take MAX_MSG d)) msg
         in do { _ \<leftarrow> cstr msg; Some (Ret (msg, n)) })
   }"

text \<open>The address stays zero when \<^verbatim>\<open>inet_aton\<close> does not take the text; all four options do the same.\<close>

definition set_addr :: "string \<Rightarrow> int \<Rightarrow> sockaddr_in" where
  "set_addr ip port = \<lparr>sin_family = AF_INET, sin_port = htons (of_int port),
     sin_addr = (case inet_aton ip of Some a \<Rightarrow> a | None \<Rightarrow> 0)\<rparr>"

definition AddrInit :: "int \<Rightarrow> string \<Rightarrow> int \<Rightarrow> net \<Rightarrow> (net, sockaddr_in) run" where
  "AddrInit opt ip port n =
     (if opt = 0b00 then Ret (set_addr ip port)
      else if opt = 0b10 then Ret (set_addr ip port)
      else if opt = 0b01 then Ret (set_addr ip port)
      else if opt = 0b11 then Ret (set_addr ip port)
      else Exit n)"

section \<open>Requests\<close>

text \<open>The header points to the address; here it holds what it points to.\<close>

record http_header =
  daddr :: sockaddr_in
  req_path :: string
  req_opt :: int

definition HhdrInit :: "sockaddr_in \<Rightarrow> string \<Rightarrow> int \<Rightarrow> http_header" where
  "HhdrInit addr p opt = \<lparr>daddr = addr, req_path = p, req_opt = opt\<rparr>"

definition rn :: string where "rn = [CHR 0x0D, CHR 0x0A]"

definition host_line :: "http_header \<Rightarrow> string" where
  "host_line h = ''HOST: '' @ inet_ntoa (sin_addr (daddr h)) @ '':'' @ dec (unat (ntohs (sin_port (daddr h))))"

text \<open>\<open>combine\<close>: the loop that appends the lines, each with its line end.\<close>

fun combine :: "string \<Rightarrow> string list \<Rightarrow> string option" where
  "combine msg [] = Some msg"
| "combine msg (l # ls) = do {
     t \<leftarrow> cstr l;
     msg \<leftarrow> strcat msg t;
     msg \<leftarrow> strcat msg rn;
     combine msg ls
   }"

definition SSDP_Request :: "memory \<Rightarrow> string \<Rightarrow> http_header \<Rightarrow> string option" where
  "SSDP_Request mem msg hhdr = do {
     msg \<leftarrow> bzero msg MAX_MSG;
     l0 \<leftarrow> sprintf (malloc mem 0 128) ''M-SEARCH * HTTP/1.1'';
     l1 \<leftarrow> sprintf (malloc mem 1 128) (host_line hhdr);
     l2 \<leftarrow> sprintf (malloc mem 2 128) (''MAN: '' @ [CHR 0x22] @ ''ssdp:discover'' @ [CHR 0x22]);
     l3 \<leftarrow> sprintf (malloc mem 3 128) ''MX: 3'';
     l4 \<leftarrow> (if req_opt hhdr = 1 then sprintf (malloc mem 4 128) (''ST: '' @ WIP)
            else if req_opt hhdr = 2 then sprintf (malloc mem 4 128) (''ST: '' @ WPPP)
            else if req_opt hhdr = 3 then sprintf (malloc mem 4 128) (''ST: '' @ WROOT)
            else Some (malloc mem 4 128));
     msg \<leftarrow> combine msg [l0, l1, l2, l3, l4];
     strcat msg rn
   }"

definition Get_Request :: "memory \<Rightarrow> string \<Rightarrow> http_header \<Rightarrow> string option" where
  "Get_Request mem msg hhdr = do {
     msg \<leftarrow> bzero msg MAX_MSG;
     l0 \<leftarrow> sprintf (malloc mem 0 128) (''GET '' @ req_path hhdr @ '' HTTP/1.1'');
     l1 \<leftarrow> sprintf (malloc mem 1 128) (host_line hhdr);
     l2 \<leftarrow> sprintf (malloc mem 2 128) ''CONNECTION: Close'';
     msg \<leftarrow> combine msg [l0, l1, l2];
     strcat msg rn
   }"

definition mapping_xml :: "string \<Rightarrow> string" where
  "mapping_xml wstr = ''<?xml version='' @ [CHR 0x22] @ ''1.0'' @ [CHR 0x22] @ ''?><SOAP-ENV:Envelope xmlns:SOAP-ENV:='' @ [CHR 0x22] @
     ''http://schemas.xmlsoap.org/soap/envelope/'' @ [CHR 0x22] @ '' SOAP-ENV:encodingStyle='' @ [CHR 0x22] @
     ''http://schemas.xmlsoap.org/soap/encoding/'' @ [CHR 0x22] @
     ''><SOAP-ENV:Body><m:GetGenericPortMappingEntry xmlns:m='' @ [CHR 0x22] @ wstr @ [CHR 0x22] @
     ''><NewPortMappingIndex>0</NewPortMappingIndex></m:GetGenericPortMappingEntry></SOAP-ENV:Body></SOAP-ENV:Envelope>''"

definition address_xml :: "string \<Rightarrow> string" where
  "address_xml wstr = ''<?xml version='' @ [CHR 0x22] @ ''1.0'' @ [CHR 0x22] @ ''?><s:Envelope xmlns:s='' @ [CHR 0x22] @
     ''http://schemas.xmlsoap.org/soap/envelope/'' @ [CHR 0x22] @ '' s:encodingStyle='' @ [CHR 0x22] @
     ''http://schemas.xmlsoap.org/soap/encoding/'' @ [CHR 0x22] @
     ''><s:Body><u:GetExternalIPAddress xmlns:u='' @ [CHR 0x22] @ wstr @ [CHR 0x22] @
     ''></u:GetExternalIPAddress></s:Body></s:Envelope>''"

definition SOAP_Request :: "memory \<Rightarrow> string \<Rightarrow> http_header \<Rightarrow> string \<Rightarrow> string option" where
  "SOAP_Request mem msg hhdr wstr = do {
     msg \<leftarrow> bzero msg MAX_MSG;
     let clen = 301;
     l0 \<leftarrow> sprintf (malloc mem 0 128) (''POST '' @ req_path hhdr @ '' HTTP/1.1'');
     l1 \<leftarrow> sprintf (malloc mem 1 128) (host_line hhdr);
     l2 \<leftarrow> sprintf (malloc mem 2 128) (''CONTENT-LENGTH: '' @ dec clen);
     l3 \<leftarrow> sprintf (malloc mem 3 128) (''CONTENT-TYPE: text/xml; charset='' @ [CHR 0x22] @ ''utf-8'' @ [CHR 0x22]);
     l4 \<leftarrow> sprintf (malloc mem 4 128) ''CONNECTION: Close'';
     l5 \<leftarrow> (if req_opt hhdr = 1
            then sprintf (malloc mem 5 128) (''SOAPACTION: '' @ wstr @ ''#GetGenericPortMappingEntry'')
            else if req_opt hhdr = 2
            then sprintf (malloc mem 5 128) (''SOAPACTION: '' @ wstr @ ''#GetExternalIPAddress'')
            else Some (malloc mem 5 128));
     msg \<leftarrow> combine msg [l0, l1, l2, l3, l4, l5];
     msg \<leftarrow> strcat msg rn;
     let xml = malloc mem 6 MAX_MSG;
     if req_opt hhdr = 1 then do { xml \<leftarrow> sprintf xml (mapping_xml wstr); t \<leftarrow> cstr xml; strcat msg t }
     else if req_opt hhdr = 2 then do { xml \<leftarrow> sprintf xml (address_xml wstr); t \<leftarrow> cstr xml; strcat msg t }
     else Some msg
   }"

definition HttpRequest :: "memory \<Rightarrow> string \<Rightarrow> http_header \<Rightarrow> int \<Rightarrow> string \<Rightarrow> net \<Rightarrow> (net, string) run option" where
  "HttpRequest mem msg hhdr proto wstr n =
     (if proto = SSDP_REQUEST then map_option Ret (SSDP_Request mem msg hhdr)
      else if proto = GET_REQUEST then map_option Ret (Get_Request mem msg hhdr)
      else if proto = SOAP_REQUEST then map_option Ret (SOAP_Request mem msg hhdr wstr)
      else Some (Exit n))"

section \<open>The program\<close>

text \<open>
  The three parts of \<^verbatim>\<open>main\<close>: the search for the router, the request for its description, and the
  request for the address, which is built before the first connection is closed.  \<open>m1\<close> to \<open>m3\<close> are the
  contents of fresh memory in the three requests, \<open>msg\<close> what is on the stack.
\<close>

definition discover :: "memory \<Rightarrow> string \<Rightarrow> net \<Rightarrow> (net, string \<times> net) run option" where
  "discover m1 msg n =
     cont (AddrInit 0b01 SSDP_MUL_ADDR SSDP_PORT n) (\<lambda>da.
     cont (AddrInit 0b10 LOCAL_ADDR 44444 n) (\<lambda>sa. do {
       r \<leftarrow> HttpRequest m1 msg (HhdrInit da '''' 1) SSDP_REQUEST '''' n;
       cont r (\<lambda>msg. do {
       r \<leftarrow> UDP_Init sa n;
       cont r (\<lambda>(sd, n). do {
       r \<leftarrow> UDP_Send sd da msg n;
       cont r (\<lambda>n. do {
       r \<leftarrow> UDP_Receive sd msg n;
       cont r (\<lambda>(msg, n). Some (Ret (msg, event (Close sd) n))) }) }) }) }))"

definition describe :: "memory \<Rightarrow> string \<Rightarrow> net \<Rightarrow> (net, sockaddr_in \<times> sockaddr_in \<times> nat \<times> string \<times> net) run option" where
  "describe m2 msg n =
     cont (AddrInit 0b00 GATEWAY_ADDR 50345 n) (\<lambda>da.
     cont (AddrInit 0b10 LOCAL_ADDR 51515 n) (\<lambda>sa. do {
       r \<leftarrow> HttpRequest m2 msg (HhdrInit da ''/gatedesc.xml'' 0) GET_REQUEST '''' n;
       cont r (\<lambda>msg. let (sd, n) = TCP_Init sa da n in do {
       r \<leftarrow> TCP_Send sd msg n;
       cont r (\<lambda>n. do {
       r \<leftarrow> TCP_Receive sd msg n;
       cont r (\<lambda>(msg, n). Some (Ret (da, sa, sd, msg, n))) }) }) }))"

definition ask_address :: "memory \<Rightarrow> sockaddr_in \<Rightarrow> sockaddr_in \<Rightarrow> nat \<Rightarrow> string \<Rightarrow> net \<Rightarrow> (net, string \<times> net) run option" where
  "ask_address m3 da sa sd msg n = do {
     r \<leftarrow> HttpRequest m3 msg (HhdrInit da ''/upnp/control/WANIPConn1'' 2) SOAP_REQUEST WIP n;
     cont r (\<lambda>msg. let n = event (Close sd) n; (sd, n) = TCP_Init sa da n in do {
     r \<leftarrow> TCP_Send sd msg n;
     cont r (\<lambda>n. do {
     r \<leftarrow> TCP_Receive sd msg n;
     cont r (\<lambda>(msg, n). Some (Ret (msg, event (Close sd) n))) }) }) }"

definition upnp_main :: "memory \<Rightarrow> memory \<Rightarrow> memory \<Rightarrow> string \<Rightarrow> net \<Rightarrow> (net, string \<times> net) run option" where
  "upnp_main m1 m2 m3 msg n = do {
     r \<leftarrow> discover m1 msg n;
     cont r (\<lambda>(msg, n). do {
     r \<leftarrow> describe m2 msg n;
     cont r (\<lambda>(da, sa, sd, msg, n). ask_address m3 da sa sd msg n) }) }"

section \<open>The text of a request\<close>

definition lines :: "string list \<Rightarrow> string" where
  "lines ls = concat (map (\<lambda>l. l @ rn) ls)"

lemma lines_simps [simp]: "lines [] = []" "lines (l # ls) = l @ rn @ lines ls"
  by (simp_all add: lines_def)

lemma rn_props [simp]: "length rn = 2" "c_string rn"
  by (simp_all add: rn_def) (simp add: NUL_def)

lemma combine_padded:
  assumes "list_all2 (\<lambda>b l. cstr b = Some l) bs ls" "list_all c_string ls" "c_string s"
    and "length s + length (lines ls) < n"
  shows "combine (padded n s) bs = Some (padded n (s @ lines ls))"
  using assms
proof (induction arbitrary: s rule: list_all2_induct)
  case (Cons b bs l ls)
  then show ?case by (simp add: strcat_padded)
qed simp

text \<open>A printed line is read back; a line that is too long is not printed.\<close>

definition line :: "memory \<Rightarrow> nat \<Rightarrow> nat \<Rightarrow> string \<Rightarrow> string" where
  "line mem k n s = s @ NUL # drop (Suc (length s)) (malloc mem k n)"

lemma sprintf_line: "sprintf (malloc mem k n) s = (if length s < n then Some (line mem k n s) else None)"
  by (simp add: sprintf_def put_str_def line_def)

lemma cstr_line [simp]: "c_string s \<Longrightarrow> cstr (line mem k n s) = Some s"
  by (simp add: line_def)

lemma c_string_lines: "list_all c_string ls \<Longrightarrow> c_string (lines ls)"
  by (induction ls) auto

lemma host_line_props: "c_string (host_line h)" "length (host_line h) \<le> 27" "length (host_line h) < 128"
proof -
  have "unat (ntohs (sin_port (daddr h))) < 10 ^ Suc 4"
    using unat_u16_lt [of "ntohs (sin_port (daddr h))"] by (simp del: unat_u16_lt)
  then have "length (dec (unat (ntohs (sin_port (daddr h))))) \<le> 5" using dec_length [of _ 4] by simp
  then show "length (host_line h) \<le> 27" "length (host_line h) < 128"
    using inet_ntoa_props(2) [of "sin_addr (daddr h)"] by (simp_all add: host_line_def)
  show "c_string (host_line h)"
    using inet_ntoa_props(1) [of "sin_addr (daddr h)"] dec_plain(2) by (simp add: host_line_def) (simp add: NUL_def)
qed

lemma c_string_literals [simp]: "c_string WIP" "c_string WPPP" "c_string WROOT"
  by (simp_all add: WIP_def WPPP_def WROOT_def NUL_def)

lemma length_literals [simp]: "length WIP = 46" "length WPPP = 47" "length WROOT = 15"
  by (simp_all add: WIP_def WPPP_def WROOT_def)

definition ssdp_lines :: "string \<Rightarrow> http_header \<Rightarrow> string list" where
  "ssdp_lines st h = [''M-SEARCH * HTTP/1.1'', host_line h,
     ''MAN: '' @ [CHR 0x22] @ ''ssdp:discover'' @ [CHR 0x22], ''MX: 3'', ''ST: '' @ st]"

definition get_lines :: "http_header \<Rightarrow> string list" where
  "get_lines h = [''GET '' @ req_path h @ '' HTTP/1.1'', host_line h, ''CONNECTION: Close'']"

definition soap_lines :: "string \<Rightarrow> http_header \<Rightarrow> string list" where
  "soap_lines action h = [''POST '' @ req_path h @ '' HTTP/1.1'', host_line h, ''CONTENT-LENGTH: 301'',
     ''CONTENT-TYPE: text/xml; charset='' @ [CHR 0x22] @ ''utf-8'' @ [CHR 0x22], ''CONNECTION: Close'', ''SOAPACTION: '' @ action]"

lemma printed_lines:
  assumes "list_all c_string ls"
  shows "list_all2 (\<lambda>b l. cstr b = Some l) (map2 (\<lambda>k. line mem k 128) ks ls) (take (length ks) ls)"
  using assms by (induction ks ls rule: list_induct2') auto

lemma request_lines_ok:
  "c_string st \<Longrightarrow> list_all c_string (ssdp_lines st h)"
  "c_string (req_path h) \<Longrightarrow> list_all c_string (get_lines h)"
  "c_string (req_path h) \<Longrightarrow> c_string a \<Longrightarrow> list_all c_string (soap_lines a h)"
  using host_line_props(1) [of h]
  by (simp_all add: ssdp_lines_def get_lines_def soap_lines_def) (simp_all add: NUL_def)

lemma request_lines_length:
  "length st \<le> 47 \<Longrightarrow> length (lines (ssdp_lines st h)) \<le> 200"
  "length (req_path h) \<le> 114 \<Longrightarrow> length (lines (get_lines h)) \<le> 200"
  "length (req_path h) \<le> 114 \<Longrightarrow> length a < 128 \<Longrightarrow> length (lines (soap_lines a h)) \<le> 1000"
  using host_line_props(2) [of h] by (simp_all add: ssdp_lines_def get_lines_def soap_lines_def)

lemma combine_lines:
  assumes "list_all c_string ls" "length (lines ls) < MAX_MSG" "length ks = length ls"
  shows "combine (padded MAX_MSG []) (map2 (\<lambda>k. line mem k 128) ks ls) = Some (padded MAX_MSG (lines ls))"
  using combine_padded [OF printed_lines [OF assms(1), of mem ks], of "[]" MAX_MSG] assms by simp

lemma SSDP_Request_text:
  assumes "length msg = MAX_MSG" and "req_opt h \<in> {1, 2, 3}"
  shows "SSDP_Request mem msg h = Some (padded MAX_MSG
    (lines (ssdp_lines (if req_opt h = 1 then WIP else if req_opt h = 2 then WPPP else WROOT) h) @ rn))"
proof -
  define st where "st = (if req_opt h = 1 then WIP else if req_opt h = 2 then WPPP else WROOT)"
  have st: "c_string st" "length st \<le> 47" by (simp_all add: st_def)
  have s4: "(if req_opt h = 1 then sprintf (malloc mem 4 128) (''ST: '' @ WIP)
            else if req_opt h = 2 then sprintf (malloc mem 4 128) (''ST: '' @ WPPP)
            else if req_opt h = 3 then sprintf (malloc mem 4 128) (''ST: '' @ WROOT)
            else Some (malloc mem 4 128)) = Some (line mem 4 128 (''ST: '' @ st))"
    using assms(2) by (auto simp: st_def sprintf_line)
  note c = request_lines_ok(1) [OF st(1), of h] and n = request_lines_length(1) [OF st(2), of h]
  have "combine (padded MAX_MSG []) [line mem 0 128 ''M-SEARCH * HTTP/1.1'', line mem 1 128 (host_line h),
      line mem 2 128 (''MAN: '' @ [CHR 0x22] @ ''ssdp:discover'' @ [CHR 0x22]), line mem 3 128 ''MX: 3'',
      line mem 4 128 (''ST: '' @ st)] = Some (padded MAX_MSG (lines (ssdp_lines st h)))"
    using combine_lines [OF c, of "[0, 1, 2, 3, 4]" mem] n by (simp add: ssdp_lines_def MAX_MSG_def del: combine.simps)
  then show ?thesis
    unfolding SSDP_Request_def s4 bzero_padded [OF assms(1)] st_def [symmetric]
    using n c_string_lines [OF c] by (simp add: sprintf_line host_line_props strcat_padded MAX_MSG_def del: combine.simps)
qed

text \<open>A line of 128 characters or more has no room: the path and the action bound the requests.\<close>

lemma Get_Request_text:
  assumes "length msg = MAX_MSG" and "c_string (req_path h)"
  shows "Get_Request mem msg h =
    (if length (req_path h) \<le> 114 then Some (padded MAX_MSG (lines (get_lines h) @ rn)) else None)"
proof (cases "length (req_path h) \<le> 114")
  case True
  note c = request_lines_ok(2) [OF assms(2)] and n = request_lines_length(2) [OF True]
  have "combine (padded MAX_MSG []) [line mem 0 128 (''GET '' @ req_path h @ '' HTTP/1.1''), line mem 1 128 (host_line h),
      line mem 2 128 ''CONNECTION: Close''] = Some (padded MAX_MSG (lines (get_lines h)))"
    using combine_lines [OF c, of "[0, 1, 2]" mem] n by (simp add: get_lines_def MAX_MSG_def del: combine.simps)
  then show ?thesis
    unfolding Get_Request_def bzero_padded [OF assms(1)]
    using n c_string_lines [OF c] True
    by (simp add: sprintf_line host_line_props strcat_padded MAX_MSG_def del: combine.simps)
next
  case False
  then show ?thesis by (simp add: Get_Request_def bzero_padded [OF assms(1)] sprintf_line)
qed

definition soap_action :: "int \<Rightarrow> string" where
  "soap_action opt = (if opt = 1 then ''#GetGenericPortMappingEntry'' else ''#GetExternalIPAddress'')"

definition soap_xml :: "int \<Rightarrow> string \<Rightarrow> string" where
  "soap_xml opt w = (if opt = 1 then mapping_xml w else address_xml w)"

lemma soap_xml_props:
  "c_string w \<Longrightarrow> c_string (soap_xml opt w)" "length (soap_xml opt w) = (if opt = 1 then 334 else 235) + length w"
  by (simp_all add: soap_xml_def mapping_xml_def address_xml_def) (simp_all add: NUL_def)

lemma dec_301: "dec 301 = ''301''"
  by (simp add: dec_eval)

lemma SOAP_Request_text:
  assumes "length msg = MAX_MSG" and "c_string (req_path h)" "c_string w" and o: "req_opt h \<in> {1, 2}"
  shows "SOAP_Request mem msg h w =
    (if length (req_path h) \<le> 113 \<and> length w + length (soap_action (req_opt h)) \<le> 115
     then Some (padded MAX_MSG (lines (soap_lines (w @ soap_action (req_opt h)) h) @ rn @ soap_xml (req_opt h) w))
     else None)"
proof -
  define a where "a = w @ soap_action (req_opt h)"
  have s5: "(if req_opt h = 1 then sprintf (malloc mem 5 128) (''SOAPACTION: '' @ w @ ''#GetGenericPortMappingEntry'')
            else if req_opt h = 2 then sprintf (malloc mem 5 128) (''SOAPACTION: '' @ w @ ''#GetExternalIPAddress'')
            else Some (malloc mem 5 128)) =
      (if length a \<le> 115 then Some (line mem 5 128 (''SOAPACTION: '' @ a)) else None)"
    using o by (auto simp: a_def soap_action_def sprintf_line)
  show ?thesis
  proof (cases "length (req_path h) \<le> 113 \<and> length a \<le> 115")
    case True
    then have p: "length (req_path h) \<le> 114" "length a < 128" "length (req_path h) \<le> 113" by simp_all
    have ca: "c_string a" using assms(3) by (simp add: a_def soap_action_def) (simp add: NUL_def)
    note c = request_lines_ok(3) [OF assms(2) ca] and n = request_lines_length(3) [OF p(1,2)]
    let ?t = "lines (soap_lines a h)"
    have "combine (padded MAX_MSG []) [line mem 0 128 (''POST '' @ req_path h @ '' HTTP/1.1''), line mem 1 128 (host_line h),
        line mem 2 128 (''CONTENT-LENGTH: '' @ dec 301),
        line mem 3 128 (''CONTENT-TYPE: text/xml; charset='' @ [CHR 0x22] @ ''utf-8'' @ [CHR 0x22]),
        line mem 4 128 ''CONNECTION: Close'', line mem 5 128 (''SOAPACTION: '' @ a)] = Some (padded MAX_MSG ?t)"
      using combine_lines [OF c, of "[0, 1, 2, 3, 4, 5]" mem] n
      by (simp add: soap_lines_def dec_301 MAX_MSG_def del: combine.simps)
    moreover have "strcat (padded MAX_MSG ?t) rn = Some (padded MAX_MSG (?t @ rn))"
      using n c_string_lines [OF c] by (simp add: strcat_padded MAX_MSG_def)
    moreover have x: "length (soap_xml (req_opt h) w) < 600" "c_string (soap_xml (req_opt h) w)"
      using True assms(3) by (simp_all add: soap_xml_props a_def)
    then have "strcat (padded MAX_MSG (?t @ rn)) (soap_xml (req_opt h) w) =
        Some (padded MAX_MSG (?t @ rn @ soap_xml (req_opt h) w))"
      using n c_string_lines [OF c] by (simp add: strcat_padded MAX_MSG_def)
    moreover have "sprintf (malloc mem 6 MAX_MSG) (soap_xml (req_opt h) w) =
        Some (line mem 6 MAX_MSG (soap_xml (req_opt h) w))"
      using x(1) by (simp add: sprintf_line MAX_MSG_def)
    ultimately show ?thesis
      unfolding SOAP_Request_def s5 bzero_padded [OF assms(1)] a_def [symmetric]
      using o p True x(2)
      by (auto simp: sprintf_line host_line_props dec_301 Let_def soap_xml_def a_def simp del: combine.simps)
  next
    case False
    then show ?thesis
      unfolding SOAP_Request_def s5 bzero_padded [OF assms(1)] a_def [symmetric]
      by (auto simp: sprintf_line host_line_props dec_301 Let_def a_def simp del: combine.simps)
  qed
qed

section \<open>What the requests say\<close>

lemma addresses:
  "inet_ntoa (sin_addr (set_addr GATEWAY_ADDR p)) = GATEWAY_ADDR"
  "inet_ntoa (sin_addr (set_addr LOCAL_ADDR p)) = LOCAL_ADDR"
  "inet_ntoa (sin_addr (set_addr SSDP_MUL_ADDR p)) = SSDP_MUL_ADDR"
proof -
  have d: "dec 192 = ''192''" "dec 168 = ''168''" "dec 20 = ''20''" "dec 11 = ''11''" "dec 1 = ''1''" "dec 239 = ''239''"
    "dec 255 = ''255''" "dec 250 = ''250''"
    by (simp_all add: dec_eval)
  have a: "inet_aton GATEWAY_ADDR = Some (load32 [192, 168, 20, 1])" "inet_aton LOCAL_ADDR = Some (load32 [192, 168, 20, 11])"
    "inet_aton SSDP_MUL_ADDR = Some (load32 [239, 255, 255, 250])"
    by (simp_all add: inet_aton_def number_def digit_def GATEWAY_ADDR_def LOCAL_ADDR_def SSDP_MUL_ADDR_def)
  show "inet_ntoa (sin_addr (set_addr GATEWAY_ADDR p)) = GATEWAY_ADDR"
    "inet_ntoa (sin_addr (set_addr LOCAL_ADDR p)) = LOCAL_ADDR"
    "inet_ntoa (sin_addr (set_addr SSDP_MUL_ADDR p)) = SSDP_MUL_ADDR"
    unfolding set_addr_def by (simp_all add: a inet_ntoa_def mem32_load32 dotted_def d)
      (simp_all add: GATEWAY_ADDR_def LOCAL_ADDR_def SSDP_MUL_ADDR_def d [simplified])
qed

lemma ports: "unat (ntohs (sin_port (set_addr a (int p)))) = (if p < 65536 then p else p mod 65536)"
  by (simp add: set_addr_def unat_of_nat)

text \<open>
  C24: The SOAP request, whatever fresh memory holds: it is built exactly when the path and the service
  leave room in their lines, and then it is the lines, an empty line and the XML body, which fits the
  message buffer.  The announced length of 301 is right for services of 66 characters and the action
  \<^verbatim>\<open>GetExternalIPAddress\<close> only.
\<close>

theorem soap_request_exact:
  assumes "length msg = MAX_MSG" and "c_string (req_path h)" "c_string w" and "req_opt h \<in> {1, 2}"
  shows "SOAP_Request mem msg h w =
      (if length (req_path h) \<le> 113 \<and> length w \<le> (if req_opt h = 1 then 88 else 94)
       then Some (padded MAX_MSG (lines [''POST '' @ req_path h @ '' HTTP/1.1'', host_line h, ''CONTENT-LENGTH: 301'',
         ''CONTENT-TYPE: text/xml; charset='' @ [CHR 0x22] @ ''utf-8'' @ [CHR 0x22], ''CONNECTION: Close'',
         ''SOAPACTION: '' @ w @ soap_action (req_opt h)] @ rn @ soap_xml (req_opt h) w))
       else None) \<and>
    (length (soap_xml (req_opt h) w) = 301 \<longleftrightarrow> req_opt h = 2 \<and> length w = 66)"
proof -
  have l: "length w + length (soap_action (req_opt h)) \<le> 115 \<longleftrightarrow> length w \<le> (if req_opt h = 1 then 88 else 94)"
    by (simp add: soap_action_def)
  have "length (soap_xml (req_opt h) w) = 301 \<longleftrightarrow> req_opt h = 2 \<and> length w = 66"
    using assms(4) by (auto simp: soap_xml_props)
  then show ?thesis unfolding SOAP_Request_text [OF assms] soap_lines_def by (intro conjI) (simp_all only: l)
qed

theorem soap_request_exact_witness:
  "\<exists>h. SOAP_Request (\<lambda>_ _. CHR ''x'') (replicate MAX_MSG CHR ''y'') h WIP =
    Some (padded MAX_MSG (lines [''POST /upnp/control/WANIPConn1 HTTP/1.1'', ''HOST: 192.168.20.1:50345'',
      ''CONTENT-LENGTH: 301'', ''CONTENT-TYPE: text/xml; charset='' @ [CHR 0x22] @ ''utf-8'' @ [CHR 0x22],
      ''CONNECTION: Close'', ''SOAPACTION: '' @ WIP @ ''#GetExternalIPAddress''] @ rn @ address_xml WIP))"
proof -
  let ?h = "HhdrInit (set_addr GATEWAY_ADDR 50345) ''/upnp/control/WANIPConn1'' 2"
  have "dec 50345 = ''50345''" by (simp add: dec_eval)
  then have "host_line ?h = ''HOST: 192.168.20.1:50345''"
    using ports [of GATEWAY_ADDR 50345] by (simp add: host_line_def HhdrInit_def addresses) (simp add: GATEWAY_ADDR_def)
  moreover have "c_string (req_path ?h)" by (simp add: HhdrInit_def NUL_def)
  ultimately have "SOAP_Request (\<lambda>_ _. CHR ''x'') (replicate MAX_MSG CHR ''y'') ?h WIP =
    Some (padded MAX_MSG (lines [''POST /upnp/control/WANIPConn1 HTTP/1.1'', ''HOST: 192.168.20.1:50345'',
      ''CONTENT-LENGTH: 301'', ''CONTENT-TYPE: text/xml; charset='' @ [CHR 0x22] @ ''utf-8'' @ [CHR 0x22],
      ''CONNECTION: Close'', ''SOAPACTION: '' @ WIP @ ''#GetExternalIPAddress''] @ rn @ address_xml WIP))"
    using soap_request_exact [of "replicate MAX_MSG CHR ''y''" ?h WIP "\<lambda>_ _. CHR ''x''"]
    by (simp add: HhdrInit_def soap_action_def soap_xml_def del: lines_simps)
  then show ?thesis by blast
qed

text \<open>
  C25: The search request depends on what fresh memory holds exactly when the option is none of the three
  targets: its last line is then never written, and is read all the same.
\<close>

theorem ssdp_request_defined_iff:
  assumes "length msg = MAX_MSG"
  shows "(\<exists>t. \<forall>mem. SSDP_Request mem msg h = Some t) \<longleftrightarrow> req_opt h \<in> {1, 2, 3}"
proof
  assume "\<exists>t. \<forall>mem. SSDP_Request mem msg h = Some t"
  then obtain t where t: "SSDP_Request (\<lambda>_ _. CHR ''x'') msg h = Some t" by blast
  have "cstr (malloc (\<lambda>_ _. CHR ''x'') 4 128) = None" by (auto simp: cstr_def malloc_def NUL_def)
  then have no: "combine m [l0, l1, l2, l3, malloc (\<lambda>_ _. CHR ''x'') 4 128] = None" for m l0 l1 l2 l3
    by (simp split: bind_splits)
  show "req_opt h \<in> {1, 2, 3}"
  proof (rule ccontr)
    assume "req_opt h \<notin> {1, 2, 3}"
    then show False using t unfolding SSDP_Request_def bzero_padded [OF assms]
      by (auto simp: no elim!: bind_SomeE simp del: combine.simps)
  qed
qed (use SSDP_Request_text [OF assms] in blast)

theorem ssdp_request_defined_iff_witness:
  "\<exists>t. \<forall>mem. SSDP_Request mem (replicate MAX_MSG NUL) (HhdrInit (set_addr SSDP_MUL_ADDR SSDP_PORT) [] 1) = Some t"
  using ssdp_request_defined_iff [of "replicate MAX_MSG NUL" "HhdrInit (set_addr SSDP_MUL_ADDR SSDP_PORT) [] 1"]
  by (simp add: HhdrInit_def)

section \<open>A run\<close>

text \<open>What a reply leaves in the message buffer; without a zero there, printing it reads on.\<close>

definition reply_buf :: "string \<Rightarrow> string" where
  "reply_buf d = take MAX_MSG d @ replicate (MAX_MSG - length d) NUL"

definition overlong :: "string \<Rightarrow> bool" where
  "overlong d \<longleftrightarrow> MAX_MSG \<le> length d \<and> c_string (take MAX_MSG d)"

lemma cstr_reply_buf: "cstr (reply_buf d) = None \<longleftrightarrow> overlong d"
proof (cases "MAX_MSG \<le> length d")
  case True
  then show ?thesis by (simp add: cstr_def reply_buf_def overlong_def c_string_def)
next
  case False
  then show ?thesis by (simp add: cstr_def reply_buf_def overlong_def)
qed

lemma receive_reply:
  assumes "length msg = MAX_MSG" "REPLY n sd = Some d"
  shows "UDP_Receive sd msg n = (if overlong d then None else Some (Ret (reply_buf d, n)))"
    "TCP_Receive sd msg n = (if overlong d then None else Some (Ret (reply_buf d, n)))"
proof -
  have "take MAX_MSG d @ drop (min (length d) MAX_MSG) (padded MAX_MSG []) = reply_buf d"
    by (simp add: reply_buf_def padded_def min_def)
  then show "UDP_Receive sd msg n = (if overlong d then None else Some (Ret (reply_buf d, n)))"
    "TCP_Receive sd msg n = (if overlong d then None else Some (Ret (reply_buf d, n)))"
    using cstr_reply_buf [of d] assms(2)
    by (auto simp: UDP_Receive_def TCP_Receive_def bzero_padded [OF assms(1)] Let_def split: bind_splits)
qed

lemma length_reply_buf [simp]: "length (reply_buf d) = MAX_MSG"
  by (simp add: reply_buf_def)

lemma send_text:
  assumes "SEND_OK n sd" "c_string t" "length t < MAX_MSG"
  shows "UDP_Send sd da (padded MAX_MSG t) n = Some (Ret (event (SendTo sd da (padded MAX_MSG t)) n))"
    "TCP_Send sd (padded MAX_MSG t) n = Some (Ret (event (Send sd (padded MAX_MSG t)) n))"
  using assms by (simp_all add: UDP_Send_def TCP_Send_def cstr_padded) (simp_all add: padded_def)

text \<open>The three requests of the program.\<close>

definition search_text :: string where
  "search_text = lines [''M-SEARCH * HTTP/1.1'', ''HOST: 239.255.255.250:1900'',
     ''MAN: '' @ [CHR 0x22] @ ''ssdp:discover'' @ [CHR 0x22], ''MX: 3'', ''ST: '' @ WIP] @ rn"

definition description_text :: string where
  "description_text = lines [''GET /gatedesc.xml HTTP/1.1'', ''HOST: 192.168.20.1:50345'', ''CONNECTION: Close''] @ rn"

definition address_text :: string where
  "address_text = lines [''POST /upnp/control/WANIPConn1 HTTP/1.1'', ''HOST: 192.168.20.1:50345'',
     ''CONTENT-LENGTH: 301'', ''CONTENT-TYPE: text/xml; charset='' @ [CHR 0x22] @ ''utf-8'' @ [CHR 0x22],
     ''CONNECTION: Close'', ''SOAPACTION: '' @ WIP @ ''#GetExternalIPAddress''] @ rn @ address_xml WIP"

lemma host_lines:
  "host_line (HhdrInit (set_addr SSDP_MUL_ADDR SSDP_PORT) p k) = ''HOST: 239.255.255.250:1900''"
  "host_line (HhdrInit (set_addr GATEWAY_ADDR 50345) p k) = ''HOST: 192.168.20.1:50345''"
  using ports [of SSDP_MUL_ADDR 1900] ports [of GATEWAY_ADDR 50345]
  by (simp_all add: host_line_def HhdrInit_def addresses SSDP_PORT_def dec_eval)
    (simp_all add: SSDP_MUL_ADDR_def GATEWAY_ADDR_def)

lemma program_requests:
  assumes "length msg = MAX_MSG"
  shows "HttpRequest mem msg (HhdrInit (set_addr SSDP_MUL_ADDR SSDP_PORT) [] 1) SSDP_REQUEST w n =
      Some (Ret (padded MAX_MSG search_text))"
    and "HttpRequest mem msg (HhdrInit (set_addr GATEWAY_ADDR 50345) ''/gatedesc.xml'' 0) GET_REQUEST w n =
      Some (Ret (padded MAX_MSG description_text))"
    and "HttpRequest mem msg (HhdrInit (set_addr GATEWAY_ADDR 50345) ''/upnp/control/WANIPConn1'' 2) SOAP_REQUEST WIP n =
      Some (Ret (padded MAX_MSG address_text))"
proof -
  let ?s = "HhdrInit (set_addr SSDP_MUL_ADDR SSDP_PORT) [] 1"
  let ?g = "HhdrInit (set_addr GATEWAY_ADDR 50345) ''/gatedesc.xml'' 0"
  let ?p = "HhdrInit (set_addr GATEWAY_ADDR 50345) ''/upnp/control/WANIPConn1'' 2"
  have o: "req_opt ?s = 1" "req_opt ?p = 2" "req_path ?g = ''/gatedesc.xml''" "req_path ?p = ''/upnp/control/WANIPConn1''"
    by (simp_all add: HhdrInit_def)
  have c: "c_string (req_path ?g)" "c_string (req_path ?p)" unfolding o by (simp_all add: NUL_def)
  show "HttpRequest mem msg ?s SSDP_REQUEST w n = Some (Ret (padded MAX_MSG search_text))"
    using SSDP_Request_text [OF assms, of ?s mem]
    by (simp add: HttpRequest_def o search_text_def ssdp_lines_def host_lines del: lines_simps)
  show "HttpRequest mem msg ?g GET_REQUEST w n = Some (Ret (padded MAX_MSG description_text))"
    using Get_Request_text [OF assms c(1), of mem]
    by (simp add: HttpRequest_def GET_REQUEST_def SSDP_REQUEST_def o description_text_def get_lines_def host_lines
        del: lines_simps)
  show "HttpRequest mem msg ?p SOAP_REQUEST WIP n = Some (Ret (padded MAX_MSG address_text))"
    using SOAP_Request_text [OF assms c(2), of WIP mem]
    by (simp add: HttpRequest_def GET_REQUEST_def SSDP_REQUEST_def SOAP_REQUEST_def o address_text_def soap_lines_def
        soap_action_def soap_xml_def host_lines del: lines_simps)
qed

lemma texts_fit:
  "c_string search_text" "c_string description_text" "c_string address_text"
  "length search_text < MAX_MSG" "length description_text < MAX_MSG" "length address_text < MAX_MSG"
  "length (padded MAX_MSG search_text) = MAX_MSG" "length (padded MAX_MSG description_text) = MAX_MSG"
  "length (padded MAX_MSG address_text) = MAX_MSG"
proof -
  show l: "length search_text < MAX_MSG" "length description_text < MAX_MSG" "length address_text < MAX_MSG"
    by (simp_all add: search_text_def description_text_def address_text_def address_xml_def MAX_MSG_def)
  show "c_string search_text" "c_string description_text" "c_string address_text"
    by (simp_all add: search_text_def description_text_def address_text_def address_xml_def) (simp_all add: NUL_def)
  show "length (padded MAX_MSG search_text) = MAX_MSG" "length (padded MAX_MSG description_text) = MAX_MSG"
    "length (padded MAX_MSG address_text) = MAX_MSG"
    using l by (simp_all add: padded_def)
qed

text \<open>
  C10: The program on a working network, whatever fresh memory and the stack hold: it sends the search
  for a router, fetches the description and asks for the address on three sockets of its own, each
  request padded with zeros to the whole buffer, and ends with the last reply - unless one of the
  three replies fills the buffer without a zero, and printing it reads on behind the buffer.
\<close>

theorem upnp_run:
  assumes "length msg = MAX_MSG" and "BIND_OK n (SD n)" "SEND_OK n (SD n)" "SEND_OK n (SD n + 1)" "SEND_OK n (SD n + 2)"
    and "REPLY n (SD n) = Some d0" "REPLY n (SD n + 1) = Some d1" "REPLY n (SD n + 2) = Some d2"
  shows "upnp_main m1 m2 m3 msg n =
    (if overlong d0 \<or> overlong d1 \<or> overlong d2 then None
     else Some (Ret (reply_buf d2, n\<lparr>SD := SD n + 3, TRAFFIC := TRAFFIC n @
       [Socket (SD n) DGRAM, Bind (SD n) (set_addr LOCAL_ADDR 44444),
        SendTo (SD n) (set_addr SSDP_MUL_ADDR SSDP_PORT) (padded MAX_MSG search_text), Close (SD n),
        Socket (SD n + 1) STREAM, Connect (SD n + 1) (set_addr GATEWAY_ADDR 50345),
        Send (SD n + 1) (padded MAX_MSG description_text), Close (SD n + 1),
        Socket (SD n + 2) STREAM, Connect (SD n + 2) (set_addr GATEWAY_ADDR 50345),
        Send (SD n + 2) (padded MAX_MSG address_text), Close (SD n + 2)]\<rparr>)))"
proof -
  note t = texts_fit
  note a = program_requests(1) [OF assms(1)] program_requests(2,3) [OF length_reply_buf]
  have s1: "discover m1 msg n = (if overlong d0 then None else Some (Ret (reply_buf d0, n\<lparr>SD := SD n + 1,
      TRAFFIC := TRAFFIC n @ [Socket (SD n) DGRAM, Bind (SD n) (set_addr LOCAL_ADDR 44444),
        SendTo (SD n) (set_addr SSDP_MUL_ADDR SSDP_PORT) (padded MAX_MSG search_text), Close (SD n)]\<rparr>)))"
    using assms(2,3,6) by (simp add: discover_def AddrInit_def a UDP_Init_def Let_def event_def send_text t receive_reply)
  have s2: "describe m2 (reply_buf d) u = (if overlong e then None else Some (Ret (set_addr GATEWAY_ADDR 50345,
      set_addr LOCAL_ADDR 51515, SD u, reply_buf e, u\<lparr>SD := SD u + 1, TRAFFIC := TRAFFIC u @ [Socket (SD u) STREAM,
        Connect (SD u) (set_addr GATEWAY_ADDR 50345), Send (SD u) (padded MAX_MSG description_text)]\<rparr>)))"
    if "SEND_OK u (SD u)" "REPLY u (SD u) = Some e" for u d e
    using that by (simp add: describe_def AddrInit_def a TCP_Init_def Let_def event_def send_text t receive_reply)
  have s3: "ask_address m3 (set_addr GATEWAY_ADDR 50345) sa sd (reply_buf d) u =
     (if overlong e then None else Some (Ret (reply_buf e, u\<lparr>SD := SD u + 1, TRAFFIC := TRAFFIC u @ [Close sd,
        Socket (SD u) STREAM, Connect (SD u) (set_addr GATEWAY_ADDR 50345),
        Send (SD u) (padded MAX_MSG address_text), Close (SD u)]\<rparr>)))"
    if "SEND_OK u (SD u)" "REPLY u (SD u) = Some e" for u sa sd d e
    using that by (simp add: ask_address_def a TCP_Init_def Let_def event_def send_text t receive_reply)
  show ?thesis
    using assms(4,5,7,8) by (simp add: upnp_main_def s1 s2 [of _ d1] s3 [of _ d2])
qed

definition net0 :: net where
  "net0 = \<lparr>TRAFFIC = [], SD = 3, BIND_OK = \<lambda>_. True, SEND_OK = \<lambda>_. True,
     REPLY = \<lambda>k. Some (if k = 5 then ''HTTP/1.1 200 OK'' else ''HTTP'')\<rparr>"

theorem upnp_run_witness:
  "map_option (\<lambda>r. case r of Ret (msg, n) \<Rightarrow> (cstr msg, SD n) | Exit n \<Rightarrow> (None, SD n))
    (upnp_main (\<lambda>_ _. CHR ''x'') (\<lambda>_ _. CHR ''y'') (\<lambda>_ _. NUL) (replicate MAX_MSG CHR ''z'') net0) =
    Some (Some ''HTTP/1.1 200 OK'', 6)"
proof -
  have o: "\<not> overlong ''HTTP''" "\<not> overlong ''HTTP/1.1 200 OK''" by (simp_all add: overlong_def MAX_MSG_def)
  have "reply_buf ''HTTP/1.1 200 OK'' = padded MAX_MSG ''HTTP/1.1 200 OK''"
    by (simp add: reply_buf_def padded_def MAX_MSG_def)
  moreover have "c_string ''HTTP/1.1 200 OK''" "length ''HTTP/1.1 200 OK'' < MAX_MSG"
    by (simp_all add: NUL_def MAX_MSG_def)
  ultimately have "cstr (reply_buf ''HTTP/1.1 200 OK'') = Some ''HTTP/1.1 200 OK''" by (simp only: cstr_padded)
  then show ?thesis
    using upnp_run [of "replicate MAX_MSG CHR ''z''" net0 "''HTTP''" "''HTTP''" "''HTTP/1.1 200 OK''"
        "\<lambda>_ _. CHR ''x''" "\<lambda>_ _. CHR ''y''" "\<lambda>_ _. NUL"] o by (simp add: net0_def)
qed

end
