(* ===== verification/Interfaces.thy ===== *)
theory Interfaces
  imports C_Text Packet
begin

text \<open>
  The interface of the host and its sockets: \<^verbatim>\<open>GetIFInfo\<close>, \<^verbatim>\<open>InitHostInfo\<close>, \<^verbatim>\<open>RawSocketBuilderWithBind\<close> and
  \<^verbatim>\<open>DaemonServiceForUDP\<close> of \<^verbatim>\<open>src/src/common/p2p.c\<close>, and their use in the main function of the peer,
  \<^verbatim>\<open>src/src/peer/main.c\<close>, lines 236 to 254.  What the kernel answers (the entries its
  enumeration fills in, what each holds after the two questions about its addresses, and whether a socket is
  made and bound) is the record \<open>kernel\<close>.
\<close>

section \<open>The code\<close>

definition MAX_IF_STR_LENGTH :: nat where "MAX_IF_STR_LENGTH = 12"
definition MAX_IP_STR_LENGTH :: nat where "MAX_IP_STR_LENGTH = 16"
definition MAX_IF_NUM :: nat where "MAX_IF_NUM = 10"
definition HOST_INTERFACE_INDEX :: int where "HOST_INTERFACE_INDEX = 1"

text \<open>An interface of the kernel (its name in 16 characters), and what the program keeps of it.\<close>

record ifreq =
  ifr_name :: string
  ifr_hwaddr :: bytes
  ifr_addr :: bytes

record IFinfo =
  if_name :: string
  if_mac :: bytes
  if_addr_str :: string
  if_ip :: u32

datatype sys_call = RawSocket u16 int | UdpSocket u16

record kernel =
  IFS :: "ifreq list"
  SOCKET_OK :: "sys_call \<Rightarrow> bool"
  BINDING_OK :: "sys_call \<Rightarrow> bool"
  IF_INDEX :: "string \<Rightarrow> int"
  CALLS :: "sys_call list"

text \<open>The copies are those of \<^verbatim>\<open>strncpy\<close> with the length of the source and its zero.\<close>

fun if_loop :: "nat \<Rightarrow> ifreq list \<Rightarrow> IFinfo list \<Rightarrow> IFinfo list option" where
  "if_loop i [] if_info = Some if_info"
| "if_loop i (r # rs) if_info = do {
     e \<leftarrow> idx if_info (int i);
     name \<leftarrow> cstr (ifr_name r);
     n \<leftarrow> put_str (if_name e) 0 name;
     mac \<leftarrow> rdn (ifr_hwaddr r) 0 6;
     ip_addr \<leftarrow> rdn (ifr_addr r) 0 4;
     s \<leftarrow> put_str (if_addr_str e) 0 (dotted ip_addr);
     if_info \<leftarrow> upd if_info (int i) \<lparr>if_name = n, if_mac = mac, if_addr_str = s, if_ip = load32 ip_addr\<rparr>;
     if_loop (i + 1) rs if_info
   }"

text \<open>The kernel is offered room for ten interfaces.\<close>

definition GetIFInfo :: "IFinfo list \<Rightarrow> kernel \<Rightarrow> (IFinfo list \<times> int) option" where
  "GetIFInfo if_info k = do {
     let ifs_req = take MAX_IF_NUM (IFS k);
     if_info \<leftarrow> if_loop 0 ifs_req if_info;
     Some (if_info, int (length ifs_req))
   }"

text \<open>\<^verbatim>\<open>HOST_INFO\<close> points to the entry; its name is printed.\<close>

definition InitHostInfo :: "IFinfo \<Rightarrow> addressing \<Rightarrow> addressing option" where
  "InitHostInfo info a = do {
     _ \<leftarrow> cstr (if_name info);
     Some (a\<lparr>SRC_MAC := if_mac info\<rparr>)
   }"

definition RawSocketBuilderWithBind :: "u16 \<Rightarrow> string \<Rightarrow> kernel \<Rightarrow> (kernel, kernel) run option" where
  "RawSocketBuilderWithBind option if_nm k = do {
     name \<leftarrow> cstr if_nm;
     let sd = RawSocket (htons option) (IF_INDEX k name);
     if \<not> SOCKET_OK k sd then Some (Exit k)
     else if \<not> BINDING_OK k sd then Some (Exit k)
     else Some (Ret (k\<lparr>CALLS := CALLS k @ [sd]\<rparr>))
   }"

definition DaemonServiceForUDP :: "u16 \<Rightarrow> kernel \<Rightarrow> (kernel, kernel) run" where
  "DaemonServiceForUDP port k =
     (let sd = UdpSocket (htons port) in
      if \<not> SOCKET_OK k sd then Exit k
      else if \<not> BINDING_OK k sd then Exit k
      else Ret (k\<lparr>CALLS := CALLS k @ [sd]\<rparr>))"

definition ETH_P_ALL :: u16 where "ETH_P_ALL = 3"

text \<open>The part of the peer's \<^verbatim>\<open>main\<close> that sets up its addresses; \<open>if_info\<close> is what is on the stack.\<close>

definition peer_host :: "IFinfo list \<Rightarrow> u16 \<Rightarrow> kernel \<Rightarrow> addressing \<Rightarrow> (kernel, addressing \<times> kernel) run option" where
  "peer_host if_info src_port k a = do {
     (if_info, if_num) \<leftarrow> GetIFInfo if_info k;
     host \<leftarrow> idx if_info HOST_INTERFACE_INDEX;
     a \<leftarrow> InitHostInfo host a;
     r \<leftarrow> RawSocketBuilderWithBind ETH_P_ALL (if_name host) k;
     cont r (\<lambda>k. do {
       let a = a\<lparr>SRC_PORT := src_port\<rparr>;
       cont (DaemonServiceForUDP src_port k) (\<lambda>k. do {
         text \<leftarrow> cstr (if_addr_str host);
         let ip = (case inet_aton text of Some ip \<Rightarrow> ip | None \<Rightarrow> SRC_IP a);
         Some (Ret (RenewSrcIPandMAC ip (if_mac host) a, k))
       })
     })
   }"

section \<open>What the host learns of itself\<close>

definition ifreq_ok :: "ifreq \<Rightarrow> bool" where
  "ifreq_ok r \<longleftrightarrow> (\<exists>n. cstr (ifr_name r) = Some n \<and> c_string n) \<and> length (ifr_hwaddr r) = 6 \<and> length (ifr_addr r) = 4"

definition room_for :: "IFinfo \<Rightarrow> bool" where
  "room_for e \<longleftrightarrow> length (if_name e) = MAX_IF_STR_LENGTH \<and> length (if_addr_str e) = MAX_IP_STR_LENGTH"

definition name_of :: "ifreq \<Rightarrow> string" where
  "name_of r = the (cstr (ifr_name r))"

definition holds_if :: "ifreq \<Rightarrow> IFinfo \<Rightarrow> bool" where
  "holds_if r e \<longleftrightarrow> cstr (if_name e) = Some (name_of r) \<and> if_mac e = ifr_hwaddr r \<and> if_ip e = load32 (ifr_addr r) \<and>
     cstr (if_addr_str e) = Some (inet_ntoa (load32 (ifr_addr r)))"

lemma put_str_front: "length s < length b \<Longrightarrow> put_str b 0 s = Some (s @ NUL # drop (Suc (length s)) b)"
  by (simp add: put_str_def)

lemma if_loop_reads:
  assumes "list_all ifreq_ok rs" "list_all room_for infos" "i + length rs \<le> length infos"
    and "list_all (\<lambda>r. length (name_of r) < MAX_IF_STR_LENGTH) rs"
  shows "\<exists>infos'. if_loop i rs infos = Some infos' \<and> length infos' = length infos \<and> take i infos' = take i infos \<and>
    (\<forall>j < length rs. holds_if (rs ! j) (infos' ! (i + j)))"
  using assms
proof (induction rs arbitrary: i infos)
  case (Cons r rs)
  define e where "e = infos ! i"
  have i: "i < length infos" using Cons.prems(3) by simp
  have e: "idx infos (int i) = Some e" using i by (simp add: idx_def e_def)
  have room: "length (if_name e) = 12" "length (if_addr_str e) = 16"
    using Cons.prems(2) i by (auto simp: list_all_length e_def room_for_def MAX_IF_STR_LENGTH_def MAX_IP_STR_LENGTH_def)
  obtain n where n: "cstr (ifr_name r) = Some n" "c_string n" "name_of r = n" "length (ifr_hwaddr r) = 6" "length (ifr_addr r) = 4"
    "length n < 12" using Cons.prems(1,4) by (auto simp: ifreq_ok_def name_of_def MAX_IF_STR_LENGTH_def)
  have d: "dotted (ifr_addr r) = inet_ntoa (load32 (ifr_addr r))" using n(5) by (simp add: inet_ntoa_def mem32_load32)
  define t where "t = inet_ntoa (load32 (ifr_addr r))"
  have t: "c_string t" "length t < 16" using inet_ntoa_props [of "load32 (ifr_addr r)"] by (simp_all add: t_def)
  define e' where "e' = \<lparr>if_name = n @ NUL # drop (Suc (length n)) (if_name e), if_mac = ifr_hwaddr r,
    if_addr_str = t @ NUL # drop (Suc (length t)) (if_addr_str e), if_ip = load32 (ifr_addr r)\<rparr>"
  have step: "if_loop i (r # rs) infos = if_loop (i + 1) rs (infos[i := e'])"
    using e n room t i by (simp add: put_str_front rdn_def d t_def [symmetric] upd_def e'_def)
  have "room_for e'" using room n(6) t(2) by (simp add: room_for_def e'_def MAX_IF_STR_LENGTH_def MAX_IP_STR_LENGTH_def)
  then have "list_all room_for (infos[i := e'])"
    using Cons.prems(2) set_update_subset_insert [of infos i e'] by (auto simp: list_all_iff)
  from Cons.IH [OF _ this, of "i + 1"] Cons.prems obtain infos' where
    i': "if_loop (i + 1) rs (infos[i := e']) = Some infos'" "length infos' = length infos"
    "take (i + 1) infos' = take (i + 1) (infos[i := e'])" "\<forall>j < length rs. holds_if (rs ! j) (infos' ! (i + 1 + j))"
    by auto
  have "infos' ! i = e'" using arg_cong [OF i'(3), of "\<lambda>xs. xs ! i"] i i'(2) by simp
  moreover have "holds_if r e'" using n(2,3) t(1) by (simp add: holds_if_def e'_def t_def)
  ultimately have "holds_if ((r # rs) ! j) (infos' ! (i + j))" if "j < length (r # rs)" for j
    using that i'(4) by (cases j) auto
  moreover have "take i infos' = take i infos"
    using arg_cong [OF i'(3), of "take i"] by simp
  ultimately show ?case using i'(1,2) unfolding step by auto
qed simp

text \<open>A name of 12 characters or more overruns its field.\<close>

lemma if_loop_long_name:
  assumes "list_all ifreq_ok rs" "list_all room_for infos" "r \<in> set rs" "MAX_IF_STR_LENGTH \<le> length (name_of r)"
  shows "if_loop i rs infos = None"
  using assms
proof (induction rs arbitrary: i infos)
  case (Cons q rs)
  show ?case
  proof (cases "if_loop i (q # rs) infos")
    case (Some infos')
    then obtain e n m ip s us where u: "idx infos (int i) = Some e" "cstr (ifr_name q) = Some n" "put_str (if_name e) 0 n = Some m"
      "put_str (if_addr_str e) 0 (dotted ip) = Some s"
      "upd infos (int i) \<lparr>if_name = m, if_mac = take 6 (ifr_hwaddr q), if_addr_str = s, if_ip = load32 ip\<rparr> = Some us"
      "if_loop (i + 1) rs us = Some infos'"
      by (auto elim!: bind_SomeE simp: rdn_def split: if_splits)
    have room: "room_for e" using u(1) Cons.prems(2) by (auto simp: idx_def list_all_length split: if_splits)
    then have "length n < MAX_IF_STR_LENGTH" using u(3) by (auto simp: put_str_def room_for_def split: if_splits)
    then have "r \<in> set rs" using Cons.prems(3,4) u(2) by (auto simp: name_of_def)
    moreover have "length m = length (if_name e)" "length s = length (if_addr_str e)"
      using u(3,4) by (auto simp: put_str_def split: if_splits)
    then have "list_all room_for us" using u(5) room Cons.prems(2)
      by (auto simp: upd_def list_all_length nth_list_update room_for_def split: if_splits)
    ultimately have "if_loop (i + 1) rs us = None" using Cons.IH Cons.prems(1,4) by auto
    with u(6) show ?thesis by simp
  qed
qed simp

text \<open>
  C23: The peer finds its own address: on a machine with at least two interfaces whose names are shorter
  than 12 characters and whose calls succeed, the program takes the hardware address and, through its
  text form, the IP address of the second interface, and binds the raw socket to it; one longer name
  among the first ten, and the enumeration writes behind its field.
\<close>

theorem peer_host_found:
  assumes k: "list_all ifreq_ok (IFS k)" "2 \<le> length (IFS k)" "SOCKET_OK k = (\<lambda>_. True)" "BINDING_OK k = (\<lambda>_. True)"
    and room: "list_all room_for infos" "length infos = MAX_IF_NUM"
  shows "peer_host infos src_port k a =
    (if \<forall>r \<in> set (take MAX_IF_NUM (IFS k)). length (name_of r) < MAX_IF_STR_LENGTH
     then Some (Ret (a\<lparr>SRC_MAC := ifr_hwaddr (IFS k ! 1), SRC_PORT := src_port, SRC_IP := load32 (ifr_addr (IFS k ! 1))\<rparr>,
       k\<lparr>CALLS := CALLS k @ [RawSocket (htons ETH_P_ALL) (IF_INDEX k (name_of (IFS k ! 1))), UdpSocket (htons src_port)]\<rparr>))
     else None)"
proof -
  define rs where "rs = take MAX_IF_NUM (IFS k)"
  have ok: "list_all ifreq_ok rs" using k(1) by (auto simp: rs_def list_all_length)
  show ?thesis
  proof (cases "\<forall>r \<in> set rs. length (name_of r) < MAX_IF_STR_LENGTH")
    case True
    have len: "0 + length rs \<le> length infos" using room(2) by (simp add: rs_def)
    obtain infos' where i: "if_loop 0 rs infos = Some infos'" "length infos' = length infos"
      "\<forall>j < length rs. holds_if (rs ! j) (infos' ! (0 + j))"
      using if_loop_reads [OF ok room(1) len] True by (auto simp: list_all_iff)
    have r1: "1 < length rs" "rs ! 1 = IFS k ! 1" using k(2) by (simp_all add: rs_def MAX_IF_NUM_def)
    define e where "e = infos' ! 1"
    have h: "idx infos' HOST_INTERFACE_INDEX = Some e" "holds_if (IFS k ! 1) e"
      using i(2,3) r1 room(2) by (auto simp: idx_def HOST_INTERFACE_INDEX_def MAX_IF_NUM_def e_def)
    then show ?thesis using True i(1) k(3,4)
      by (simp add: peer_host_def GetIFInfo_def InitHostInfo_def RawSocketBuilderWithBind_def DaemonServiceForUDP_def
          holds_if_def inet_roundtrip RenewSrcIPandMAC_def flip: rs_def)
  next
    case False
    then have "if_loop 0 rs infos = None" using if_loop_long_name [OF ok room(1)] by (auto simp: not_less)
    then show ?thesis using False by (simp add: peer_host_def GetIFInfo_def flip: rs_def)
  qed
qed

text \<open>A machine with a loopback and an Ethernet interface.\<close>

definition example_kernel :: kernel where
  "example_kernel = \<lparr>IFS = [\<lparr>ifr_name = ''lo'' @ [NUL], ifr_hwaddr = [0, 0, 0, 0, 0, 0], ifr_addr = [127, 0, 0, 1]\<rparr>,
       \<lparr>ifr_name = ''eth0'' @ [NUL], ifr_hwaddr = [2, 0, 0, 0, 0, 7], ifr_addr = [192, 168, 0, 9]\<rparr>],
     SOCKET_OK = (\<lambda>_. True), BINDING_OK = (\<lambda>_. True), IF_INDEX = (\<lambda>n. if n = ''eth0'' then 2 else 1), CALLS = []\<rparr>"

definition stack_infos :: "IFinfo list" where
  "stack_infos = replicate MAX_IF_NUM \<lparr>if_name = replicate 12 CHR ''x'', if_mac = replicate 6 0, if_addr_str = replicate 16 CHR ''y'', if_ip = 0\<rparr>"

theorem peer_host_found_witness:
  "\<forall>a. peer_host stack_infos 5000 example_kernel a =
     Some (Ret (a\<lparr>SRC_MAC := [2, 0, 0, 0, 0, 7], SRC_PORT := 5000, SRC_IP := load32 [192, 168, 0, 9]\<rparr>,
       example_kernel\<lparr>CALLS := [RawSocket (htons ETH_P_ALL) 2, UdpSocket (htons 5000)]\<rparr>))"
  by (intro allI, subst peer_host_found)
     (simp_all add: example_kernel_def stack_infos_def ifreq_ok_def room_for_def name_of_def MAX_IF_STR_LENGTH_def
        MAX_IP_STR_LENGTH_def MAX_IF_NUM_def c_string_def cstr_def list_all_iff NUL_def)

end
