(* ===== verification/Spec2Isabelle.thy ===== *)
theory Spec2Isabelle
  imports Clock Ebml Wire Block_Cut Webm_File Store Packet Node_List Node_State Messages Handlers
    Slots Stream Timer Dispatch Connections Exchange Recording Streaming Progress Interrupt Webm_Header Start
    Cutting Serving Origin Origin_Run Relay C_Text Upnp Interfaces
begin

text \<open>
  A peer-to-peer live streaming system in C.  An origin (\<^verbatim>\<open>src/src/originsource/main.c\<close>) reads a WebM
  file that an encoder is still writing, cuts its clusters into blocks of at most 1000 bytes and
  sends them to at most two children; every peer (\<^verbatim>\<open>src/src/peer/main.c\<close>) records the stream into a
  file of its own and sends it on to its own two children, so the nodes form a tree.  All nodes share
  \<^verbatim>\<open>src/src/common/p2p.c\<close> (packets, messages, handlers, the timer), \<^verbatim>\<open>webm_parser.c\<close> (EBML, blocks,
  the file) and \<^verbatim>\<open>wrapper.c\<close> (the clock); \<^verbatim>\<open>upnp.c\<close> is a program of its own.  Packets are whole Ethernet frames on a raw socket.

  \<^bold>\<open>The theories and what they model.\<close>

  \<^item> \<open>Prelude\<close>: C integers as words, buffers as lists of bytes with partial reads and writes, array
    elements at \<^verbatim>\<open>int\<close> indices, network byte order, and \<open>run\<close> for code that may call \<^verbatim>\<open>exit\<close>.
  \<^item> \<open>Clock\<close> (\<^verbatim>\<open>wrapper.c\<close>): time stamps relative to the start, and the comparison of intervals.
  \<^item> \<open>Ebml\<close> (\<^verbatim>\<open>webm_parser.c\<close>): element ids, variable-length sizes and chunk headers; round trips
    with an encoder, bounds on what is read, and absence of wrap-around.
  \<^item> \<open>Block_Cut\<close> (\<^verbatim>\<open>webm_parser.c\<close>): cutting a cluster into blocks and pieces
    (\<^verbatim>\<open>GetChankByBytes\<close>, \<^verbatim>\<open>GetNextBlockByBytes\<close> and the assignments); termination, greediness, and the
    invariant that the blocks tile the cluster.
  \<^item> \<open>Wire\<close> (\<^verbatim>\<open>webm_parser.c\<close>, \<^verbatim>\<open>p2p.c\<close>): the 18 bytes of a \<^verbatim>\<open>BlockInfo\<close> and the 30 bytes of a
    \<^verbatim>\<open>NodeStatus\<close>, as two instances of the locale \<open>wire_codec\<close>.
  \<^item> \<open>Webm_File\<close> (\<^verbatim>\<open>webm_parser.c\<close>): the file, its positions and the search for a block
    (\<^verbatim>\<open>CalOffset\<close>); the locale \<open>file_store\<close> states what is used of stdio.
  \<^item> \<open>Store\<close> (\<^verbatim>\<open>webm_parser.c\<close>): clusters, timecodes and the assembly of received blocks
    (\<^verbatim>\<open>AssembleBlock\<close>) into the file of a peer, against the abstract file \<open>file_inv\<close>.
  \<^item> \<open>Packet\<close> (\<^verbatim>\<open>p2p.c\<close>): Ethernet, IPv4 and UDP headers, checksums, and the specification
    \<open>frame_ok\<close> of the frame \<^verbatim>\<open>SendPacket\<close> writes.
  \<^item> \<open>Node_List\<close> (\<^verbatim>\<open>p2p.c\<close>): the lists of known and of refused nodes; the locale \<open>node_table\<close> is the
    lookup table they implement.
  \<^item> \<open>Node_State\<close>, \<open>Messages\<close>, \<open>Handlers\<close>, \<open>Stream\<close>, \<open>Timer\<close>, \<open>Dispatch\<close> (\<^verbatim>\<open>p2p.c\<close> and the receive
    loops of the two mains): the globals of a node as the record \<open>node\<close>, every \<^verbatim>\<open>Send\<close> function,
    every \<^verbatim>\<open>Node\<close> function, the sending of cached blocks, one round of \<^verbatim>\<open>TimeProcess\<close>, and one round
    of \<^verbatim>\<open>Receive\<close>.
  \<^item> \<open>Slots\<close>: the table of children (\<^verbatim>\<open>CONNECTED_NODES\<close>, \<^verbatim>\<open>CURRENT_CHILD_NUM\<close>), the locale \<open>child_slots\<close>
    its users rely on, and the operations that leave it alone.
  \<^item> \<open>Sending\<close>: what each \<^verbatim>\<open>Send\<close> function puts on the wire (lemmas \<open>..._posts\<close>).
  \<^item> \<open>Defined\<close>: which handlers always have a defined outcome in a \<open>ready\<close> node, and the one that has not.
  \<^item> \<open>Receiving\<close>: a sent frame, received by the node it is for.
  \<^item> \<open>Connections\<close>: the step relation \<open>node_step\<close> of a node and the invariant of its runs.
  \<^item> \<open>Exchange\<close>: two nodes and a wire: what the receiver's state becomes after what the sender sent.
  \<^item> \<open>Progress\<close>: a ready node survives any sequence of messages of nine kinds and stays ready.
  \<^item> \<open>Recording\<close>: an abstract recorder of packets and the proof that \<^verbatim>\<open>AssembleBlock\<close> implements it over
    a whole stream; \<open>Interrupt\<close> (\<^verbatim>\<open>SignalHandler\<close> of \<^verbatim>\<open>p2p.c\<close>): the end of a stream.
  \<^item> \<open>Webm_Header\<close> (\<^verbatim>\<open>webm_parser.c\<close>): the analysis of the elements before the first cluster of a file that
    is still being written; \<open>Start\<close>: the globals and the set-up parts of the two main functions.
  \<^item> \<open>Streaming\<close>: one block from the file of the parent into the file of the child.
  \<^item> \<open>Cutting\<close>: a complete cluster as the list of its blocks (\<open>cut_into\<close>), independent of what follows.
  \<^item> \<open>Serving\<close>: \<^verbatim>\<open>SendMulStream\<close> over a file of complete clusters; a child's place in the stream, and the
    invariant \<open>serves\<close>.
  \<^item> \<open>Origin\<close> (\<^verbatim>\<open>UpdateClusterFromWebM\<close> of \<^verbatim>\<open>webm_parser.c\<close> and the main loop of the origin) and
    \<open>Origin_Run\<close>: the waits for the encoder, their ends and the one that has none, and what a turn of the
    loop does (\<open>origin_at\<close> to \<open>origin_at\<close>, with one cluster more; \<open>streamed\<close> is what was sent meanwhile).
  \<^item> \<open>Relay\<close>: the stream from node to node: the frames of a slot, received in order, make up the file of
    the child.  It joins \<open>Origin_Run\<close>, \<open>Receiving\<close> and \<open>Recording\<close>.
  \<^item> \<open>C_Text\<close> and \<open>Upnp\<close> (\<^verbatim>\<open>upnp.c\<close>): C strings in buffers of fixed length, the requests of the UPnP client,
    and the whole program over a record of what it does to its sockets.
  \<^item> \<open>Interfaces\<close> (\<^verbatim>\<open>p2p.c\<close>): the table of the interfaces of the host, its sockets, and the peer's own
    addresses taken from them (in \<open>Start\<close> these are arguments); what the kernel answers is the record \<open>kernel\<close>.

  \<^bold>\<open>Modelling decisions.\<close>  \<open>None\<close> is an execution with no defined outcome: an access outside a buffer, a
  null pointer, an endless loop.  \<open>Ret\<close> is a return and \<open>Exit\<close> the state at a call of \<^verbatim>\<open>exit\<close>.  Integers
  have their C width; \<^verbatim>\<open>int\<close> counters that stay far from their bounds are integers.  Loops that may not
  end are partial functions with the value \<open>None\<close> for an endless run, so termination is a theorem, never an
  assumption; the other loops are recursions on the list of their indices and need no fuel.  The host
  is a little-endian x86 machine; a shift of an \<^verbatim>\<open>int\<close> by 32 or more, undefined in C, is that of its
  shift instruction.  The environment is part of the state: \<open>CLOCK\<close> and \<open>TICK\<close> (readings of the clock),
  \<open>RAND\<close> and \<open>RAND_N\<close> (values of \<^verbatim>\<open>rand\<close>), \<open>HEAP_C\<close>, \<open>HEAP_B\<close> and \<open>HEAP_N\<close> (contents of fresh memory),
  \<open>STACK_U16\<close> (an uninitialised local of \<^verbatim>\<open>NodeDepart\<close>), \<open>FILE_LIMIT\<close> (where \<^verbatim>\<open>fwrite\<close> begins to fail) and
  \<open>WIRE\<close> (the frames written).  Arguments of single operations are \<open>enc\<close> (the encoder's file at the \<open>k\<close>-th
  look at its size), \<open>reply\<close> (the answer of the gateway), \<open>joins\<close> (whether a thread that is waited for ends),
  \<open>file_buf\<close> and \<open>mem\<close> (what is on the stack and in fresh memory).  A received packet is followed by the stale bytes of the receive buffer,
  because the handlers read past the end of a short packet.  \<^verbatim>\<open>inet_pton\<close> inverts \<^verbatim>\<open>inet_ntoa\<close>.  A
  handler and a round of the timer are atomic steps: the two threads interleave between them, not
  inside.

  \<^bold>\<open>Not modelled.\<close>  Command lines; the creation of threads and their interleaving inside a handler or a
  round; pauses; printing, except where it reads memory.  \<^verbatim>\<open>inet_aton\<close> reads dotted decimal only, which the addresses of \<^verbatim>\<open>upnp.c\<close> are.
\<close>

end
